(* ===== verification/Prelude.thy ===== *)
theory Prelude
  imports Main "HOL-Library.Word"
begin

text \<open>
  Shared vocabulary of the development: the outcome of a Rust computation (value, error
  value, panic, or no return at all), checked \<open>usize\<close> arithmetic, indexing and slicing
  with their panics, the \<open>while\<close> and \<open>for\<close> loops of the source, and the list lemmas
  (chunks, overwriting a region) that the component theories share.
\<close>

section \<open>Outcomes\<close>

text \<open>
  The reasons for a panic. Arithmetic on \<open>usize\<close> is checked, as in a build with overflow
  checks (the profile the crate's tests run under): an operation that leaves the range
  panics. Every theorem that shows an operation to return a value therefore also shows that no
  intermediate value overflows.
\<close>

datatype panic =
    ArithOverflow
  | DivByZero
  | IndexOutOfBounds
  | LengthMismatch
  | UnwrapNone
  | ExpectFailed
  | AssertFailed
  | ZeroStep
  | NotImplemented

text \<open>
  The error values: one constructor per message of the \<open>ensure!\<close>, \<open>anyhow!\<close> and
  \<open>bail!\<close> calls, and one for the context that \<open>.context(..)\<close> wraps around an error.
\<close>

datatype error =
    LeafBranchMismatch
  | BranchesNotPow2
  | LeafsNotPow2
  | InvalidInput
  | CannotDiscardAllRows
  | InvalidTreeLength
  | NotEnoughLeaves
  | SizeNotPow2
  | NoSizeHint
  | ItemError nat
  | InconsistentData
  | LeafsNotEven
  | InvalidChunkSize
  | InvalidHashedNodeLength
  | InvalidRowCount
  | BufNotMultiple
  | OutOfRange
  | NotMultipleOfElement
  | DataStoreHasSubTrees
  | DataStoreHasTopLayer
  | InconsistentTreeData
  | TreeSizeInvalid
  | NoSubTreeArity
  | NoTopTreeArity
  | RowCountsDiffer
  | LengthsDiffer
  | WrongNumberOfTrees
  | InvalidArity
  | SubTreesRequired
  | BaseTreesRequired
  | StoreDataRequired
  | ShapeMismatch
  | LeafOutOfBounds
  | NotPow2Tree
  | LemmaTooShort
  | InvalidLemmaLength
  | InvalidPathLength
  | SubTreeProofMissing
  | SubTreeProofPresent
  | BaseProofHasSubLayer
  | BaseProofHasTopLayer
  | EmptyRange
  | AllDataAvailable
  | CachedLeafsNotPow2
  | InconsistentStoreLength
  | PartialRowCountMismatch
  | FileNotFound
  | FileExists
  | CannotCreateFile
  | FileTooLarge
  | UnexpectedEof
  | InvalidFormattedFile
  | SliceTooLarge
  | NotEnoughSpace
  | WrongTreeLength
  | CannotCompact
  | CannotCompactStore
  | FailedToCopy
  | InconsistentMetadata
  | InconsistentStoreSize
  | InconsistentTreeRowCount
  | OutOfBounds
  | InvalidReadStart
  | InvalidTruncationLength
  | ConfigRequired
  | MapNotInitialized
  | FailedToRead error
  | FailedToDelete error
  | FailedToSync error
  | ConfigOffsetMismatch
  | FailedToCreateStore error
  | FailedToInstantiate error
  | FailedToPopulate error
  | FailedToReadRoot error

datatype 'a outcome = Ok 'a | Err error | Panic panic | Diverge

text \<open>
  \<open>and_then m f\<close> is the \<open>?\<close> operator (and, for a panic or a computation that never
  returns, the propagation the language does by itself).
\<close>

primrec and_then :: "'a outcome \<Rightarrow> ('a \<Rightarrow> 'b outcome) \<Rightarrow> 'b outcome" where
  "and_then (Ok x) f = f x"
| "and_then (Err e) f = Err e"
| "and_then (Panic p) f = Panic p"
| "and_then Diverge f = Diverge"

text \<open>\<open>ensure!(b, e); k\<close>\<close>

abbreviation ensure :: "bool \<Rightarrow> error \<Rightarrow> 'a outcome \<Rightarrow> 'a outcome" where
  "ensure b e k \<equiv> (if b then k else Err e)"

text \<open>\<open>assert!(b); k\<close> and the other conditional panics\<close>

abbreviation panic_unless :: "bool \<Rightarrow> panic \<Rightarrow> 'a outcome \<Rightarrow> 'a outcome" where
  "panic_unless b p k \<equiv> (if b then k else Panic p)"

primrec map_err :: "(error \<Rightarrow> error) \<Rightarrow> 'a outcome \<Rightarrow> 'a outcome" where
  "map_err f (Ok x) = Ok x"
| "map_err f (Err e) = Err (f e)"
| "map_err f (Panic p) = Panic p"
| "map_err f Diverge = Diverge"

text \<open>\<open>.expect(..)\<close>: an error value becomes a panic.\<close>

primrec expect :: "'a outcome \<Rightarrow> 'a outcome" where
  "expect (Ok x) = Ok x"
| "expect (Err e) = Panic ExpectFailed"
| "expect (Panic p) = Panic p"
| "expect Diverge = Diverge"

fun is_ok :: "'a outcome \<Rightarrow> bool" where
  "is_ok (Ok _) = True"
| "is_ok _ = False"

lemma and_then_cong [fundef_cong]:
  assumes "m = m'" and "\<And>x. m' = Ok x \<Longrightarrow> f x = g x"
  shows "and_then m f = and_then m' g"
  using assms by (cases m') simp_all

text \<open>The simplifier evaluates the first computation before it looks at the rest.\<close>

lemma and_then_weak_cong [cong]: "m = m' \<Longrightarrow> and_then m f = and_then m' f"
  by simp

lemma and_then_eq_Ok: "and_then m f = Ok y \<longleftrightarrow> (\<exists>x. m = Ok x \<and> f x = Ok y)"
  by (cases m) simp_all

lemma and_then_assoc: "and_then (and_then m f) g = and_then m (\<lambda>x. and_then (f x) g)"
  by (cases m) simp_all

lemma and_then_OkE:
  assumes "and_then m f = Ok y"
  obtains x where "m = Ok x" and "f x = Ok y"
  using assms by (cases m) simp_all

lemma is_ok_iff: "is_ok m \<longleftrightarrow> (\<exists>x. m = Ok x)"
  by (cases m) simp_all

lemma map_err_eq_Ok [simp]: "map_err f m = Ok y \<longleftrightarrow> m = Ok y"
  by (cases m) simp_all

lemma expect_eq_Ok [simp]: "expect m = Ok y \<longleftrightarrow> m = Ok y"
  by (cases m) simp_all


section \<open>Arithmetic on usize\<close>

text \<open>A \<open>usize\<close> is a \<^typ>\<open>nat\<close> below \<open>2 ^ 64\<close> (the 64-bit targets of the crate).\<close>

abbreviation usize_limit :: nat where
  "usize_limit \<equiv> 18446744073709551616"

text \<open>No buffer and no file is larger than \<open>i64::MAX\<close> bytes.\<close>

abbreviation isize_limit :: nat where
  "isize_limit \<equiv> 9223372036854775808"

definition usize_add :: "nat \<Rightarrow> nat \<Rightarrow> nat outcome" where
  "usize_add a b = (if a + b < usize_limit then Ok (a + b) else Panic ArithOverflow)"

definition usize_sub :: "nat \<Rightarrow> nat \<Rightarrow> nat outcome" where
  "usize_sub a b = (if b \<le> a then Ok (a - b) else Panic ArithOverflow)"

definition usize_mul :: "nat \<Rightarrow> nat \<Rightarrow> nat outcome" where
  "usize_mul a b = (if a * b < usize_limit then Ok (a * b) else Panic ArithOverflow)"

definition usize_div :: "nat \<Rightarrow> nat \<Rightarrow> nat outcome" where
  "usize_div a b = (if b = 0 then Panic DivByZero else Ok (a div b))"

definition usize_rem :: "nat \<Rightarrow> nat \<Rightarrow> nat outcome" where
  "usize_rem a b = (if b = 0 then Panic DivByZero else Ok (a mod b))"

text \<open>
  Shifts: an amount of 64 or more panics; \<open><<\<close> drops the bits that leave the word
  without a panic.
\<close>

definition usize_shr :: "nat \<Rightarrow> nat \<Rightarrow> nat outcome" where
  "usize_shr a s = (if s < 64 then Ok (a div 2 ^ s) else Panic ArithOverflow)"

definition usize_shl :: "nat \<Rightarrow> nat \<Rightarrow> nat outcome" where
  "usize_shl a s = (if s < 64 then Ok ((a * 2 ^ s) mod usize_limit) else Panic ArithOverflow)"

lemma usize_add_Ok [simp]: "a + b < usize_limit \<Longrightarrow> usize_add a b = Ok (a + b)"
  by (simp add: usize_add_def)

lemma usize_sub_Ok [simp]: "b \<le> a \<Longrightarrow> usize_sub a b = Ok (a - b)"
  by (simp add: usize_sub_def)

lemma usize_mul_Ok [simp]: "a * b < usize_limit \<Longrightarrow> usize_mul a b = Ok (a * b)"
  by (simp add: usize_mul_def)

lemma usize_div_Ok [simp]: "0 < b \<Longrightarrow> usize_div a b = Ok (a div b)"
  by (simp add: usize_div_def)

lemma usize_rem_Ok [simp]: "0 < b \<Longrightarrow> usize_rem a b = Ok (a mod b)"
  by (simp add: usize_rem_def)

lemma usize_shr_Ok [simp]: "s < 64 \<Longrightarrow> usize_shr a s = Ok (a div 2 ^ s)"
  by (simp add: usize_shr_def)

lemma usize_shl_Ok: "s < 64 \<Longrightarrow> a * 2 ^ s < usize_limit \<Longrightarrow> usize_shl a s = Ok (a * 2 ^ s)"
  by (simp add: usize_shl_def)

lemma usize_limit_eq: "usize_limit = 2 ^ 64"
  by simp

lemma Suc_0_less_power [simp]: "0 < m \<Longrightarrow> Suc 0 < 2 ^ m"
  using one_less_power [of "2 :: nat" m] by simp


section \<open>Indexing, slicing and chunks\<close>

text \<open>\<open>xs[i]\<close>, \<open>&xs[a..b]\<close>, \<open>.first().unwrap()\<close>, \<open>.last().unwrap()\<close>\<close>

definition index_at :: "'a list \<Rightarrow> nat \<Rightarrow> 'a outcome" where
  "index_at xs i = (if i < length xs then Ok (xs ! i) else Panic IndexOutOfBounds)"

definition slice_of :: "'a list \<Rightarrow> nat \<Rightarrow> nat \<Rightarrow> 'a list outcome" where
  "slice_of xs a b =
     (if a \<le> b \<and> b \<le> length xs then Ok (take (b - a) (drop a xs)) else Panic IndexOutOfBounds)"

definition first_unwrap :: "'a list \<Rightarrow> 'a outcome" where
  "first_unwrap xs = (case xs of [] \<Rightarrow> Panic UnwrapNone | x # _ \<Rightarrow> Ok x)"

definition last_unwrap :: "'a list \<Rightarrow> 'a outcome" where
  "last_unwrap xs = (case xs of [] \<Rightarrow> Panic UnwrapNone | _ \<Rightarrow> Ok (last xs))"

lemma index_at_Ok [simp]: "i < length xs \<Longrightarrow> index_at xs i = Ok (xs ! i)"
  by (simp add: index_at_def)

lemma index_at_out [simp]: "length xs \<le> i \<Longrightarrow> index_at xs i = Panic IndexOutOfBounds"
  by (simp add: index_at_def)

lemma slice_of_Ok [simp]:
  "a \<le> b \<Longrightarrow> b \<le> length xs \<Longrightarrow> slice_of xs a b = Ok (take (b - a) (drop a xs))"
  by (simp add: slice_of_def)

lemma first_unwrap_Ok [simp]: "xs \<noteq> [] \<Longrightarrow> first_unwrap xs = Ok (hd xs)"
  by (cases xs) (simp_all add: first_unwrap_def)

lemma last_unwrap_Ok [simp]: "xs \<noteq> [] \<Longrightarrow> last_unwrap xs = Ok (last xs)"
  by (cases xs) (simp_all add: last_unwrap_def)

text \<open>
  \<open>xs.chunks(n)\<close>: pieces of \<open>n\<close> elements, the last one shorter when \<open>n\<close> does not
  divide the length; \<open>chunks_exact\<close> drops that last piece. Both panic for \<open>n = 0\<close>, which
  the operations below write out where \<open>n\<close> can be 0.
\<close>

function chunks :: "nat \<Rightarrow> 'a list \<Rightarrow> 'a list list" where
  "chunks n xs = (if n = 0 \<or> xs = [] then [] else take n xs # chunks n (drop n xs))"
  by pat_completeness auto
termination
  by (relation "measure (\<lambda>(n, xs). length xs)") auto

declare chunks.simps [simp del]

definition chunks_exact :: "nat \<Rightarrow> 'a list \<Rightarrow> 'a list list" where
  "chunks_exact n xs = chunks n (take ((length xs div n) * n) xs)"

lemma chunks_Nil [simp]: "chunks n [] = []"
  by (simp add: chunks.simps)

lemma chunks_0 [simp]: "chunks 0 xs = []"
  by (simp add: chunks.simps)

lemma chunks_step: "0 < n \<Longrightarrow> xs \<noteq> [] \<Longrightarrow> chunks n xs = take n xs # chunks n (drop n xs)"
  by (subst chunks.simps) simp

lemma chunks_append:
  assumes "0 < n" and "length xs = n"
  shows "chunks n (xs @ ys) = xs # chunks n ys"
  using assms by (subst chunks_step) auto

lemma concat_chunks: "0 < n \<Longrightarrow> concat (chunks n xs) = xs"
  by (induction n xs rule: chunks.induct) (simp add: chunks.simps)

lemma chunks_concat:
  assumes "0 < n" and "\<And>x. length (f x) = n"
  shows "chunks n (concat (map f xs)) = map f xs"
  using assms by (induction xs) (simp_all add: chunks_append)

lemma length_chunks_exact_division:
  assumes "0 < n" and "length xs = q * n"
  shows "length (chunks n xs) = q"
  using assms
proof (induction q arbitrary: xs)
  case 0
  then show ?case by simp
next
  case (Suc q)
  then have "xs \<noteq> []" by auto
  then show ?case using Suc by (simp add: chunks_step)
qed

lemma nth_chunks:
  assumes "0 < n" and "length xs = q * n" and "i < q"
  shows "chunks n xs ! i = take n (drop (i * n) xs)"
  using assms
proof (induction q arbitrary: xs i)
  case 0
  then show ?case by simp
next
  case (Suc q)
  then have ne: "xs \<noteq> []" by auto
  show ?case
  proof (cases i)
    case 0
    then show ?thesis using ne Suc.prems by (simp add: chunks_step)
  next
    case (Suc i')
    have "chunks n (drop n xs) ! i' = take n (drop (i' * n) (drop n xs))"
      using Suc Suc.prems by (intro Suc.IH) auto
    then show ?thesis using Suc ne Suc.prems by (simp add: chunks_step add.commute)
  qed
qed

lemma chunks_piece:
  assumes "0 < n"
  shows "i < length (chunks n xs) \<longleftrightarrow> i * n < length xs"
    and "i * n < length xs \<Longrightarrow> chunks n xs ! i = take n (drop (i * n) xs)"
proof -
  have "(i < length (chunks n xs) \<longleftrightarrow> i * n < length xs) \<and>
    (i * n < length xs \<longrightarrow> chunks n xs ! i = take n (drop (i * n) xs))"
  proof (induction i arbitrary: xs)
    case 0
    then show ?case using assms by (cases "xs = []") (simp_all add: chunks_step)
  next
    case (Suc i)
    show ?case
    proof (cases "xs = []")
      case False
      then show ?thesis using Suc [of "drop n xs"] assms by (auto simp: chunks_step add.commute)
    qed simp
  qed
  then show "i < length (chunks n xs) \<longleftrightarrow> i * n < length xs"
    and "i * n < length xs \<Longrightarrow> chunks n xs ! i = take n (drop (i * n) xs)" by blast+
qed

lemma chunks_append_mult:
  assumes "0 < n" and "length xs = q * n"
  shows "chunks n (xs @ ys) = chunks n xs @ chunks n ys"
  using assms
proof (induction q arbitrary: xs)
  case 0
  then show ?case by simp
next
  case (Suc q)
  then have ne: "xs \<noteq> []" and len: "length (take n xs) = n" by auto
  have "chunks n (xs @ ys) = take n xs # chunks n (drop n xs @ ys)"
    using ne Suc.prems by (subst chunks_step) auto
  also have "chunks n (drop n xs @ ys) = chunks n (drop n xs) @ chunks n ys"
    using Suc.prems by (intro Suc.IH) auto
  finally show ?case using ne Suc.prems(1) by (simp add: chunks_step)
qed

lemma set_chunks_length:
  assumes "0 < n" and "length xs = q * n" and "c \<in> set (chunks n xs)"
  shows "length c = n"
proof -
  from assms(3) obtain i where "i < length (chunks n xs)" and c: "c = chunks n xs ! i"
    by (auto simp: in_set_conv_nth)
  then have i: "i < q" using assms by (simp add: length_chunks_exact_division)
  then have "i * n + n \<le> q * n"
    by (metis Suc_leI add.commute mult_Suc mult_le_mono1)
  with c i assms show ?thesis by (simp add: nth_chunks)
qed

lemma chunks_exact_concat:
  assumes "0 < n" and "\<And>x. length (f x) = n"
  shows "chunks_exact n (concat (map f xs)) = map f xs"
proof -
  have "length (concat (map f xs)) = length xs * n"
    using assms(2) by (induction xs) simp_all
  then show ?thesis using assms by (simp add: chunks_exact_def chunks_concat)
qed

text \<open>Overwriting the region that starts at \<open>i\<close> (growing the list when it ends inside).\<close>

definition overwrite :: "nat \<Rightarrow> 'a list \<Rightarrow> 'a list \<Rightarrow> 'a list" where
  "overwrite i es xs = take i xs @ es @ drop (i + length es) xs"

lemma length_overwrite:
  "i \<le> length xs \<Longrightarrow> length (overwrite i es xs) = max (length xs) (i + length es)"
  by (simp add: overwrite_def)

lemma overwrite_end [simp]: "overwrite (length xs) es xs = xs @ es"
  by (simp add: overwrite_def)

lemma overwrite_adjacent:
  "p \<le> length xs \<Longrightarrow> overwrite (p + length es) fs (overwrite p es xs) = overwrite p (es @ fs) xs"
  by (simp add: overwrite_def add.assoc add.commute [of "length fs"])

lemma overwrite_Nil [simp]: "i \<le> length xs \<Longrightarrow> overwrite i [] xs = xs"
  by (simp add: overwrite_def)


section \<open>Loops\<close>

text \<open>
  \<open>while b { c }\<close> over the tuple of the variables the loop changes. A loop that never
  ends has the value \<^const>\<open>Diverge\<close>.
\<close>

partial_function (option) while_opt ::
  "('st \<Rightarrow> bool) \<Rightarrow> ('st \<Rightarrow> 'st outcome) \<Rightarrow> 'st \<Rightarrow> 'st outcome option" where
  "while_opt b c s =
     (if b s
      then (case c s of
              Ok s' \<Rightarrow> while_opt b c s'
            | Err e \<Rightarrow> Some (Err e)
            | Panic p \<Rightarrow> Some (Panic p)
            | Diverge \<Rightarrow> None)
      else Some (Ok s))"

definition while_loop :: "('st \<Rightarrow> bool) \<Rightarrow> ('st \<Rightarrow> 'st outcome) \<Rightarrow> 'st \<Rightarrow> 'st outcome" where
  "while_loop b c s = (case while_opt b c s of None \<Rightarrow> Diverge | Some r \<Rightarrow> r)"

lemma while_loop_unfold [code]:
  "while_loop b c s = (if b s then and_then (c s) (while_loop b c) else Ok s)"
  unfolding while_loop_def
  by (subst while_opt.simps) (simp split: outcome.split)

lemma while_loop_stop: "\<not> b s \<Longrightarrow> while_loop b c s = Ok s"
  by (simp add: while_loop_unfold)

lemma while_loop_step: "b s \<Longrightarrow> c s = Ok t \<Longrightarrow> while_loop b c s = while_loop b c t"
  by (subst while_loop_unfold) simp

text \<open>A loop whose states are known: \<open>f 0\<close>, \<open>f 1\<close>, \dots, \<open>f k\<close>.\<close>

lemma while_loop_sequence:
  assumes "\<And>j. j < k \<Longrightarrow> b (f j) \<and> c (f j) = Ok (f (Suc j))" and "\<not> b (f k)"
  shows "while_loop b c (f 0) = Ok (f k)"
proof -
  have "while_loop b c (f 0) = while_loop b c (f j)" if "j \<le> k" for j
    using that
  proof (induction j)
    case (Suc j)
    then have "b (f j)" and "c (f j) = Ok (f (Suc j))" using assms(1) [of j] by auto
    then have "while_loop b c (f j) = while_loop b c (f (Suc j))" by (rule while_loop_step)
    with Suc show ?case by simp
  qed simp
  from this [of k] show ?thesis using assms(2) by (simp add: while_loop_stop)
qed

text \<open>Total correctness with an invariant and a measure.\<close>

lemma while_loop_total:
  assumes "I s"
    and "\<And>s. I s \<Longrightarrow> b s \<Longrightarrow> \<exists>t. c s = Ok t \<and> I t \<and> m t < (m s :: nat)"
  shows "\<exists>t. while_loop b c s = Ok t \<and> I t \<and> \<not> b t"
  using assms(1)
proof (induction "m s" arbitrary: s rule: less_induct)
  case less
  show ?case
  proof (cases "b s")
    case True
    with assms(2) less.prems obtain t where "c s = Ok t" "I t" "m t < m s" by blast
    with True less.hyps show ?thesis by (simp add: while_loop_step)
  next
    case False
    with less.prems show ?thesis by (auto simp: while_loop_stop)
  qed
qed

text \<open>
  Partial correctness: an invariant kept by every step that returns holds where the loop
  returns; and a loop that keeps an invariant under which it can neither stop nor fail does not
  return.
\<close>

definition loop_result :: "('st \<Rightarrow> bool) \<Rightarrow> ('st \<Rightarrow> bool) \<Rightarrow> ('st \<Rightarrow> 'st outcome) \<Rightarrow> 'st outcome \<Rightarrow> bool" where
  "loop_result I b c r \<longleftrightarrow>
     (\<exists>t. r = Ok t \<and> I t \<and> \<not> b t) \<or>
     (\<exists>u. I u \<and> b u \<and> (\<forall>t. c u \<noteq> Ok t) \<and> r \<noteq> Diverge)"

lemma while_opt_result:
  assumes ret: "while_opt b c s = Some r"
    and step: "\<And>s t. I s \<Longrightarrow> b s \<Longrightarrow> c s = Ok t \<Longrightarrow> I t"
    and start: "I s"
  shows "loop_result I b c r"
proof -
  let ?P = "\<lambda>b' c' s' r. b' = b \<longrightarrow> c' = c \<longrightarrow> I s' \<longrightarrow> loop_result I b c r"
  have "?P b c s r"
  proof (rule while_opt.raw_induct [where P = ?P, OF _ ret], intro impI)
    fix w b' c' s' r
    assume IH: "\<And>b' c' s' r. w b' c' s' = Some r \<Longrightarrow> ?P b' c' s' r"
      and eq: "(if b' s' then (case c' s' of Ok t \<Rightarrow> w b' c' t | Err e \<Rightarrow> Some (Err e)
             | Panic p \<Rightarrow> Some (Panic p) | Diverge \<Rightarrow> None) else Some (Ok s')) = Some r"
      and bc: "b' = b" "c' = c" and s': "I s'"
    show "loop_result I b c r"
    proof (cases "b s'")
      case False
      with eq bc s' show ?thesis by (auto simp: loop_result_def)
    next
      case True
      show ?thesis
      proof (cases "c s'")
        case (Ok t)
        with True eq bc have "w b c t = Some r" by simp
        moreover have "I t" using step s' True Ok by blast
        ultimately show ?thesis using IH by blast
      qed (use True eq bc s' in \<open>auto simp: loop_result_def\<close>)
    qed
  qed
  with start show ?thesis by blast
qed

lemma while_loop_partial:
  assumes ret: "while_loop b c s = Ok t"
    and step: "\<And>s t. I s \<Longrightarrow> b s \<Longrightarrow> c s = Ok t \<Longrightarrow> I t" and start: "I s"
  shows "I t \<and> \<not> b t"
proof -
  let ?I = "\<lambda>u. I u \<and> while_loop b c u = Ok t"
  from ret have "while_opt b c s = Some (Ok t)"
    by (simp add: while_loop_def split: option.splits)
  moreover have "?I t'" if "?I s'" "b s'" "c s' = Ok t'" for s' t'
    using that step by (auto simp: while_loop_step)
  ultimately have "loop_result ?I b c (Ok t)"
    by (rule while_opt_result [where I = ?I]) (use start ret in auto)
  moreover have False if "?I u" "b u" "\<forall>t. c u \<noteq> Ok t" for u
    using that by (cases "c u") (auto simp: while_loop_unfold [of b c u])
  ultimately show ?thesis by (auto simp: loop_result_def)
qed

lemma while_loop_diverges:
  assumes start: "I s" and step: "\<And>s. I s \<Longrightarrow> b s \<and> (\<exists>t. c s = Ok t \<and> I t)"
  shows "while_loop b c s = Diverge"
proof (cases "while_opt b c s")
  case None
  then show ?thesis by (simp add: while_loop_def)
next
  case (Some r)
  have keep: "I t" if "I s'" "b s'" "c s' = Ok t" for s' t
    using step [OF that(1)] that(3) by auto
  have "loop_result I b c r"
    by (rule while_opt_result [where I = I, OF Some keep start])
  then have False using step unfolding loop_result_def by blast
  then show ?thesis ..
qed

text \<open>\<open>for x in xs { .. }\<close> with the state the body changes\<close>

primrec for_each :: "('x \<Rightarrow> 'st \<Rightarrow> 'st outcome) \<Rightarrow> 'x list \<Rightarrow> 'st \<Rightarrow> 'st outcome" where
  "for_each f [] s = Ok s"
| "for_each f (x # xs) s = and_then (f x s) (for_each f xs)"

lemma for_each_append:
  "for_each f (xs @ ys) s = and_then (for_each f xs s) (for_each f ys)"
proof (induction xs arbitrary: s)
  case (Cons x xs)
  then show ?case by (cases "f x s") simp_all
qed simp

lemma for_each_sequence:
  assumes "\<And>j. j < length xs \<Longrightarrow> f (xs ! j) (g j) = Ok (g (Suc j))"
  shows "for_each f xs (g 0) = Ok (g (length xs))"
  using assms
proof (induction xs arbitrary: g)
  case Nil
  then show ?case by simp
next
  case (Cons x xs)
  have "f x (g 0) = Ok (g 1)" using Cons.prems [of 0] by simp
  moreover have "for_each f xs (g 1) = Ok (g (Suc (length xs)))"
    using Cons.IH [of "\<lambda>j. g (Suc j)"] Cons.prems [of "Suc _"] by simp
  ultimately show ?case by simp
qed

lemma for_each_partial:
  assumes "for_each f xs s = Ok t" and "\<And>x s t. I s \<Longrightarrow> f x s = Ok t \<Longrightarrow> I t" and "I s"
  shows "I t"
  using assms by (induction xs arbitrary: s) (auto elim!: and_then_OkE)

text \<open>A loop that pushes one result for some of the elements.\<close>

lemma for_each_push:
  assumes "\<And>x acc. x \<in> set xs \<Longrightarrow> f x acc = Ok (if P x then acc @ [g x] else acc)"
  shows "for_each f xs acc = Ok (acc @ map g (filter P xs))"
  using assms by (induction xs arbitrary: acc) simp_all

text \<open>\<open>.map(f).collect::<Result<Vec<_>>>()\<close> and loops that push one result per element\<close>

primrec map_outcome :: "('x \<Rightarrow> 'y outcome) \<Rightarrow> 'x list \<Rightarrow> 'y list outcome" where
  "map_outcome f [] = Ok []"
| "map_outcome f (x # xs) =
     and_then (f x) (\<lambda>y. and_then (map_outcome f xs) (\<lambda>ys. Ok (y # ys)))"

lemma map_outcome_Ok:
  "(\<And>x. x \<in> set xs \<Longrightarrow> f x = Ok (g x)) \<Longrightarrow> map_outcome f xs = Ok (map g xs)"
  by (induction xs) simp_all

lemma map_outcome_OkD:
  assumes "map_outcome f xs = Ok ys"
  shows "length ys = length xs" and "j < length xs \<Longrightarrow> f (xs ! j) = Ok (ys ! j)"
proof -
  have "length ys = length xs \<and> (\<forall>j < length xs. f (xs ! j) = Ok (ys ! j))"
    using assms
  proof (induction xs arbitrary: ys)
    case (Cons x xs)
    then obtain z zs where "f x = Ok z" "map_outcome f xs = Ok zs" "ys = z # zs"
      by (auto elim!: and_then_OkE)
    then show ?case using Cons.IH [of zs] by (auto simp: nth_Cons split: nat.split)
  qed simp
  then show "length ys = length xs" and "j < length xs \<Longrightarrow> f (xs ! j) = Ok (ys ! j)" by blast+
qed

lemma map_outcome_length: "map_outcome f xs = Ok ys \<Longrightarrow> length ys = length xs"
  by (induction xs arbitrary: ys) (auto elim!: and_then_OkE)

text \<open>\<open>(a..b).step_by(s)\<close> as the list of its values (\<open>s = 0\<close> panics)\<close>

function step_range :: "nat \<Rightarrow> nat \<Rightarrow> nat \<Rightarrow> nat list" where
  "step_range a b s = (if s = 0 \<or> b \<le> a then [] else a # step_range (a + s) b s)"
  by pat_completeness auto
termination
  by (relation "measure (\<lambda>(a, b, s). b - a)") auto

declare step_range.simps [simp del]

lemma step_range_done [simp]: "b \<le> a \<Longrightarrow> step_range a b s = []"
  by (simp add: step_range.simps)

lemma step_range_mult:
  assumes "0 < s"
  shows "step_range a (a + q * s) s = map (\<lambda>j. a + j * s) [0..<q]"
proof (induction q arbitrary: a)
  case 0
  then show ?case by simp
next
  case (Suc q)
  have "step_range a (a + Suc q * s) s = a # step_range (a + s) (a + s + q * s) s"
    using assms by (subst step_range.simps) (simp add: add.assoc)
  also have "\<dots> = a # map (\<lambda>j. (a + s) + j * s) [0..<q]"
    by (simp only: Suc.IH)
  also have "\<dots> = map (\<lambda>j. a + j * s) [0..<Suc q]"
    by (simp add: upt_conv_Cons map_Suc_upt [symmetric] o_def algebra_simps del: upt_Suc)
  finally show ?case .
qed

lemma step_range_nth:
  assumes "0 < s"
  shows "j < length (step_range a b s) \<longleftrightarrow> a + j * s < b"
    and "a + j * s < b \<Longrightarrow> step_range a b s ! j = a + j * s"
proof -
  have "(j < length (step_range a b s) \<longleftrightarrow> a + j * s < b) \<and>
    (a + j * s < b \<longrightarrow> step_range a b s ! j = a + j * s)"
    using assms
  proof (induction a b s arbitrary: j rule: step_range.induct)
    case (1 a b s)
    show ?case
    proof (cases "b \<le> a")
      case False
      then have eq: "step_range a b s = a # step_range (a + s) b s"
        using 1(2) by (subst step_range.simps) simp
      show ?thesis
        using False 1(1) [of "j - 1"] 1(2) by (cases j) (simp_all add: eq add.assoc)
    qed simp
  qed
  then show "j < length (step_range a b s) \<longleftrightarrow> a + j * s < b"
    and "a + j * s < b \<Longrightarrow> step_range a b s ! j = a + j * s" by blast+
qed

lemma step_range_code:
  "step_range a b s = (if s = 0 \<or> b \<le> a then [] else a # step_range (a + s) b s)"
  by (rule step_range.simps)

end
