(* ===== verification/Arith.thy ===== *)
theory Arith
  imports Prelude
begin

text \<open>
  The tree arithmetic of \<open>src/merkle.rs\<close> (lengths, row counts, cache sizes, powers of two)
  and \<open>StoreConfig::default_rows_to_discard\<close> of \<open>src/store/mod.rs\<close>, with its exact
  behaviour on every input: errors, overflow panics and the inputs on which a loop does not end.

  \<open>get_merkle_tree_row_count\<close> takes a logarithm in \<open>f64\<close>, whose precision the
  language leaves open. The parameter \<open>flog\<close> stands for it: \<open>flog b l\<close> is the value of
  \<open>(b as f64 * l as f64).log(b as f64) as usize\<close>. What the code relies on is stated where it
  is used, as \<open>flog b (b ^ k) = k + 1\<close> for the tree at hand.
\<close>

section \<open>Powers of two\<close>

text \<open>\<open>n.next_power_of_two()\<close>, which panics when the result leaves the word\<close>

function next_pow2_from :: "nat \<Rightarrow> nat \<Rightarrow> nat" where
  "next_pow2_from p n = (if p = 0 \<or> n \<le> p then p else next_pow2_from (2 * p) n)"
  by pat_completeness auto
termination
  by (relation "measure (\<lambda>(p, n). n - p)") auto

declare next_pow2_from.simps [simp del]

definition next_pow2 :: "nat \<Rightarrow> nat outcome" where
  "next_pow2 n =
     (let p = next_pow2_from 1 n in if p < usize_limit then Ok p else Panic ArithOverflow)"

text \<open>\<open>n.trailing_zeros()\<close> of a 64-bit word\<close>

function trailing_zeros :: "nat \<Rightarrow> nat" where
  "trailing_zeros n = (if n = 0 then 64 else if odd n then 0 else Suc (trailing_zeros (n div 2)))"
  by pat_completeness auto
termination
  by (relation "measure (\<lambda>n. n)") auto

declare trailing_zeros.simps [simp del]

definition log2_pow2 :: "nat \<Rightarrow> nat" where
  "log2_pow2 n = trailing_zeros n"


section \<open>Lengths and row counts\<close>

definition get_merkle_tree_len :: "nat \<Rightarrow> nat \<Rightarrow> nat outcome" where
  "get_merkle_tree_len leafs branches =
     ensure (leafs \<ge> branches) LeafBranchMismatch (
     and_then (next_pow2 branches) (\<lambda>p.
     ensure (branches = p) BranchesNotPow2 (
     if branches = 2 then
       and_then (next_pow2 leafs) (\<lambda>q.
       ensure (leafs = q) LeafsNotPow2 (
       and_then (usize_mul 2 leafs) (\<lambda>x. usize_sub x 1)))
     else
       (let shift = log2_pow2 branches in
        if shift = 0 then Ok leafs
        else
          and_then
            (while_loop
              (\<lambda>(len, cur). cur > 0)
              (\<lambda>(len, cur).
                and_then (usize_shr cur shift) (\<lambda>cur.
                ensure (cur < leafs) InvalidInput (
                and_then (usize_add len cur) (\<lambda>len. Ok (len, cur)))))
              (leafs, leafs))
            (\<lambda>(len, cur). Ok len)))))"

definition get_merkle_tree_row_count :: "(nat \<Rightarrow> nat \<Rightarrow> nat) \<Rightarrow> nat \<Rightarrow> nat \<Rightarrow> nat outcome" where
  "get_merkle_tree_row_count flog leafs branches =
     (if branches = 2 then and_then (usize_mul leafs branches) (\<lambda>x. Ok (trailing_zeros x))
      else Ok (flog branches leafs))"

definition get_merkle_tree_cache_size ::
  "(nat \<Rightarrow> nat \<Rightarrow> nat) \<Rightarrow> nat \<Rightarrow> nat \<Rightarrow> nat \<Rightarrow> nat outcome" where
  "get_merkle_tree_cache_size flog leafs branches rows_to_discard =
     (let shift = log2_pow2 branches in
      and_then (get_merkle_tree_len leafs branches) (\<lambda>len.
      and_then (get_merkle_tree_row_count flog leafs branches) (\<lambda>row_count.
      and_then (usize_sub row_count 1) (\<lambda>above.
      ensure (above > rows_to_discard) CannotDiscardAllRows (
      and_then (usize_sub above rows_to_discard) (\<lambda>cache_base.
      and_then
        (while_loop
          (\<lambda>(cache_size, cur_leafs, row_count). row_count > cache_base)
          (\<lambda>(cache_size, cur_leafs, row_count).
            and_then (usize_sub cache_size cur_leafs) (\<lambda>cache_size.
            and_then (usize_shr cur_leafs shift) (\<lambda>cur_leafs.
            and_then (usize_sub row_count 1) (\<lambda>row_count.
            Ok (cache_size, cur_leafs, row_count)))))
          (len, leafs, row_count))
        (\<lambda>(cache_size, cur_leafs, row_count). Ok cache_size)))))))"

text \<open>
  The loop of \<open>is_merkle_tree_size_valid\<close> returns from its body; the second component of
  its state is the value returned there.
\<close>

definition is_merkle_tree_size_valid :: "nat \<Rightarrow> nat \<Rightarrow> bool outcome" where
  "is_merkle_tree_size_valid leafs branches =
     (if branches = 0 then Ok False else
      and_then (next_pow2 leafs) (\<lambda>p. if leafs \<noteq> p then Ok False else
      and_then (next_pow2 branches) (\<lambda>q. if branches \<noteq> q then Ok False else
      (let shift = log2_pow2 branches in
       and_then
         (while_loop
           (\<lambda>(cur, ret). ret = None \<and> cur \<noteq> 1)
           (\<lambda>(cur, ret).
             and_then (usize_shr cur shift) (\<lambda>cur.
             Ok (cur, if cur > leafs \<or> cur = 0 then Some False else None)))
           (leafs, None))
         (\<lambda>(cur, ret). case ret of Some r \<Rightarrow> Ok r | None \<Rightarrow> Ok True)))))"

definition get_merkle_proof_lemma_len :: "nat \<Rightarrow> nat \<Rightarrow> nat outcome" where
  "get_merkle_proof_lemma_len row_count branches =
     and_then (usize_sub branches 1) (\<lambda>b.
     and_then (usize_sub row_count 1) (\<lambda>r.
     and_then (usize_mul b r) (\<lambda>x. usize_add 2 x)))"

definition get_merkle_tree_leafs :: "nat \<Rightarrow> nat \<Rightarrow> nat outcome" where
  "get_merkle_tree_leafs len branches =
     and_then (next_pow2 branches) (\<lambda>p.
     ensure (branches = p) BranchesNotPow2 (
     and_then
       (if branches = 2 then usize_add (len div 2) 1
        else
          (let shift = log2_pow2 branches in
           and_then
             (while_loop
               (\<lambda>(leafs, cur). cur \<noteq> 1)
               (\<lambda>(leafs, cur).
                 and_then (usize_shl leafs shift) (\<lambda>leafs.
                 ensure (cur > leafs) InvalidTreeLength (
                 and_then (usize_sub cur leafs) (\<lambda>cur.
                 ensure (cur < len) InvalidTreeLength (Ok (leafs, cur))))))
               (1, len))
             (\<lambda>(leafs, cur). Ok leafs)))
       (\<lambda>leafs.
     and_then (next_pow2 leafs) (\<lambda>q.
     ensure (leafs = q) InvalidTreeLength (Ok leafs)))))"

text \<open>\<open>StoreConfig::default_rows_to_discard\<close> of \<open>src/store/mod.rs\<close>\<close>

definition default_rows_to_discard :: "(nat \<Rightarrow> nat \<Rightarrow> nat) \<Rightarrow> nat \<Rightarrow> nat \<Rightarrow> nat outcome" where
  "default_rows_to_discard flog leafs branches =
     and_then (get_merkle_tree_row_count flog leafs branches) (\<lambda>row_count.
     if row_count \<le> 2 then Ok 0
     else if row_count = 3 then Ok 1
     else
       and_then (usize_sub row_count 2) (\<lambda>max_rows_to_discard.
       if branches = 2 then Ok (min max_rows_to_discard 7)
       else if branches = 4 then Ok (min max_rows_to_discard 5)
       else Ok (min max_rows_to_discard 2)))"


section \<open>Facts about powers of two\<close>

lemma next_pow2_from_le: "2 ^ j \<le> n \<Longrightarrow> next_pow2_from 1 n = next_pow2_from (2 ^ j) n"
proof (induction j)
  case (Suc j)
  have "(2 :: nat) ^ j < 2 ^ Suc j" by simp
  with Suc.prems have lt: "(2 :: nat) ^ j < n" by linarith
  then have "next_pow2_from 1 n = next_pow2_from (2 ^ j) n" using Suc.IH by simp
  also have "\<dots> = next_pow2_from (2 ^ Suc j) n"
    using lt by (subst next_pow2_from.simps) simp
  finally show ?case .
qed simp

lemma next_pow2_power [simp]: "k < 64 \<Longrightarrow> next_pow2 (2 ^ k) = Ok (2 ^ k)"
proof -
  assume "k < 64"
  then have "(2 :: nat) ^ k < usize_limit"
    unfolding usize_limit_eq by (rule power_strict_increasing) simp
  moreover have "next_pow2_from 1 (2 ^ k) = 2 ^ k"
    by (subst next_pow2_from_le [of k]) (simp_all add: next_pow2_from.simps)
  ultimately show ?thesis by (simp add: next_pow2_def)
qed

lemma next_pow2_from_power: "\<exists>j. next_pow2_from (2 ^ i) n = 2 ^ j"
proof (induction "(2 :: nat) ^ i" n arbitrary: i rule: next_pow2_from.induct)
  case (1 n)
  show ?case
  proof (cases "n \<le> 2 ^ i")
    case True
    then show ?thesis by (subst next_pow2_from.simps) auto
  next
    case False
    with 1 [of "Suc i"] show ?thesis by (subst next_pow2_from.simps) auto
  qed
qed

lemma next_pow2_self_iff: "next_pow2 n = Ok n \<longleftrightarrow> (\<exists>k < 64. n = 2 ^ k)"
proof
  assume eq: "next_pow2 n = Ok n"
  obtain j where j: "next_pow2_from 1 n = 2 ^ j" using next_pow2_from_power [of 0 n] by auto
  with eq have n: "n = 2 ^ j" and lt: "(2 :: nat) ^ j < 2 ^ 64"
    by (auto simp: next_pow2_def Let_def split: if_splits)
  from lt have "j < 64" by (rule power_less_imp_less_exp [rotated]) simp
  with n show "\<exists>k < 64. n = 2 ^ k" by blast
qed auto

lemma next_pow2_ge: "next_pow2 n = Ok p \<Longrightarrow> n \<le> p"
proof -
  have "0 < q \<Longrightarrow> n \<le> next_pow2_from q n" for q
    by (induction q n rule: next_pow2_from.induct) (subst next_pow2_from.simps, auto)
  then show "next_pow2 n = Ok p \<Longrightarrow> n \<le> p"
    by (auto simp: next_pow2_def Let_def split: if_splits)
qed

lemma trailing_zeros_power [simp]: "trailing_zeros (2 ^ k) = k"
  by (induction k) (subst trailing_zeros.simps, simp)+

lemma log2_pow2_power [simp]: "log2_pow2 (2 ^ k) = k"
  by (simp add: log2_pow2_def)

lemma power_less_limit_exp: "(2 :: nat) ^ m < usize_limit \<Longrightarrow> m < 64"
  using power_less_imp_less_exp [of "2 :: nat" m 64] by simp


section \<open>Row widths and row starts\<close>

text \<open>
  A complete tree of arity \<open>b\<close> over \<open>b ^ k\<close> leaves has \<open>k + 1\<close> rows; row \<open>j\<close> has
  \<open>b ^ (k - j)\<close> nodes and starts at \<open>row_start b k j\<close> in the linear layout.
\<close>

primrec tree_len :: "nat \<Rightarrow> nat \<Rightarrow> nat" where
  "tree_len b 0 = 1"
| "tree_len b (Suc k) = b ^ Suc k + tree_len b k"

primrec row_start :: "nat \<Rightarrow> nat \<Rightarrow> nat \<Rightarrow> nat" where
  "row_start b k 0 = 0"
| "row_start b k (Suc j) = row_start b k j + b ^ (k - j)"

lemma row_start_shift: "row_start b (Suc k) (Suc j) = b ^ Suc k + row_start b k j"
  by (induction j) simp_all

lemma row_start_total: "row_start b k (Suc k) = tree_len b k"
  by (induction k) (simp_all only: row_start_shift tree_len.simps, simp_all)

lemma row_start_last: "Suc (row_start b k k) = tree_len b k"
  using row_start_total [of b k] by simp

lemma row_start_mono: "i \<le> j \<Longrightarrow> row_start b k i \<le> row_start b k j"
  by (induction j) (auto simp: le_Suc_eq)

lemma tree_len_pos [simp]: "0 < tree_len b k"
  by (induction k) simp_all

lemma tree_len_ge: "b ^ k \<le> tree_len b k"
  by (induction k) simp_all

lemma tree_len_bound: "2 \<le> b \<Longrightarrow> tree_len b k < 2 * b ^ k"
proof (induction k)
  case (Suc k)
  then have "tree_len b k < 2 * b ^ k" by simp
  also have "\<dots> \<le> b * b ^ k" using Suc.prems by simp
  finally show ?case by simp
qed simp

lemma tree_len_sum: "tree_len b k = (\<Sum>i\<le>k. b ^ i)"
  by (induction k) simp_all

lemma tree_len_geometric: "0 < b \<Longrightarrow> tree_len b k * (b - 1) + 1 = b ^ Suc k"
proof (induction k)
  case (Suc k)
  have "tree_len b (Suc k) * (b - 1) + 1 = b ^ Suc k * (b - 1) + (tree_len b k * (b - 1) + 1)"
    by (simp add: distrib_right)
  also have "\<dots> = b ^ Suc k * (b - 1) + b ^ Suc k" using Suc by simp
  also have "\<dots> = b ^ Suc (Suc k)" using Suc.prems by (simp add: algebra_simps)
  finally show ?case .
qed simp

lemma tree_len_2: "Suc (tree_len 2 k) = 2 * 2 ^ k"
  by (induction k) simp_all

lemma row_start_less: "j \<le> k \<Longrightarrow> 0 < b \<Longrightarrow> row_start b k j < tree_len b k"
  using row_start_mono [of j k b k] row_start_last [of b k] by linarith

lemma row_end_le: "j \<le> k \<Longrightarrow> row_start b k j + b ^ (k - j) \<le> tree_len b k"
  using row_start_mono [of "Suc j" "Suc k" b k] row_start_total [of b k] by simp

text \<open>The arity \<open>2 ^ m\<close>, the exponent of a row's width, and the loop step \<open>>>= shift\<close>.\<close>

lemma arity_div:
  assumes "j < k"
  shows "((2 ^ m) ^ (k - j) :: nat) div 2 ^ m = (2 ^ m) ^ (k - Suc j)"
proof -
  from assms have "k - j = Suc (k - Suc j)" by simp
  then show ?thesis by simp
qed

lemma arity_power_less:
  assumes "j < k" and "0 < m"
  shows "((2 ^ m) ^ (k - Suc j) :: nat) < (2 ^ m) ^ k"
  using assms one_less_power [of "2 :: nat" m] by (intro power_strict_increasing) auto

text \<open>
  What the theorems below assume of a tree shape: the arity \<open>2 ^ m\<close> with \<open>m \<ge> 1\<close>, at
  least one row above the leaves, and a number of leaves whose double is a \<open>usize\<close>.
\<close>

definition tree_shape :: "nat \<Rightarrow> nat \<Rightarrow> bool" where
  "tree_shape m k \<longleftrightarrow> 0 < m \<and> 0 < k \<and> 2 * (2 ^ m) ^ k < usize_limit"

lemma tree_shape_arity:
  assumes "tree_shape m k"
  shows "m < 63" and "2 \<le> (2 ^ m :: nat)" and "(2 ^ m :: nat) \<le> (2 ^ m) ^ k"
    and "2 * (2 ^ m :: nat) < usize_limit"
proof -
  have k: "0 < k" and m: "0 < m" and lim: "2 * (2 ^ m) ^ k < usize_limit"
    using assms by (auto simp: tree_shape_def)
  from k show le: "(2 ^ m :: nat) \<le> (2 ^ m) ^ k"
    by (intro self_le_power) auto
  from le lim show lt: "2 * (2 ^ m :: nat) < usize_limit" by linarith
  then have "(2 :: nat) ^ Suc m < usize_limit" by simp
  then show "m < 63" using power_less_limit_exp [of "Suc m"] by simp
  from m show "2 \<le> (2 ^ m :: nat)" by (cases m) simp_all
qed

lemma tree_shape_exp: "tree_shape m k \<Longrightarrow> Suc (m * k) < 64"
  using power_less_limit_exp [of "Suc (m * k)"]
  by (simp add: tree_shape_def power_mult [symmetric])

lemma tree_shape_rows:
  assumes "tree_shape m k"
  shows "k < 64"
proof -
  have "k \<le> m * k" using assms by (simp add: tree_shape_def)
  then show ?thesis using tree_shape_exp [OF assms] by linarith
qed

lemma tree_shape_leafs_pow2: "tree_shape m k \<Longrightarrow> next_pow2 ((2 ^ m) ^ k) = Ok ((2 ^ m) ^ k)"
  using tree_shape_exp [of m k] by (simp flip: power_mult)

lemma tree_shape_tree_len: "tree_shape m k \<Longrightarrow> tree_len (2 ^ m) k < usize_limit"
  using tree_len_bound [of "2 ^ m" k] tree_shape_arity(2) [of m k]
  by (auto simp: tree_shape_def)

lemma tree_shape_branches_pow2: "tree_shape m k \<Longrightarrow> next_pow2 (2 ^ m) = Ok (2 ^ m)"
  using tree_shape_arity(1) [of m k] by simp

lemmas tree_shape_facts =
  tree_shape_arity tree_shape_leafs_pow2 tree_shape_branches_pow2 tree_shape_tree_len

section \<open>The operations on complete trees\<close>

lemma tree_len_loop:
  assumes "tree_shape m k"
  shows "while_loop (\<lambda>(len, cur). cur > 0)
      (\<lambda>(len, cur).
        and_then (usize_shr cur m) (\<lambda>cur.
        ensure (cur < (2 ^ m) ^ k) InvalidInput (
        and_then (usize_add len cur) (\<lambda>len. Ok (len, cur)))))
      ((2 ^ m) ^ k, (2 ^ m) ^ k) = Ok (tree_len (2 ^ m) k, 0)"
proof -
  let ?b = "2 ^ m :: nat"
  define f where "f j = (if j \<le> k then (row_start ?b k (Suc j), ?b ^ (k - j)) else (tree_len ?b k, 0))" for j
  have m: "0 < m" "m < 64" and k: "0 < k"
    using assms tree_shape_arity(1) [OF assms] by (auto simp: tree_shape_def)
  have bound: "row_start ?b k (Suc j) < usize_limit" if "j \<le> k" for j
    using row_start_mono [of "Suc j" "Suc k" ?b k] row_start_total [of ?b k]
      tree_shape_tree_len [OF assms] that by simp
  have "while_loop (\<lambda>(len, cur). cur > 0)
      (\<lambda>(len, cur).
        and_then (usize_shr cur m) (\<lambda>cur.
        ensure (cur < ?b ^ k) InvalidInput (
        and_then (usize_add len cur) (\<lambda>len. Ok (len, cur)))))
      (f 0) = Ok (f (Suc k))"
  proof (rule while_loop_sequence)
    fix j
    assume "j < Suc k"
    then consider "j < k" | "j = k" by linarith
    then show "(case f j of (len, cur) \<Rightarrow> 0 < cur) \<and>
        (case f j of (len, cur) \<Rightarrow>
          and_then (usize_shr cur m) (\<lambda>cur.
          ensure (cur < ?b ^ k) InvalidInput (
          and_then (usize_add len cur) (\<lambda>len. Ok (len, cur))))) = Ok (f (Suc j))"
    proof cases
      case 1
      have "row_start ?b k (Suc j) + ?b ^ (k - Suc j) < usize_limit"
        using bound [of "Suc j"] 1 by simp
      with 1 m show ?thesis
        by (simp add: f_def arity_div arity_power_less)
    next
      case 2
      have "(1 :: nat) div 2 ^ m = 0" using m by (simp add: div_eq_0_iff)
      moreover have "row_start ?b k k + 1 < usize_limit"
        using bound [of k] by simp
      moreover have "0 < ?b ^ k" by simp
      ultimately show ?thesis
        using 2 m row_start_last [of ?b k] by (simp add: f_def)
    qed
  qed (simp add: f_def)
  then show ?thesis by (simp add: f_def)
qed

lemma tree_len_ok:
  assumes "tree_shape m k"
  shows "get_merkle_tree_len ((2 ^ m) ^ k) (2 ^ m) = Ok (tree_len (2 ^ m) k)"
proof (cases "m = 1")
  case True
  then show ?thesis
    using assms tree_shape_facts [OF assms] tree_len_2 [of k]
    by (simp add: get_merkle_tree_len_def tree_shape_def)
next
  case False
  then have "(2 :: nat) ^ m \<noteq> 2" using power_inject_exp [of 2 m 1] by simp
  then show ?thesis
    using assms tree_shape_facts [OF assms] tree_len_loop [OF assms]
    by (simp add: get_merkle_tree_len_def tree_shape_def Let_def)
qed


text \<open>What the code relies on of the \<open>f64\<close> logarithm, for a tree of arity \<open>2 ^ m\<close> and \<open>k + 1\<close> rows
  (binary trees do not use it).\<close>

definition rows_exact :: "(nat \<Rightarrow> nat \<Rightarrow> nat) \<Rightarrow> nat \<Rightarrow> nat \<Rightarrow> bool" where
  "rows_exact flog m k \<longleftrightarrow> m = 1 \<or> flog (2 ^ m) ((2 ^ m) ^ k) = Suc k"

lemma row_count_power:
  assumes "tree_shape m k" and "rows_exact flog m k"
  shows "get_merkle_tree_row_count flog ((2 ^ m) ^ k) (2 ^ m) = Ok (Suc k)"
proof (cases "m = 1")
  case True
  have "2 ^ k * 2 < usize_limit" using assms(1) True by (simp add: tree_shape_def)
  moreover have "trailing_zeros (2 ^ k * 2) = Suc k"
    using trailing_zeros_power [of "Suc k"] by (simp only: power_Suc2)
  ultimately show ?thesis using True by (simp add: get_merkle_tree_row_count_def)
next
  case False
  then have "(2 :: nat) ^ m \<noteq> 2" using power_inject_exp [of 2 m 1] by simp
  then show ?thesis using assms(2) False by (simp add: get_merkle_tree_row_count_def rows_exact_def)
qed

text \<open>What remains of the length above row \<open>j\<close> is the length of a smaller tree.\<close>

lemma rows_above: "j \<le> k \<Longrightarrow> tree_len b k - row_start b k (Suc j) = (if j < k then tree_len b (k - Suc j) else 0)"
proof (induction k arbitrary: j)
  case 0
  then show ?case by simp
next
  case (Suc k)
  show ?case
  proof (cases j)
    case 0
    then show ?thesis by simp
  next
    case (Suc i)
    then show ?thesis using Suc.IH [of i] Suc.prems
      by (simp only: row_start_shift tree_len.simps) auto
  qed
qed

lemma cache_size_ok:
  assumes shape: "tree_shape m k" and fl: "rows_exact flog m k" and r: "r < k"
  shows "get_merkle_tree_cache_size flog ((2 ^ m) ^ k) (2 ^ m) r = Ok (tree_len (2 ^ m) (k - Suc r))"
proof -
  let ?b = "2 ^ m :: nat"
  define f where "f j = (tree_len ?b k - row_start ?b k j, ?b ^ (k - j), Suc k - j)" for j
  have m: "0 < m" "m < 64" and k: "0 < k"
    using shape tree_shape_arity(1) [OF shape] by (auto simp: tree_shape_def)
  have "while_loop
          (\<lambda>(cache_size, cur_leafs, row_count). row_count > k - r)
          (\<lambda>(cache_size, cur_leafs, row_count).
            and_then (usize_sub cache_size cur_leafs) (\<lambda>cache_size.
            and_then (usize_shr cur_leafs m) (\<lambda>cur_leafs.
            and_then (usize_sub row_count 1) (\<lambda>row_count.
            Ok (cache_size, cur_leafs, row_count))))) (f 0) = Ok (f (Suc r))"
  proof (rule while_loop_sequence)
    fix j
    assume j: "j < Suc r"
    have "?b ^ (k - j) \<le> tree_len ?b k - row_start ?b k j"
      using row_end_le [of j k ?b] j r by simp
    moreover have "?b ^ (k - j) div 2 ^ m = ?b ^ (k - Suc j)" using j r by (intro arity_div) simp
    ultimately show "(case f j of (cache_size, cur_leafs, row_count) \<Rightarrow> row_count > k - r) \<and>
        (case f j of (cache_size, cur_leafs, row_count) \<Rightarrow>
            and_then (usize_sub cache_size cur_leafs) (\<lambda>cache_size.
            and_then (usize_shr cur_leafs m) (\<lambda>cur_leafs.
            and_then (usize_sub row_count 1) (\<lambda>row_count.
            Ok (cache_size, cur_leafs, row_count))))) = Ok (f (Suc j))"
      using j r m by (simp add: f_def Suc_diff_le)
  qed (use r in \<open>simp add: f_def\<close>)
  moreover have "f 0 = (tree_len ?b k, ?b ^ k, Suc k)" by (simp add: f_def)
  moreover have "f (Suc r) = (tree_len ?b (k - Suc r), ?b ^ (k - Suc r), k - r)"
    using rows_above [of r k ?b] r by (simp add: f_def)
  ultimately show ?thesis
    using tree_len_ok [OF shape] row_count_power [OF shape fl] r k
    by (simp add: get_merkle_tree_cache_size_def Let_def)
qed

lemma leafs_loop:
  assumes m: "0 < m" "m < 64" and lim: "(2 ^ m) ^ k < usize_limit"
  shows "while_loop (\<lambda>(leafs, cur). cur \<noteq> 1)
      (\<lambda>(leafs, cur).
        and_then (usize_shl leafs m) (\<lambda>leafs.
        ensure (cur > leafs) InvalidTreeLength (
        and_then (usize_sub cur leafs) (\<lambda>cur.
        ensure (cur < tree_len (2 ^ m) k) InvalidTreeLength (Ok (leafs, cur))))))
      (1, tree_len (2 ^ m) k) = Ok ((2 ^ m) ^ k, 1)"
proof -
  let ?b = "2 ^ m :: nat"
  define f where "f j = (?b ^ j, Suc (tree_len ?b k) - tree_len ?b j)" for j
  have mono: "tree_len ?b i \<le> tree_len ?b j" if "i \<le> j" for i j
    using that by (induction j) (auto simp: le_Suc_eq)
  have "while_loop (\<lambda>(leafs, cur). cur \<noteq> 1)
      (\<lambda>(leafs, cur).
        and_then (usize_shl leafs m) (\<lambda>leafs.
        ensure (cur > leafs) InvalidTreeLength (
        and_then (usize_sub cur leafs) (\<lambda>cur.
        ensure (cur < tree_len ?b k) InvalidTreeLength (Ok (leafs, cur)))))) (f 0) = Ok (f k)"
  proof (rule while_loop_sequence)
    fix j
    assume j: "j < k"
    have "?b ^ Suc j \<le> ?b ^ k" using j by (intro power_increasing) auto
    then have shl: "usize_shl (?b ^ j) m = Ok (?b ^ Suc j)"
      using lim m by (subst usize_shl_Ok) (simp_all add: mult.commute)
    have le: "tree_len ?b (Suc j) \<le> tree_len ?b k" using j by (intro mono) simp
    have pos: "0 < tree_len ?b j" "0 < ?b ^ Suc j" by simp_all
    define c c' where "c = Suc (tree_len ?b k) - tree_len ?b j"
      and "c' = Suc (tree_len ?b k) - tree_len ?b (Suc j)"
    then have cur: "?b ^ Suc j < c" "c - ?b ^ Suc j = c'" "c' < tree_len ?b k" "c \<noteq> 1"
      using le [unfolded tree_len.simps] pos unfolding tree_len.simps by linarith+
    have fj: "f j = (?b ^ j, c)" "f (Suc j) = (?b ^ Suc j, c')"
      by (simp_all only: f_def c_def c'_def)
    show "(case f j of (leafs, cur) \<Rightarrow> cur \<noteq> 1) \<and>
        (case f j of (leafs, cur) \<Rightarrow>
          and_then (usize_shl leafs m) (\<lambda>leafs.
          ensure (cur > leafs) InvalidTreeLength (
          and_then (usize_sub cur leafs) (\<lambda>cur.
          ensure (cur < tree_len ?b k) InvalidTreeLength (Ok (leafs, cur)))))) = Ok (f (Suc j))"
      unfolding fj prod.case shl and_then.simps
      using cur by (simp del: tree_len.simps power_Suc)
  qed (simp add: f_def)
  then show ?thesis by (simp add: f_def)
qed

lemma leafs_ok:
  assumes "0 < m" and "2 * (2 ^ m) ^ k < usize_limit" and "m < 64"
  shows "get_merkle_tree_leafs (tree_len (2 ^ m) k) (2 ^ m) = Ok ((2 ^ m) ^ k)"
proof -
  let ?b = "2 ^ m :: nat"
  have "2 ^ (m * k) < usize_limit" using assms(2) by (simp add: power_mult)
  then have "m * k < 64" by (rule power_less_limit_exp)
  then have pow2: "next_pow2 (?b ^ k) = Ok (?b ^ k)" by (simp flip: power_mult)
  have b: "next_pow2 ?b = Ok ?b" using assms(3) by simp
  show ?thesis
  proof (cases "m = 1")
    case True
    have "tree_len 2 k div 2 + 1 = 2 ^ k" using tree_len_2 [of k] by linarith
    moreover have "(2 :: nat) ^ k < usize_limit" using assms(2) True by simp
    ultimately show ?thesis using True pow2 b by (simp add: get_merkle_tree_leafs_def)
  next
    case False
    then have "(2 :: nat) ^ m \<noteq> 2" using power_inject_exp [of 2 m 1] by simp
    then show ?thesis
      using leafs_loop [of m k] assms pow2 b
      by (simp add: get_merkle_tree_leafs_def Let_def)
  qed
qed

text \<open>
  The loop of \<open>get_merkle_tree_leafs\<close> on any length: a left shift that leaves the word
  makes the width 0, from which the loop never ends.
\<close>

lemma shl_power:
  assumes "m < 64"
  shows "usize_shl ((2 ^ m) ^ j) m =
    Ok (if m * Suc j < 64 then (2 ^ m) ^ Suc j else 0)"
proof -
  have eq: "(2 ^ m) ^ j * 2 ^ m = (2 :: nat) ^ (m * Suc j)"
    by (simp add: power_mult power_add)
  have lt: "(2 :: nat) ^ (m * Suc j) < usize_limit" if "m * Suc j < 64"
    unfolding usize_limit_eq using that by (rule power_strict_increasing) simp
  have "(2 :: nat) ^ (m * Suc j) mod usize_limit = 0" if "\<not> m * Suc j < 64"
  proof -
    have "(2 :: nat) ^ 64 dvd 2 ^ (m * Suc j)" using that by (intro le_imp_power_dvd) simp
    then show ?thesis by simp
  qed
  with lt assms show ?thesis
    unfolding usize_shl_def eq by (simp add: power_mult [symmetric] del: power_Suc mult_Suc_right)
qed

definition leafs_inv :: "nat \<Rightarrow> nat \<Rightarrow> nat \<times> nat \<Rightarrow> bool" where
  "leafs_inv b len = (\<lambda>(leafs, cur).
     (\<exists>j. leafs = b ^ j \<and> cur + tree_len b j = Suc len) \<or> leafs = 0 \<and> cur \<noteq> 1)"

lemma leafs_inv_step:
  assumes m: "m < 64" and inv: "leafs_inv (2 ^ m) len s" and ne: "(\<lambda>(leafs, cur). cur \<noteq> 1) s"
    and step: "(\<lambda>(leafs, cur).
        and_then (usize_shl leafs m) (\<lambda>leafs.
        ensure (cur > leafs) InvalidTreeLength (
        and_then (usize_sub cur leafs) (\<lambda>cur.
        ensure (cur < len) InvalidTreeLength (Ok (leafs, cur)))))) s = Ok t"
  shows "leafs_inv (2 ^ m) len t"
proof -
  obtain leafs cur where s: "s = (leafs, cur)" by fastforce
  from inv s consider (pow) j where "leafs = (2 ^ m) ^ j" "cur + tree_len (2 ^ m) j = Suc len"
    | (zero) "leafs = 0"
    by (auto simp: leafs_inv_def)
  then show ?thesis
  proof cases
    case pow
    show ?thesis
    proof (cases "m * Suc j < 64")
      case True
      then have "cur > (2 ^ m) ^ Suc j" and t: "t = ((2 ^ m) ^ Suc j, cur - (2 ^ m) ^ Suc j)"
        using step s pow shl_power [OF m, of j]
        by (auto split: if_splits simp del: power_Suc mult_Suc_right)
      then have "cur - (2 ^ m) ^ Suc j + tree_len (2 ^ m) (Suc j) = Suc len"
        using pow(2) by (simp del: power_Suc)
      then show ?thesis unfolding t leafs_inv_def by blast
    next
      case False
      then have "t = (0, cur)"
        using step s pow shl_power [OF m, of j] by (auto split: if_splits simp del: mult_Suc_right)
      then show ?thesis using ne s by (simp add: leafs_inv_def)
    qed
  next
    case zero
    then have "t = (0, cur)" using step s m by (auto simp: usize_shl_def split: if_splits)
    then show ?thesis using ne s by (simp add: leafs_inv_def)
  qed
qed

lemma leafs_sound:
  assumes "get_merkle_tree_leafs len (2 ^ m) = Ok leafs" and "m \<noteq> 1" and "m < 64"
  shows "\<exists>k. leafs = (2 ^ m) ^ k \<and> len = tree_len (2 ^ m) k"
proof -
  have "(2 :: nat) ^ m \<noteq> 2" using power_inject_exp [of 2 m 1] assms(2) by simp
  with assms(1,3) obtain cur where loop: "while_loop (\<lambda>(leafs, cur). cur \<noteq> 1)
      (\<lambda>(leafs, cur).
        and_then (usize_shl leafs m) (\<lambda>leafs.
        ensure (cur > leafs) InvalidTreeLength (
        and_then (usize_sub cur leafs) (\<lambda>cur.
        ensure (cur < len) InvalidTreeLength (Ok (leafs, cur))))))
      (1, len) = Ok (leafs, cur)"
    by (auto simp: get_merkle_tree_leafs_def Let_def and_then_eq_Ok split: if_splits)
  have "leafs_inv (2 ^ m) len (1, len)"
    unfolding leafs_inv_def by (auto intro: exI [of _ 0])
  with while_loop_partial [OF loop, of "leafs_inv (2 ^ m) len"] leafs_inv_step [OF assms(3)]
  have "leafs_inv (2 ^ m) len (leafs, cur) \<and> cur = 1" by blast
  then show ?thesis by (auto simp: leafs_inv_def)
qed

lemma leafs_binary:
  assumes "len < usize_limit - 1"
  shows "get_merkle_tree_leafs len 2 = Ok leafs \<longleftrightarrow>
    (\<exists>j < 64. leafs = 2 ^ j) \<and> (len = 2 * leafs - 1 \<or> len = 2 * leafs - 2) \<and> leafs = len div 2 + 1"
proof -
  have p: "next_pow2 2 = Ok 2" using next_pow2_power [of 1] by simp
  have lt: "len div 2 + 1 < usize_limit" using assms by linarith
  have "get_merkle_tree_leafs len 2 =
      and_then (next_pow2 (Suc (len div 2))) (\<lambda>q.
      ensure (Suc (len div 2) = q) InvalidTreeLength (Ok (Suc (len div 2))))"
    using p lt by (simp add: get_merkle_tree_leafs_def)
  then have "get_merkle_tree_leafs len 2 = Ok leafs \<longleftrightarrow>
      leafs = len div 2 + 1 \<and> next_pow2 leafs = Ok leafs"
    by (auto simp: and_then_eq_Ok split: if_splits)
  then show ?thesis unfolding next_pow2_self_iff by auto
qed

lemma leafs_diverges:
  assumes m: "1 < m" "m < 64" and top: "m * K < 64" "64 \<le> m * Suc K" and len: "tree_len (2 ^ m) K < len"
  shows "get_merkle_tree_leafs len (2 ^ m) = Diverge"
proof -
  let ?b = "2 ^ m :: nat"
  let ?I = "\<lambda>(leafs, cur). (\<exists>j \<le> K. leafs = ?b ^ j \<and> cur + tree_len ?b j = Suc len)
      \<or> leafs = 0 \<and> 1 < cur \<and> cur < len"
  have mono: "tree_len ?b i \<le> tree_len ?b j" if "i \<le> j" for i j
    using that by (induction j) (auto simp: le_Suc_eq)
  have K: "0 < K" using top m by (cases K) auto
  have "1 < Suc ?b" by simp
  also have "Suc ?b \<le> tree_len ?b K" using mono [of 1 K] K by simp
  finally have big: "1 < tree_len ?b K" .
  have "while_loop (\<lambda>(leafs, cur). cur \<noteq> 1)
      (\<lambda>(leafs, cur).
        and_then (usize_shl leafs m) (\<lambda>leafs.
        ensure (cur > leafs) InvalidTreeLength (
        and_then (usize_sub cur leafs) (\<lambda>cur.
        ensure (cur < len) InvalidTreeLength (Ok (leafs, cur)))))) (1, len) = Diverge"
  proof (rule while_loop_diverges [where I = ?I])
    show "?I (1, len)" by (auto intro: exI [of _ 0])
  next
    fix s
    assume "?I s"
    then consider (pow) j cur where "s = (?b ^ j, cur)" "j < K" "cur + tree_len ?b j = Suc len"
      | (last) cur where "s = (?b ^ K, cur)" "cur + tree_len ?b K = Suc len"
      | (zero) cur where "s = (0, cur)" "1 < cur" "cur < len"
      by (cases s) (auto simp: le_less)
    then show "(case s of (leafs, cur) \<Rightarrow> cur \<noteq> 1) \<and> (\<exists>t. (case s of (leafs, cur) \<Rightarrow>
        and_then (usize_shl leafs m) (\<lambda>leafs.
        ensure (cur > leafs) InvalidTreeLength (
        and_then (usize_sub cur leafs) (\<lambda>cur.
        ensure (cur < len) InvalidTreeLength (Ok (leafs, cur)))))) = Ok t \<and> ?I t)"
    proof cases
      case pow
      have "m * Suc j \<le> m * K" using pow(2) by (intro mult_le_mono2) simp
      then have "m * Suc j < 64" using top(1) by (rule le_less_trans)
      then have shl: "usize_shl (?b ^ j) m = Ok (?b ^ Suc j)"
        using shl_power [OF m(2), of j] by (simp del: mult_Suc_right power_Suc)
      have le: "tree_len ?b (Suc j) < len" using mono [of "Suc j" K] pow(2) len by linarith
      have pos: "0 < ?b ^ Suc j" "0 < tree_len ?b j" by simp_all
      have cur: "?b ^ Suc j < cur" "cur - ?b ^ Suc j < len" "cur \<noteq> 1"
        "cur - ?b ^ Suc j + tree_len ?b (Suc j) = Suc len"
        using le pow(3) pos unfolding tree_len.simps by linarith+
      have "?I (?b ^ Suc j, cur - ?b ^ Suc j)"
        using cur(4) pow(2) by (auto simp del: power_Suc tree_len.simps intro!: exI [of _ "Suc j"])
      then show ?thesis
        using pow(1) cur by (simp add: shl del: power_Suc tree_len.simps)
    next
      case last
      have "usize_shl (?b ^ K) m = Ok 0"
        using shl_power [OF m(2), of K] top by (simp del: mult_Suc_right)
      then show ?thesis using last len big by simp
    next
      case zero
      then show ?thesis using m by (simp add: usize_shl_def)
    qed
  qed
  moreover have "?b \<noteq> 2" using power_inject_exp [of 2 m 1] m by simp
  ultimately show ?thesis using m by (simp add: get_merkle_tree_leafs_def Let_def)
qed

definition size_valid_body :: "nat \<Rightarrow> nat \<Rightarrow> nat \<times> bool option \<Rightarrow> (nat \<times> bool option) outcome" where
  "size_valid_body leafs shift = (\<lambda>(cur, ret).
     and_then (usize_shr cur shift) (\<lambda>cur.
     Ok (cur, if cur > leafs \<or> cur = 0 then Some False else None)))"

lemma size_valid_loop:
  assumes m: "0 < m" "m < 64"
  shows "while_loop (\<lambda>(cur, ret). ret = None \<and> cur \<noteq> 1) (size_valid_body (2 ^ a) m) (2 ^ a, None) =
    Ok (if m dvd a then (1, None) else (0, Some False))"
proof -
  define q where "q = a div m"
  define f where "f j = (if j \<le> q then ((2 :: nat) ^ (a - m * j), None) else (0, Some False))" for j
  have le: "m * j \<le> a" if "j \<le> q" for j
    using that m by (simp add: q_def less_eq_div_iff_mult_less_eq mult.commute)
  have step: "size_valid_body (2 ^ a) m (f j) = Ok (f (Suc j))" if "j < q" for j
  proof -
    have "m * Suc j \<le> a" using le [of "Suc j"] that by simp
    then have e: "a - m * j = m + (a - m * Suc j)" by simp
    have "(2 :: nat) ^ (a - m * j) div 2 ^ m = 2 ^ (a - m * Suc j)"
      unfolding e by (simp add: power_add)
    moreover have "(2 :: nat) ^ (a - m * Suc j) \<le> 2 ^ a" by (intro power_increasing) auto
    ultimately show ?thesis using m that by (auto simp: f_def size_valid_body_def)
  qed
  have guard: "(\<lambda>(cur, ret). ret = None \<and> cur \<noteq> 1) (f j)" if "j < q" for j
  proof -
    have "m * Suc j \<le> a" using le [of "Suc j"] that by simp
    then have "0 < a - m * j" using m by simp
    then show ?thesis using that by (simp add: f_def)
  qed
  let ?g = "\<lambda>(cur, ret). ret = None \<and> cur \<noteq> (1 :: nat)"
  have mod: "a - m * q = a mod m" by (simp add: q_def minus_mult_div_eq_mod)
  show ?thesis
  proof (cases "m dvd a")
    case True
    then have fq: "f q = (1, None)" using mod by (simp add: f_def dvd_eq_mod_eq_0)
    have "while_loop ?g (size_valid_body (2 ^ a) m) (f 0) = Ok (f q)"
      by (rule while_loop_sequence) (use guard step fq in auto)
    then show ?thesis using True fq by (simp add: f_def)
  next
    case False
    then have r: "0 < a mod m" "a mod m < m" using m by (auto simp: dvd_eq_mod_eq_0)
    have "(2 :: nat) ^ (a mod m) div 2 ^ m = 0"
      using r by (simp add: div_eq_0_iff power_strict_increasing)
    then have last: "size_valid_body (2 ^ a) m (f q) = Ok (f (Suc q))"
      using m mod by (simp add: f_def size_valid_body_def)
    have "?g (f q)" using mod r(1) by (simp add: f_def)
    then have "while_loop ?g (size_valid_body (2 ^ a) m) (f 0) = Ok (f (Suc q))"
      by (intro while_loop_sequence) (use guard step last in \<open>auto simp: less_Suc_eq f_def\<close>)
    then show ?thesis using False by (simp add: f_def)
  qed
qed

lemma next_pow2_le:
  assumes "n \<le> 2 ^ 63"
  shows "\<exists>p. next_pow2 n = Ok p"
proof -
  have "next_pow2_from q n \<le> 2 ^ 63" if "\<exists>i. q = 2 ^ i" "q \<le> 2 ^ 63" for q
    using assms that
  proof (induction q n rule: next_pow2_from.induct)
    case (1 q n)
    show ?case
    proof (cases "n \<le> q")
      case True
      then show ?thesis using 1 by (subst next_pow2_from.simps) auto
    next
      case False
      obtain i where i: "q = 2 ^ i" using 1 by blast
      have "(2 :: nat) ^ i < 2 ^ 63" using False 1 i by simp
      then have "i < 63" by (rule power_less_imp_less_exp [rotated]) simp
      then have "(2 :: nat) ^ Suc i \<le> 2 ^ 63" by (intro power_increasing) auto
      then have "2 * q \<le> 2 ^ 63" "\<exists>i. 2 * q = 2 ^ i" using i by (auto intro: exI [of _ "Suc i"])
      then have "next_pow2_from (2 * q) n \<le> 2 ^ 63"
        using 1 False i by auto
      then show ?thesis using False i by (subst next_pow2_from.simps) simp
    qed
  qed
  from this [of 1] have "next_pow2_from 1 n \<le> 2 ^ 63" by (metis one_le_numeral one_le_power power_0)
  then show ?thesis by (simp add: next_pow2_def Let_def)
qed

lemma size_valid_iff:
  assumes m: "0 < m" "m < 64" and le: "leafs \<le> 2 ^ 63"
  shows "is_merkle_tree_size_valid leafs (2 ^ m) = Ok (\<exists>k. leafs = (2 ^ m) ^ k)"
proof -
  obtain p where p: "next_pow2 leafs = Ok p" using next_pow2_le [OF le] by blast
  have b: "next_pow2 (2 ^ m) = Ok (2 ^ m)" using m by simp
  show ?thesis
  proof (cases "\<exists>a < 64. leafs = 2 ^ a")
    case False
    then have "leafs \<noteq> p" using next_pow2_self_iff [of leafs] p by auto
    moreover have "leafs \<noteq> (2 ^ m) ^ k" for k
    proof
      assume eq: "leafs = (2 ^ m) ^ k"
      then have "2 ^ (m * k) < usize_limit" using le by (simp add: power_mult)
      then have "m * k < 64" by (rule power_less_limit_exp)
      with eq False show False by (metis power_mult)
    qed
    ultimately show ?thesis using p by (simp add: is_merkle_tree_size_valid_def)
  next
    case True
    then obtain a where a: "a < 64" "leafs = 2 ^ a" by blast
    have "(\<exists>k. leafs = (2 ^ m) ^ k) \<longleftrightarrow> m dvd a"
      by (auto simp: a(2) dvd_def simp flip: power_mult)
    moreover have "next_pow2 leafs = Ok leafs" using a by simp
    ultimately show ?thesis
      using size_valid_loop [OF m, of a] a b m
      by (simp add: is_merkle_tree_size_valid_def Let_def flip: size_valid_body_def)
  qed
qed

lemma size_valid_arity_1:
  assumes "0 < a" "a < 64"
  shows "is_merkle_tree_size_valid (2 ^ a) 1 = Diverge"
proof -
  let ?I = "\<lambda>(cur, ret). cur = (2 :: nat) ^ a \<and> ret = None"
  have "Suc 0 < 2 ^ a" using assms(1) by (rule Suc_0_less_power)
  then have "while_loop (\<lambda>(cur, ret). ret = None \<and> cur \<noteq> 1) (size_valid_body (2 ^ a) 0) (2 ^ a, None) = Diverge"
    by (intro while_loop_diverges [where I = ?I]) (auto simp: size_valid_body_def)
  moreover have "log2_pow2 (Suc 0) = 0" using log2_pow2_power [of 0] by simp
  moreover have "next_pow2 (Suc 0) = Ok (Suc 0)" using next_pow2_power [of 0] by simp
  ultimately show ?thesis
    using assms by (simp add: is_merkle_tree_size_valid_def Let_def flip: size_valid_body_def)
qed

lemma default_rows_ok:
  assumes "tree_shape m k" and "rows_exact flog m k"
  shows "\<exists>r < k. default_rows_to_discard flog ((2 ^ m) ^ k) (2 ^ m) = Ok r"
proof -
  have k: "0 < k" using assms(1) by (simp add: tree_shape_def)
  then consider "k = 1" | "k = 2" | "3 \<le> k" by linarith
  then show ?thesis
    unfolding default_rows_to_discard_def row_count_power [OF assms] and_then.simps
    by cases auto
qed


section \<open>Properties\<close>

text \<open>
  C34: for an arity \<open>2 ^ m\<close> and \<open>(2 ^ m) ^ k\<close> leaves (whose double fits a \<open>usize\<close>),
  \<open>get_merkle_tree_len\<close> returns the number of nodes of the complete tree, the sum of the row
  widths, with no overflow on the way; \<open>get_merkle_tree_leafs\<close> recovers the number of leaves
  from it.
\<close>

theorem tree_len_leafs_roundtrip:
  assumes "tree_shape m k"
  shows "get_merkle_tree_len ((2 ^ m) ^ k) (2 ^ m) = Ok (\<Sum>i\<le>k. (2 ^ m) ^ i)
    \<and> get_merkle_tree_leafs (\<Sum>i\<le>k. (2 ^ m) ^ i) (2 ^ m) = Ok ((2 ^ m) ^ k)"
proof -
  have "0 < m" "m < 64" "2 * (2 ^ m) ^ k < usize_limit"
    using assms tree_shape_arity(1) [OF assms] by (auto simp: tree_shape_def)
  then show ?thesis
    using tree_len_ok [OF assms] leafs_ok [of m k] by (simp add: tree_len_sum)
qed

theorem tree_len_leafs_roundtrip_witness:
  "get_merkle_tree_len 64 8 = Ok 73 \<and> get_merkle_tree_leafs 73 8 = Ok 64"
proof -
  have "(\<Sum>i\<le>2. (8 :: nat) ^ i) = 73" using tree_len_geometric [of 8 2] by (simp add: tree_len_sum)
  then show ?thesis using tree_len_leafs_roundtrip [of 3 2] by (simp add: tree_shape_def)
qed

text \<open>
  C37: whatever length \<open>get_merkle_tree_leafs\<close> accepts for an arity other than 2 is the
  length of a complete tree, and the result is its number of leaves: every other length is an
  error (or does not return).
\<close>

theorem accepted_tree_lengths:
  assumes "get_merkle_tree_leafs len (2 ^ m) = Ok leafs" and "m \<noteq> 1" and "m < 64"
  shows "\<exists>k. leafs = (2 ^ m) ^ k \<and> len = (\<Sum>i\<le>k. (2 ^ m) ^ i)"
  using leafs_sound [OF assms] by (simp add: tree_len_sum)

theorem accepted_tree_lengths_witness:
  "\<exists>k. 64 = (2 ^ 3 :: nat) ^ k \<and> 73 = (\<Sum>i\<le>k. (2 ^ 3 :: nat) ^ i)"
proof -
  have "get_merkle_tree_leafs 73 (2 ^ 3) = Ok 64"
    using leafs_ok [of 3 2] tree_len_geometric [of 8 2] by simp
  then show ?thesis by (rule accepted_tree_lengths) simp_all
qed

text \<open>
  C38: for arity 2 the shortcut \<open>(len >> 1) + 1\<close> accepts two lengths for every power of two,
  \<open>2 * leafs - 1\<close> (the length of the tree) and the even \<open>2 * leafs - 2\<close>, which is the length of
  no binary tree.
\<close>

theorem binary_leafs_accepts_even_lengths:
  assumes "0 < j" and "j < 63"
  shows "get_merkle_tree_leafs (2 * 2 ^ j - 1) 2 = Ok (2 ^ j)
    \<and> get_merkle_tree_leafs (2 * 2 ^ j - 2) 2 = Ok (2 ^ j)
    \<and> (\<forall>k. 2 * 2 ^ j - 2 \<noteq> (\<Sum>i\<le>k. (2 :: nat) ^ i))"
proof (intro conjI allI)
  have "(2 :: nat) ^ Suc j < 2 ^ 64" using assms(2) by (intro power_strict_increasing) auto
  then have lt: "2 * 2 ^ j - 1 < usize_limit - 1" "2 * 2 ^ j - 2 < usize_limit - 1" by simp_all
  have pos: "(2 :: nat) \<le> 2 ^ j" using assms(1) by (cases j) simp_all
  show "get_merkle_tree_leafs (2 * 2 ^ j - 1) 2 = Ok (2 ^ j)"
    unfolding leafs_binary [OF lt(1)] using assms pos by auto
  show "get_merkle_tree_leafs (2 * 2 ^ j - 2) 2 = Ok (2 ^ j)"
    unfolding leafs_binary [OF lt(2)] using assms pos by auto
  show "2 * 2 ^ j - 2 \<noteq> (\<Sum>i\<le>k. (2 :: nat) ^ i)" for k
  proof
    assume "2 * 2 ^ j - 2 = (\<Sum>i\<le>k. (2 :: nat) ^ i)"
    then have "Suc (2 * 2 ^ j - 2) = 2 * 2 ^ k" using tree_len_2 [of k] by (simp add: tree_len_sum)
    moreover have "(2 :: nat) \<le> x \<Longrightarrow> Suc (2 * x - 2) \<noteq> 2 * y" for x y by presburger
    ultimately show False using pos by blast
  qed
qed

theorem binary_leafs_accepts_even_lengths_witness:
  "get_merkle_tree_leafs 31 2 = Ok 16 \<and> get_merkle_tree_leafs 30 2 = Ok 16"
  using binary_leafs_accepts_even_lengths [of 4] by simp

text \<open>
  C39: \<open>get_merkle_tree_leafs\<close> does not return when the length is above the largest complete
  tree whose width fits the word: the width is shifted out to 0 and the loop subtracts 0 for
  ever.
\<close>

theorem leafs_of_huge_length_diverges:
  assumes "1 < m" "m < 64" and "m * K < 64" "64 \<le> m * Suc K" and "(\<Sum>i\<le>K. (2 ^ m) ^ i) < len"
  shows "get_merkle_tree_leafs len (2 ^ m) = Diverge"
proof -
  from assms(5) have "tree_len (2 ^ m) K < len" by (simp add: tree_len_sum)
  with assms(1-4) show ?thesis by (rule leafs_diverges)
qed

theorem leafs_of_huge_length_diverges_witness:
  "get_merkle_tree_leafs 18446744073709551615 4 = Diverge"
proof -
  have "(\<Sum>i\<le>31. 4 ^ i) < (18446744073709551615 :: nat)"
    using tree_len_geometric [of 4 31] by (simp add: tree_len_sum)
  then show ?thesis using leafs_of_huge_length_diverges [of 2 31 18446744073709551615] by simp
qed

text \<open>
  C36: \<open>is_merkle_tree_size_valid\<close> accepts a number of leaves exactly when it is a power of the
  arity, for every arity that is a power of two above 1 and every number of leaves up to the
  largest power of two of the word.
\<close>

theorem size_valid_iff_power:
  assumes "0 < m" "m < 64" and "leafs \<le> 2 ^ 63"
  shows "is_merkle_tree_size_valid leafs (2 ^ m) = Ok (\<exists>k. leafs = (2 ^ m) ^ k)"
  using assms by (rule size_valid_iff)

theorem size_valid_iff_power_witness:
  "is_merkle_tree_size_valid 32 (2 ^ 2) = Ok (\<exists>k. 32 = ((2 :: nat) ^ 2) ^ k)
    \<and> is_merkle_tree_size_valid 64 (2 ^ 2) = Ok (\<exists>k. 64 = ((2 :: nat) ^ 2) ^ k)"
  using size_valid_iff_power [of 2 32] size_valid_iff_power [of 2 64] by simp

text \<open>
  With arity 1 (which passes the power-of-two checks) \<open>is_merkle_tree_size_valid\<close> does
  not return for any power of two above 1: its shift is 0 and the width never changes.
\<close>

theorem size_valid_arity_one_diverges:
  assumes "0 < a" "a < 64"
  shows "is_merkle_tree_size_valid (2 ^ a) 1 = Diverge"
  using assms by (rule size_valid_arity_1)

theorem size_valid_arity_one_diverges_witness: "is_merkle_tree_size_valid 2 1 = Diverge"
  using size_valid_arity_one_diverges [of 1] by simp

text \<open>
  C35: discarding \<open>r\<close> rows of a complete tree leaves a cache that is exactly a complete tree of
  the same arity, \<open>r + 1\<close> rows lower; and the default number of rows to discard is always
  admissible, so that the cache is a non-empty proper part of the tree.
\<close>

theorem cache_is_a_complete_tree:
  assumes "tree_shape m k" and "rows_exact flog m k"
  shows "(\<forall>r. r < k \<longrightarrow> get_merkle_tree_cache_size flog ((2 ^ m) ^ k) (2 ^ m) r = Ok (tree_len (2 ^ m) (k - Suc r))
        \<and> get_merkle_tree_leafs (tree_len (2 ^ m) (k - Suc r)) (2 ^ m) = Ok ((2 ^ m) ^ (k - Suc r)))
    \<and> (\<exists>r < k. default_rows_to_discard flog ((2 ^ m) ^ k) (2 ^ m) = Ok r)"
proof (intro conjI allI impI)
  fix r
  assume r: "r < k"
  show "get_merkle_tree_cache_size flog ((2 ^ m) ^ k) (2 ^ m) r = Ok (tree_len (2 ^ m) (k - Suc r))"
    using assms r by (rule cache_size_ok)
  have "(2 ^ m :: nat) ^ (k - Suc r) \<le> (2 ^ m) ^ k" by (intro power_increasing) auto
  moreover have "0 < m" "2 * (2 ^ m) ^ k < usize_limit" "m < 63"
    using assms(1) tree_shape_arity(1) [OF assms(1)] by (simp_all add: tree_shape_def)
  ultimately have "2 * (2 ^ m :: nat) ^ (k - Suc r) < usize_limit" "0 < m" "m < 64" by linarith+
  then show "get_merkle_tree_leafs (tree_len (2 ^ m) (k - Suc r)) (2 ^ m) = Ok ((2 ^ m) ^ (k - Suc r))"
    by (intro leafs_ok)
next
  show "\<exists>r < k. default_rows_to_discard flog ((2 ^ m) ^ k) (2 ^ m) = Ok r"
    using assms by (rule default_rows_ok)
qed

theorem cache_is_a_complete_tree_witness:
  "get_merkle_tree_cache_size (\<lambda>b l. 11) 1073741824 8 2 = Ok 2396745
    \<and> get_merkle_tree_leafs 2396745 8 = Ok 2097152"
proof -
  have "tree_len 8 7 = 2396745" using tree_len_geometric [of 8 7] by simp
  moreover have "tree_shape 3 10" "rows_exact (\<lambda>b l. 11) 3 10"
    by (simp_all add: tree_shape_def rows_exact_def)
  ultimately show ?thesis
    using cache_is_a_complete_tree [of 3 10 "\<lambda>b l. 11"] by (auto dest: spec [of _ 2])
qed

end
