(* ===== verification/Element.thy ===== *)
theory Element
  imports Prelude "HOL-Library.List_Lexorder"
begin

text \<open>
  The trait \<open>Element\<close> of \<open>src/merkle.rs\<close> (the values a tree stores), as a record of its
  methods, with the contract the stores rely on, and its implementation for \<open>[u8; 32]\<close>.
\<close>

type_synonym byte = "8 word"

section \<open>The trait\<close>

text \<open>
  \<open>el_copy_to_slice x buf\<close> returns the new contents of the buffer. \<open>el_default\<close> is the
  \<open>Default\<close> supertrait, \<open>el_as_ref\<close> the \<open>AsRef<[u8]>\<close> supertrait.
\<close>

record 'e element =
  el_byte_len :: nat
  el_from_slice :: "byte list \<Rightarrow> 'e outcome"
  el_as_ref :: "'e \<Rightarrow> byte list"
  el_copy_to_slice :: "'e \<Rightarrow> byte list \<Rightarrow> byte list outcome"
  el_default :: 'e

text \<open>
  What an implementation promises: elements have a fixed serialised length (at most a
  megabyte, so that the sizes of the buffers do not overflow), \<open>from_slice\<close> accepts every
  slice of that length (it \<open>panics if the slice is not appropriately sized\<close>), and it is the
  inverse of \<open>as_ref\<close>.
\<close>

locale element_contract =
  fixes el :: "'e element"
  assumes byte_len_pos: "0 < el_byte_len el"
    and byte_len_small: "el_byte_len el \<le> 1048576"
    and from_slice_total: "length bs = el_byte_len el \<Longrightarrow> \<exists>x. el_from_slice el bs = Ok x"
    and as_ref_length: "length (el_as_ref el x) = el_byte_len el"
    and from_slice_as_ref: "el_from_slice el (el_as_ref el x) = Ok x"
    and as_ref_from_slice: "el_from_slice el bs = Ok x \<Longrightarrow> el_as_ref el x = bs"
    and copy_to_slice:
      "length buf = el_byte_len el \<Longrightarrow> el_copy_to_slice el x buf = Ok (el_as_ref el x)"
begin

lemma as_ref_inject: "el_as_ref el x = el_as_ref el y \<longleftrightarrow> x = y"
  by (metis from_slice_as_ref outcome.inject(1))

lemma length_concat_as_ref: "length (concat (map (el_as_ref el) xs)) = length xs * el_byte_len el"
  by (induction xs) (simp_all add: as_ref_length)

lemma chunks_concat_as_ref:
  "chunks (el_byte_len el) (concat (map (el_as_ref el) xs)) = map (el_as_ref el) xs"
  by (rule chunks_concat [OF byte_len_pos as_ref_length])

lemma chunks_exact_concat_as_ref:
  "chunks_exact (el_byte_len el) (concat (map (el_as_ref el) xs)) = map (el_as_ref el) xs"
  by (rule chunks_exact_concat [OF byte_len_pos as_ref_length])

lemma map_from_slice_as_ref: "map_outcome (el_from_slice el) (map (el_as_ref el) xs) = Ok xs"
  by (induction xs) (simp_all add: from_slice_as_ref)

lemma decode_encode:
  "map_outcome (el_from_slice el) (chunks_exact (el_byte_len el) (concat (map (el_as_ref el) xs))) = Ok xs"
  by (simp add: chunks_exact_concat_as_ref map_from_slice_as_ref)

lemma encode_inject:
  "concat (map (el_as_ref el) xs) = concat (map (el_as_ref el) ys) \<longleftrightarrow> xs = ys"
  by (metis chunks_concat_as_ref map_from_slice_as_ref outcome.inject(1))

lemma length_concat_div: "length (concat (map (el_as_ref el) xs)) div el_byte_len el = length xs"
  using byte_len_pos by (simp add: length_concat_as_ref)

lemma length_concat_mod: "length (concat (map (el_as_ref el) xs)) mod el_byte_len el = 0"
  by (simp add: length_concat_as_ref)

end


text \<open>The elements in a buffer, whatever its length; a last incomplete one is dropped.\<close>

definition decode_elements :: "'e element \<Rightarrow> byte list \<Rightarrow> 'e list" where
  "decode_elements el bs =
     map (\<lambda>c. case el_from_slice el c of Ok x \<Rightarrow> x | _ \<Rightarrow> el_default el) (chunks_exact (el_byte_len el) bs)"

context element_contract
begin

lemma decode_concat:
  assumes "length rest < el_byte_len el"
  shows "decode_elements el (concat (map (el_as_ref el) es) @ rest) = es"
proof -
  have "(length es * el_byte_len el + length rest) div el_byte_len el = length es"
    using assms by (simp add: add.commute)
  then have "chunks_exact (el_byte_len el) (concat (map (el_as_ref el) es) @ rest) = map (el_as_ref el) es"
    by (simp add: chunks_exact_def length_concat_as_ref chunks_concat_as_ref)
  then show ?thesis by (simp add: decode_elements_def o_def from_slice_as_ref)
qed

lemma length_decode: "length (decode_elements el bs) = length bs div el_byte_len el"
proof -
  let ?q = "length bs div el_byte_len el"
  have "length (take (?q * el_byte_len el) bs) = ?q * el_byte_len el"
    by (simp only: length_take min_absorb2 div_times_less_eq_dividend)
  then have "length (chunks (el_byte_len el) (take (?q * el_byte_len el) bs)) = ?q"
    by (rule length_chunks_exact_division [OF byte_len_pos])
  then show ?thesis unfolding decode_elements_def chunks_exact_def length_map .
qed

lemma buffer_split:
  obtains rest where "bs = concat (map (el_as_ref el) (decode_elements el bs)) @ rest"
    and "length rest < el_byte_len el"
proof
  let ?n = "length bs div el_byte_len el * el_byte_len el"
  have len: "length (take ?n bs) = (length bs div el_byte_len el) * el_byte_len el"
    by (simp only: length_take min_absorb2 div_times_less_eq_dividend)
  have "el_as_ref el (case el_from_slice el c of Ok x \<Rightarrow> x | _ \<Rightarrow> el_default el) = c"
    if "c \<in> set (chunks_exact (el_byte_len el) bs)" for c
  proof -
    have "length c = el_byte_len el"
      by (rule set_chunks_length [OF byte_len_pos len that [unfolded chunks_exact_def]])
    then obtain x where "el_from_slice el c = Ok x" using from_slice_total by blast
    then show ?thesis using as_ref_from_slice by simp
  qed
  then have "map (el_as_ref el) (decode_elements el bs) = chunks_exact (el_byte_len el) bs"
    unfolding decode_elements_def map_map o_def by (rule map_idI)
  then show "bs = concat (map (el_as_ref el) (decode_elements el bs)) @ drop ?n bs"
    using concat_chunks [OF byte_len_pos, of "take ?n bs"] by (simp add: chunks_exact_def)
  have "length bs - ?n = length bs mod el_byte_len el" by (simp add: modulo_nat_def)
  then show "length (drop ?n bs) < el_byte_len el" using byte_len_pos by simp
qed

lemma take_as_ref: "take (n * el_byte_len el) (concat (map (el_as_ref el) es)) = concat (map (el_as_ref el) (take n es))"
proof (induction es arbitrary: n)
  case (Cons e es)
  then show ?case by (cases n) (simp_all add: as_ref_length)
qed simp

lemma drop_as_ref: "drop (n * el_byte_len el) (concat (map (el_as_ref el) es)) = concat (map (el_as_ref el) (drop n es))"
proof (induction es arbitrary: n)
  case (Cons e es)
  then show ?case by (cases n) (simp_all add: as_ref_length)
qed simp

text \<open>Reading and writing whole elements in a buffer.\<close>

lemma buffer_range:
  assumes "a + n \<le> length (decode_elements el bs)"
  shows "take (n * el_byte_len el) (drop (a * el_byte_len el) bs) =
    concat (map (el_as_ref el) (take n (drop a (decode_elements el bs))))"
proof -
  obtain rest where bs: "bs = concat (map (el_as_ref el) (decode_elements el bs)) @ rest"
    by (rule buffer_split)
  let ?es = "decode_elements el bs"
  have "a * el_byte_len el \<le> length ?es * el_byte_len el" using assms by (intro mult_le_mono1) simp
  moreover have "n * el_byte_len el \<le> (length ?es - a) * el_byte_len el" using assms by (intro mult_le_mono1) simp
  ultimately have "take (n * el_byte_len el) (drop (a * el_byte_len el) (concat (map (el_as_ref el) ?es) @ rest)) =
      concat (map (el_as_ref el) (take n (drop a ?es)))"
    by (simp add: length_concat_as_ref drop_as_ref take_as_ref diff_mult_distrib)
  then show ?thesis using bs by simp
qed

lemma buffer_overwrite:
  assumes "i + length es \<le> length (decode_elements el bs)"
  shows "decode_elements el (overwrite (i * el_byte_len el) (concat (map (el_as_ref el) es)) bs) =
    overwrite i es (decode_elements el bs)"
proof -
  obtain rest where bs: "bs = concat (map (el_as_ref el) (decode_elements el bs)) @ rest"
    and rest: "length rest < el_byte_len el" by (rule buffer_split)
  let ?es = "decode_elements el bs" and ?enc = "\<lambda>es. concat (map (el_as_ref el) es)"
  have 1: "i * el_byte_len el \<le> length ?es * el_byte_len el" using assms by (intro mult_le_mono1) simp
  have 2: "(i + length es) * el_byte_len el \<le> length ?es * el_byte_len el" using assms by (rule mult_le_mono1)
  have "overwrite (i * el_byte_len el) (?enc es) (?enc ?es @ rest) =
      take (i * el_byte_len el) (?enc ?es) @ ?enc es @ drop ((i + length es) * el_byte_len el) (?enc ?es) @ rest"
    using 1 2 by (simp add: overwrite_def length_concat_as_ref distrib_right)
  also have "\<dots> = ?enc (overwrite i es ?es) @ rest"
    by (simp add: take_as_ref drop_as_ref overwrite_def)
  finally show ?thesis using bs decode_concat [OF rest] by metis
qed

end


section \<open>32-byte arrays\<close>

typedef bytes32 = "{bs :: byte list. length bs = 32}"
  by (rule exI [of _ "replicate 32 0"]) simp

setup_lifting type_definition_bytes32

lift_definition bytes32_default :: bytes32 is "replicate 32 0"
  by simp

definition bytes32_from_slice :: "byte list \<Rightarrow> bytes32 outcome" where
  "bytes32_from_slice bs = panic_unless (length bs = 32) AssertFailed (Ok (Abs_bytes32 bs))"

definition bytes32_copy_to_slice :: "bytes32 \<Rightarrow> byte list \<Rightarrow> byte list outcome" where
  "bytes32_copy_to_slice x buf = panic_unless (length buf = 32) LengthMismatch (Ok (Rep_bytes32 x))"

definition bytes32_element :: "bytes32 element" where
  "bytes32_element =
     \<lparr>el_byte_len = 32, el_from_slice = bytes32_from_slice, el_as_ref = Rep_bytes32,
      el_copy_to_slice = bytes32_copy_to_slice, el_default = bytes32_default\<rparr>"

lemma length_Rep_bytes32 [simp]: "length (Rep_bytes32 x) = 32"
  using Rep_bytes32 [of x] by simp

interpretation bytes32: element_contract bytes32_element
proof unfold_locales
  fix bs :: "byte list" and x
  assume "el_from_slice bytes32_element bs = Ok x"
  then have "length bs = 32" and "x = Abs_bytes32 bs"
    by (auto simp: bytes32_element_def bytes32_from_slice_def split: if_splits)
  then show "el_as_ref bytes32_element x = bs"
    by (simp add: bytes32_element_def Abs_bytes32_inverse)
qed (simp_all add: bytes32_element_def bytes32_from_slice_def bytes32_copy_to_slice_def
      Rep_bytes32_inverse)

text \<open>\<open>Ord\<close>: arrays compare lexicographically.\<close>

instantiation bytes32 :: linorder
begin

lift_definition less_eq_bytes32 :: "bytes32 \<Rightarrow> bytes32 \<Rightarrow> bool" is "(\<le>)" .

lift_definition less_bytes32 :: "bytes32 \<Rightarrow> bytes32 \<Rightarrow> bool" is "(<)" .

instance
  by standard (transfer; auto)+

end

instantiation bytes32 :: equal
begin

definition equal_bytes32 :: "bytes32 \<Rightarrow> bytes32 \<Rightarrow> bool" where
  "equal_bytes32 x y \<longleftrightarrow> Rep_bytes32 x = Rep_bytes32 y"

instance
  by standard (simp add: equal_bytes32_def Rep_bytes32_inject)

end

end
