(* ===== verification/Hash.thy ===== *)
theory Hash
  imports Element
begin

text \<open>
  \<open>src/hash.rs\<close>: the traits \<open>Hasher\<close> (of the standard library), \<open>Hashable\<close> and
  \<open>Algorithm\<close>, each as a record of its methods over the hasher's state, the default bodies
  of their methods, and the contracts a tree relies on.
\<close>

section \<open>Hasher\<close>

text \<open>
  A method that mutates the hasher returns its new state. The signed writes take the bit
  pattern.
\<close>

record 'a hasher =
  h_write :: "byte list \<Rightarrow> 'a \<Rightarrow> 'a"
  h_write_u8 :: "8 word \<Rightarrow> 'a \<Rightarrow> 'a"
  h_write_u16 :: "16 word \<Rightarrow> 'a \<Rightarrow> 'a"
  h_write_u32 :: "32 word \<Rightarrow> 'a \<Rightarrow> 'a"
  h_write_u64 :: "64 word \<Rightarrow> 'a \<Rightarrow> 'a"
  h_write_usize :: "64 word \<Rightarrow> 'a \<Rightarrow> 'a"
  h_write_i8 :: "8 word \<Rightarrow> 'a \<Rightarrow> 'a"
  h_write_i16 :: "16 word \<Rightarrow> 'a \<Rightarrow> 'a"
  h_write_i32 :: "32 word \<Rightarrow> 'a \<Rightarrow> 'a"
  h_write_i64 :: "64 word \<Rightarrow> 'a \<Rightarrow> 'a"
  h_write_isize :: "64 word \<Rightarrow> 'a \<Rightarrow> 'a"

text \<open>The bytes of an integer in memory (little-endian targets), and the standard defaults.\<close>

definition le_bytes :: "nat \<Rightarrow> 'w::len word \<Rightarrow> byte list" where
  "le_bytes n w = map (\<lambda>i. ucast (drop_bit (8 * i) w)) [0..<n]"

lemma length_le_bytes [simp]: "length (le_bytes n w) = n"
  by (simp add: le_bytes_def)

lemma le_bytes_u8 [simp]: "le_bytes 1 (w :: 8 word) = [w]"
  by (simp add: le_bytes_def)

definition std_hasher :: "(byte list \<Rightarrow> 'a \<Rightarrow> 'a) \<Rightarrow> 'a hasher" where
  "std_hasher wr =
     \<lparr>h_write = wr,
      h_write_u8 = (\<lambda>i. wr [i]), h_write_u16 = (\<lambda>i. wr (le_bytes 2 i)),
      h_write_u32 = (\<lambda>i. wr (le_bytes 4 i)), h_write_u64 = (\<lambda>i. wr (le_bytes 8 i)),
      h_write_usize = (\<lambda>i. wr (le_bytes 8 i)),
      h_write_i8 = (\<lambda>i. wr [i]), h_write_i16 = (\<lambda>i. wr (le_bytes 2 i)),
      h_write_i32 = (\<lambda>i. wr (le_bytes 4 i)), h_write_i64 = (\<lambda>i. wr (le_bytes 8 i)),
      h_write_isize = (\<lambda>i. wr (le_bytes 8 i))\<rparr>"

text \<open>
  A hasher that maps the data stream: writing in two pieces is writing the concatenation,
  and the integer writes are the standard defaults.
\<close>

locale stream_hasher =
  fixes h :: "'a hasher"
  assumes write_Nil: "h_write h [] a = a"
    and write_append: "h_write h (xs @ ys) a = h_write h ys (h_write h xs a)"
    and std_writes: "h = std_hasher (h_write h)"
begin

lemma write_concat: "fold (h_write h) bss a = h_write h (concat bss) a"
  by (induction bss arbitrary: a) (simp_all add: write_Nil write_append)

end


section \<open>Hashable\<close>

text \<open>
  \<open>hash(&self, state)\<close> of a type is a function from the value and the state to the new
  state; the default \<open>hash_slice\<close> hashes piece after piece.
\<close>

type_synonym ('t, 'a) hashable = "'t \<Rightarrow> 'a \<Rightarrow> 'a"

primrec hash_slice :: "('t, 'a) hashable \<Rightarrow> ('t list, 'a) hashable" where
  "hash_slice hash [] state = state"
| "hash_slice hash (piece # data) state = hash_slice hash data (hash piece state)"

lemma hash_slice_fold: "hash_slice hash data state = fold hash data state"
  by (induction data arbitrary: state) simp_all


section \<open>Algorithm\<close>

text \<open>MT leaf and interior node hash prefixes\<close>

definition LEAF :: byte where
  "LEAF = 0x00"

definition INTERIOR :: byte where
  "INTERIOR = 0x01"

record ('a, 'e) algorithm = "'a hasher" +
  alg_default :: 'a
  alg_hash :: "'a \<Rightarrow> 'e \<times> 'a"
  alg_reset :: "'a \<Rightarrow> 'a"
  alg_leaf :: "'e \<Rightarrow> 'a \<Rightarrow> 'e \<times> 'a"
  alg_node :: "'e \<Rightarrow> 'e \<Rightarrow> nat \<Rightarrow> 'a \<Rightarrow> 'e \<times> 'a"
  alg_multi_node :: "'e list \<Rightarrow> nat \<Rightarrow> 'a \<Rightarrow> 'e \<times> 'a"

text \<open>The default bodies, over the methods of the implementation they call.\<close>

definition default_reset :: "'a \<Rightarrow> 'a \<Rightarrow> 'a" where
  "default_reset dflt a = dflt"

definition default_leaf ::
  "('e \<Rightarrow> byte list) \<Rightarrow> (byte list \<Rightarrow> 'a \<Rightarrow> 'a) \<Rightarrow> ('a \<Rightarrow> 'e \<times> 'a) \<Rightarrow> 'e \<Rightarrow> 'a \<Rightarrow> 'e \<times> 'a" where
  "default_leaf as_ref wr hash leaf a = hash (wr (as_ref leaf) (wr [LEAF] a))"

definition default_node ::
  "('e \<Rightarrow> byte list) \<Rightarrow> (byte list \<Rightarrow> 'a \<Rightarrow> 'a) \<Rightarrow> ('a \<Rightarrow> 'e \<times> 'a) \<Rightarrow> 'e \<Rightarrow> 'e \<Rightarrow> nat \<Rightarrow> 'a \<Rightarrow> 'e \<times> 'a"
where
  "default_node as_ref wr hash left right height a =
     hash (wr (as_ref right) (wr (as_ref left) (wr [INTERIOR] a)))"

definition default_multi_node ::
  "('e \<Rightarrow> byte list) \<Rightarrow> (byte list \<Rightarrow> 'a \<Rightarrow> 'a) \<Rightarrow> ('a \<Rightarrow> 'e \<times> 'a) \<Rightarrow> 'e list \<Rightarrow> nat \<Rightarrow> 'a \<Rightarrow> 'e \<times> 'a"
where
  "default_multi_node as_ref wr hash nodes height a =
     hash (fold (\<lambda>node. wr (as_ref node)) nodes (wr [INTERIOR] a))"

text \<open>
  The leaf and the node hash of a fresh hasher: what a tree is made of, as functions of the
  data alone.
\<close>

definition leaf_hash :: "('a, 'e) algorithm \<Rightarrow> 'e \<Rightarrow> 'e" where
  "leaf_hash A x = fst (alg_leaf A x (alg_default A))"

definition node_hash :: "('a, 'e) algorithm \<Rightarrow> nat \<Rightarrow> 'e list \<Rightarrow> 'e" where
  "node_hash A height nodes = fst (alg_multi_node A nodes height (alg_default A))"

text \<open>
  The contract of \<open>reset\<close>: it gives the state of a new hasher back. The height a node is
  hashed with is documented as unused by the default body; an algorithm that ignores it is
  \<open>height_free\<close>.
\<close>

locale algorithm_contract =
  fixes A :: "('a, 'e) algorithm"
  assumes reset_default: "alg_reset A a = alg_default A"
begin

lemma leaf_after_reset: "fst (alg_leaf A x (alg_reset A a)) = leaf_hash A x"
  by (simp add: leaf_hash_def reset_default)

lemma node_after_reset: "fst (alg_multi_node A ns height (alg_reset A a)) = node_hash A height ns"
  by (simp add: node_hash_def reset_default)

end

locale height_free_algorithm = algorithm_contract +
  assumes height_free: "alg_multi_node A ns height a = alg_multi_node A ns height' a"
begin

lemma node_hash_height: "node_hash A height ns = node_hash A 0 ns"
  unfolding node_hash_def by (subst height_free [of ns height _ 0]) simp

end

text \<open>
  An algorithm that keeps the trait's default bodies hashes a leaf and a node as the prefix
  byte followed by the elements' bytes, and ignores the height.
\<close>

definition uses_defaults :: "'e element \<Rightarrow> ('a, 'e) algorithm \<Rightarrow> bool" where
  "uses_defaults el A \<longleftrightarrow>
     alg_reset A = default_reset (alg_default A) \<and>
     alg_leaf A = default_leaf (el_as_ref el) (h_write A) (alg_hash A) \<and>
     alg_node A = default_node (el_as_ref el) (h_write A) (alg_hash A) \<and>
     alg_multi_node A = default_multi_node (el_as_ref el) (h_write A) (alg_hash A)"

lemma uses_defaults_height_free: "uses_defaults el A \<Longrightarrow> height_free_algorithm A"
  by unfold_locales (simp_all add: uses_defaults_def default_reset_def default_multi_node_def)

definition digest :: "('a, 'e) algorithm \<Rightarrow> byte list \<Rightarrow> 'e" where
  "digest A bs = fst (alg_hash A (h_write A bs (alg_default A)))"

lemma default_leaf_digest:
  assumes "uses_defaults el A" and "\<And>xs ys a. h_write A (xs @ ys) a = h_write A ys (h_write A xs a)"
  shows "leaf_hash A x = digest A (LEAF # el_as_ref el x)"
  using assms(1) assms(2) [of "[LEAF]" "el_as_ref el x" "alg_default A"]
  by (simp add: uses_defaults_def leaf_hash_def digest_def default_leaf_def)

lemma default_node_digest:
  assumes "uses_defaults el A" and app: "\<And>xs ys a. h_write A (xs @ ys) a = h_write A ys (h_write A xs a)"
  shows "node_hash A height ns = digest A (INTERIOR # concat (map (el_as_ref el) ns))"
proof -
  have "fold (\<lambda>n. h_write A (el_as_ref el n)) ns (h_write A pre a) =
      h_write A (pre @ concat (map (el_as_ref el) ns)) a" for pre a
    by (induction ns arbitrary: pre) (simp_all add: app [symmetric])
  from this [of "[INTERIOR]"] show ?thesis
    using assms(1) by (simp add: uses_defaults_def node_hash_def digest_def default_multi_node_def)
qed

end
