(* ===== verification/Hash_Impl.thy ===== *)
theory Hash_Impl
  imports Hash
begin

text \<open>
  \<open>src/hash_impl.rs\<close>: the \<open>Hashable\<close> implementations for the integers, byte arrays,
  byte vectors, \<open>bool\<close>, \<open>char\<close>, strings, tuples, slices, references and raw pointers.
  The specialised \<open>hash_slice\<close> of the macros writes the memory of the slice at once. The lemmas
  show that a hasher that maps its stream of bytes ends in the state the element-wise default
  leads to. The standard library does not ask that of a \<open>Hasher\<close>, and one that looks at the
  single writes tells the two apart.
\<close>

section \<open>Integers\<close>

text \<open>The macro \<open>impl_write!\<close>: one method per integer type, and the raw write of a slice.\<close>

definition hash_u8 :: "('a, 'x) hasher_scheme \<Rightarrow> (8 word, 'a) hashable" where
  "hash_u8 h x state = h_write_u8 h x state"

definition hash_u16 :: "('a, 'x) hasher_scheme \<Rightarrow> (16 word, 'a) hashable" where
  "hash_u16 h x state = h_write_u16 h x state"

definition hash_u32 :: "('a, 'x) hasher_scheme \<Rightarrow> (32 word, 'a) hashable" where
  "hash_u32 h x state = h_write_u32 h x state"

definition hash_u64 :: "('a, 'x) hasher_scheme \<Rightarrow> (64 word, 'a) hashable" where
  "hash_u64 h x state = h_write_u64 h x state"

definition hash_usize :: "('a, 'x) hasher_scheme \<Rightarrow> (64 word, 'a) hashable" where
  "hash_usize h x state = h_write_usize h x state"

definition hash_i8 :: "('a, 'x) hasher_scheme \<Rightarrow> (8 word, 'a) hashable" where
  "hash_i8 h x state = h_write_i8 h x state"

definition hash_i16 :: "('a, 'x) hasher_scheme \<Rightarrow> (16 word, 'a) hashable" where
  "hash_i16 h x state = h_write_i16 h x state"

definition hash_i32 :: "('a, 'x) hasher_scheme \<Rightarrow> (32 word, 'a) hashable" where
  "hash_i32 h x state = h_write_i32 h x state"

definition hash_i64 :: "('a, 'x) hasher_scheme \<Rightarrow> (64 word, 'a) hashable" where
  "hash_i64 h x state = h_write_i64 h x state"

definition hash_isize :: "('a, 'x) hasher_scheme \<Rightarrow> (64 word, 'a) hashable" where
  "hash_isize h x state = h_write_isize h x state"

text \<open>
  \<open>hash_slice\<close> of the macro: one write of the raw memory of the slice. The number of bytes is the
  length times the size of the element type, the memory holds the elements one behind the other.
\<close>

definition size_of :: "'w::len itself \<Rightarrow> nat" where
  "size_of t = LENGTH('w) div 8"

lemma size_of_integers [simp]:
  "size_of TYPE(8) = 1" "size_of TYPE(16) = 2" "size_of TYPE(32) = 4" "size_of TYPE(64) = 8"
  by (simp_all add: size_of_def)

definition slice_memory :: "'w::len word list \<Rightarrow> byte list" where
  "slice_memory data = concat (map (le_bytes (size_of TYPE('w))) data)"

definition hash_slice_raw :: "('a, 'x) hasher_scheme \<Rightarrow> ('w::len word list, 'a) hashable" where
  "hash_slice_raw h data state =
     (let newlen = length data * size_of TYPE('w) in h_write h (take newlen (slice_memory data)) state)"


section \<open>Byte arrays, vectors, bool, char, strings\<close>

text \<open>The macro \<open>impl_array!\<close> for \<open>[u8; N]\<close>, and its raw \<open>hash_slice\<close>.\<close>

definition hash_array :: "('a, 'x) hasher_scheme \<Rightarrow> (byte list, 'a) hashable" where
  "hash_array h bytes state = h_write h bytes state"

definition hash_slice_array :: "('a, 'x) hasher_scheme \<Rightarrow> (byte list list, 'a) hashable" where
  "hash_slice_array h data state = h_write h (concat data) state"

definition hash_vec_u8 :: "('a, 'x) hasher_scheme \<Rightarrow> (byte list, 'a) hashable" where
  "hash_vec_u8 h bytes state = h_write h bytes state"

definition hash_bool :: "('a, 'x) hasher_scheme \<Rightarrow> (bool, 'a) hashable" where
  "hash_bool h b state = h_write_u8 h (if b then 1 else 0) state"

text \<open>A \<open>char\<close> is its scalar value, a string its UTF-8 bytes; no terminator is written.\<close>

definition hash_char :: "('a, 'x) hasher_scheme \<Rightarrow> (32 word, 'a) hashable" where
  "hash_char h c state = h_write_u32 h c state"

definition hash_str :: "('a, 'x) hasher_scheme \<Rightarrow> (byte list, 'a) hashable" where
  "hash_str h bytes state = h_write h bytes state"

definition hash_String :: "('a, 'x) hasher_scheme \<Rightarrow> (byte list, 'a) hashable" where
  "hash_String h bytes state = h_write h bytes state"


section \<open>Tuples, slices, references, pointers\<close>

text \<open>
  The macro \<open>impl_hash_tuple!\<close>: the components in order. A tuple of \<open>n\<close> components is
  the iterated pair, so \<open>hash_tuple ha (hash_tuple hb hc)\<close> is the instance for \<open>(A, B, C)\<close>.
\<close>

definition hash_unit :: "(unit, 'a) hashable" where
  "hash_unit u state = state"

fun hash_tuple :: "('t, 'a) hashable \<Rightarrow> ('u, 'a) hashable \<Rightarrow> ('t \<times> 'u, 'a) hashable" where
  "hash_tuple ha hb (a, b) state = hb b (ha a state)"

definition hash_of_slice :: "(('t list, 'a) hashable) \<Rightarrow> ('t list, 'a) hashable" where
  "hash_of_slice hslice data state = hslice data state"

definition hash_ref :: "('t, 'a) hashable \<Rightarrow> ('t, 'a) hashable" where
  "hash_ref hash x state = hash x state"

text \<open>A raw pointer is its address, with the metadata word of a fat pointer after it.\<close>

fun hash_ptr :: "('a, 'x) hasher_scheme \<Rightarrow> (64 word \<times> 64 word option, 'a) hashable" where
  "hash_ptr h (addr, None) state = h_write_usize h addr state"
| "hash_ptr h (addr, Some meta) state = h_write_usize h meta (h_write_usize h addr state)"


section \<open>The raw slice writes and the element-wise default\<close>

lemma length_slice_memory: "length (slice_memory (data :: 'w::len word list)) = length data * size_of TYPE('w)"
  unfolding slice_memory_def by (induction data) simp_all

lemma hash_slice_raw_write: "hash_slice_raw h data state = h_write h (slice_memory data) state"
  unfolding hash_slice_raw_def Let_def length_slice_memory [symmetric] by simp

lemma hasher_defaults:
  assumes "stream_hasher h"
  shows "h_write_u8 h x8 = h_write h [x8]" "h_write_u16 h x16 = h_write h (le_bytes 2 x16)"
    "h_write_u32 h x32 = h_write h (le_bytes 4 x32)" "h_write_u64 h x64 = h_write h (le_bytes 8 x64)"
    "h_write_usize h x64 = h_write h (le_bytes 8 x64)"
    "h_write_i8 h x8 = h_write h [x8]" "h_write_i16 h x16 = h_write h (le_bytes 2 x16)"
    "h_write_i32 h x32 = h_write h (le_bytes 4 x32)" "h_write_i64 h x64 = h_write h (le_bytes 8 x64)"
    "h_write_isize h x64 = h_write h (le_bytes 8 x64)"
  by (subst stream_hasher.std_writes [OF assms], simp add: std_hasher_def)+

lemma hash_slice_write:
  assumes "stream_hasher h" and "\<And>x state. hash x state = h_write h (enc x) state"
  shows "hash_slice hash data state = h_write h (concat (map enc data)) state"
proof (induction data arbitrary: state)
  case Nil
  then show ?case by (simp add: stream_hasher.write_Nil [OF assms(1)])
next
  case (Cons x data)
  then show ?case by (simp add: assms(2) stream_hasher.write_append [OF assms(1)])
qed

lemma hash_slice_raw_stream:
  assumes "stream_hasher h" and "\<And>x state. hash x state = h_write h (le_bytes (size_of TYPE('w)) x) state"
  shows "hash_slice_raw h (data :: 'w::len word list) s = hash_slice hash data s"
  using hash_slice_write [of h hash "le_bytes (size_of TYPE('w))" data s, OF assms]
  by (simp add: hash_slice_raw_write slice_memory_def)

lemmas integer_hash_defs =
  hash_u8_def hash_u16_def hash_u32_def hash_u64_def hash_usize_def
  hash_i8_def hash_i16_def hash_i32_def hash_i64_def hash_isize_def

lemma integer_slices_stream:
  assumes "stream_hasher h"
  shows "hash_slice_raw h d8 s = hash_slice (hash_u8 h) d8 s" "hash_slice_raw h d16 s = hash_slice (hash_u16 h) d16 s"
    "hash_slice_raw h d32 s = hash_slice (hash_u32 h) d32 s" "hash_slice_raw h d64 s = hash_slice (hash_u64 h) d64 s"
    "hash_slice_raw h d64 s = hash_slice (hash_usize h) d64 s"
    "hash_slice_raw h d8 s = hash_slice (hash_i8 h) d8 s" "hash_slice_raw h d16 s = hash_slice (hash_i16 h) d16 s"
    "hash_slice_raw h d32 s = hash_slice (hash_i32 h) d32 s" "hash_slice_raw h d64 s = hash_slice (hash_i64 h) d64 s"
    "hash_slice_raw h d64 s = hash_slice (hash_isize h) d64 s"
  by (rule hash_slice_raw_stream [OF assms];
      simp only: integer_hash_defs hasher_defaults [OF assms] size_of_integers le_bytes_u8)+

lemma array_slices_stream:
  assumes "stream_hasher h"
  shows "hash_slice_array h data s = hash_slice (hash_array h) data s"
  using hash_slice_write [OF assms, of "hash_array h" "\<lambda>b. b" data s]
  by (simp add: hash_slice_array_def hash_array_def)

text \<open>A hasher that keeps the list of its writes sees one write or one for each element.\<close>

lemma recording_hasher_slices:
  defines "h \<equiv> std_hasher (\<lambda>bytes log. log @ [bytes])"
  shows "hash_slice_raw h [1 :: 8 word, 2] [] = [[1, 2]]" and "hash_slice (hash_u8 h) [1, 2] [] = [[1], [2]]"
  unfolding h_def
  by (simp_all add: hash_slice_raw_write slice_memory_def hash_u8_def std_hasher_def flip: One_nat_def)

text \<open>Strings carry no terminator: only the concatenation of adjacent strings matters.\<close>

lemma hash_str_tuple_concat:
  assumes "stream_hasher h" and "s @ t = s' @ t'"
  shows "hash_tuple (hash_str h) (hash_str h) (s, t) a = hash_tuple (hash_str h) (hash_str h) (s', t') a"
proof -
  have "hash_tuple (hash_str h) (hash_str h) (x, y) a = h_write h (x @ y) a" for x y
    by (simp add: hash_str_def stream_hasher.write_append [OF assms(1)])
  then show ?thesis by (simp only: assms(2))
qed

end
