(* ===== verification/Test_Common.thy ===== *)
theory Test_Common
  imports Hash
begin

text \<open>
  \<open>src/test_common.rs\<close>: the element \<open>[u8; 16]\<close> and the algorithm \<open>XOR128\<close>, which
  xors the stream of bytes cyclically into 16 bytes. It is the concrete algorithm of the
  crate: it interprets the contracts of the traits, and the witnesses of the generic theorems
  run on it.
\<close>

unbundle bit_operations_syntax

section \<open>16-byte arrays\<close>

definition SIZE :: nat where
  "SIZE = 0x10"

typedef item = "{bs :: byte list. length bs = 16}"
  by (rule exI [of _ "replicate 16 0"]) simp

setup_lifting type_definition_item

lift_definition item_zero :: item is "replicate 16 0"
  by simp

definition item_from_slice :: "byte list \<Rightarrow> item outcome" where
  "item_from_slice bytes = panic_unless (length bytes = 16) AssertFailed (Ok (Abs_item bytes))"

definition item_copy_to_slice :: "item \<Rightarrow> byte list \<Rightarrow> byte list outcome" where
  "item_copy_to_slice x bytes = panic_unless (length bytes = 16) LengthMismatch (Ok (Rep_item x))"

definition item_element :: "item element" where
  "item_element =
     \<lparr>el_byte_len = 16, el_from_slice = item_from_slice, el_as_ref = Rep_item,
      el_copy_to_slice = item_copy_to_slice, el_default = item_zero\<rparr>"

lemma length_Rep_item [simp]: "length (Rep_item x) = 16"
  using Rep_item [of x] by simp

interpretation item: element_contract item_element
proof unfold_locales
  fix bs :: "byte list" and x
  assume "el_from_slice item_element bs = Ok x"
  then have "length bs = 16" and "x = Abs_item bs"
    by (auto simp: item_element_def item_from_slice_def split: if_splits)
  then show "el_as_ref item_element x = bs"
    by (simp add: item_element_def Abs_item_inverse)
qed (simp_all add: item_element_def item_from_slice_def item_copy_to_slice_def Rep_item_inverse)

instantiation item :: equal
begin

definition equal_item :: "item \<Rightarrow> item \<Rightarrow> bool" where
  "equal_item x y \<longleftrightarrow> Rep_item x = Rep_item y"

instance
  by standard (simp add: equal_item_def Rep_item_inject)

end

instantiation item :: linorder
begin

lift_definition less_eq_item :: "item \<Rightarrow> item \<Rightarrow> bool" is "(\<le>)" .

lift_definition less_item :: "item \<Rightarrow> item \<Rightarrow> bool" is "(<)" .

instance
  by standard (transfer; auto)+

end


section \<open>XOR128\<close>

record xor128 =
  x_data :: item
  x_i :: nat

definition xor128_new :: xor128 where
  "xor128_new = \<lparr>x_data = item_zero, x_i = 0\<rparr>"

text \<open>\<open>self.data[self.i & (SIZE - 1)] ^= *x; self.i += 1\<close> for each byte\<close>

definition item_xor_at :: "item \<Rightarrow> nat \<Rightarrow> byte \<Rightarrow> item" where
  "item_xor_at d k x = Abs_item ((Rep_item d)[k := Rep_item d ! k XOR x])"

lemma Rep_item_xor_at: "Rep_item (item_xor_at d k x) = (Rep_item d)[k := Rep_item d ! k XOR x]"
  by (simp add: item_xor_at_def Abs_item_inverse)

definition xor128_write_byte :: "byte \<Rightarrow> xor128 \<Rightarrow> xor128" where
  "xor128_write_byte x s =
     s\<lparr>x_data := item_xor_at (x_data s) (x_i s AND (SIZE - 1)) x, x_i := x_i s + 1\<rparr>"

definition xor128_write :: "byte list \<Rightarrow> xor128 \<Rightarrow> xor128" where
  "xor128_write bytes s = fold xor128_write_byte bytes s"

definition xor128_hash :: "xor128 \<Rightarrow> item \<times> xor128" where
  "xor128_hash s = (x_data s, s)"

definition xor128_reset :: "xor128 \<Rightarrow> xor128" where
  "xor128_reset s = xor128_new"

definition xor128_algorithm :: "(xor128, item) algorithm" where
  "xor128_algorithm = hasher.extend (std_hasher xor128_write)
     \<lparr>alg_default = xor128_new, alg_hash = xor128_hash, alg_reset = xor128_reset,
      alg_leaf = default_leaf Rep_item xor128_write xor128_hash,
      alg_node = default_node Rep_item xor128_write xor128_hash,
      alg_multi_node = default_multi_node Rep_item xor128_write xor128_hash\<rparr>"

text \<open>The hasher part of the algorithm, the view a \<open>Hashable\<close> value has of it.\<close>

abbreviation xor128_hasher :: "xor128 hasher" where
  "xor128_hasher \<equiv> std_hasher xor128_write"

lemma xor128_write_append: "xor128_write (xs @ ys) s = xor128_write ys (xor128_write xs s)"
  by (simp add: xor128_write_def)

interpretation xor128: stream_hasher xor128_hasher
  by unfold_locales (simp_all add: std_hasher_def xor128_write_def)

lemma xor128_uses_defaults: "uses_defaults item_element xor128_algorithm"
  by (simp add: uses_defaults_def xor128_algorithm_def item_element_def std_hasher_def
      hasher.defs default_reset_def xor128_reset_def fun_eq_iff)

interpretation xor128_alg: height_free_algorithm xor128_algorithm
  by (rule uses_defaults_height_free [OF xor128_uses_defaults])

lemma and_15: "(n :: nat) AND 15 = n mod 16"
  using take_bit_eq_mask [of 4 n] by (simp add: take_bit_eq_mod mask_eq_exp_minus_1)

lemma xor128_write_pos: "x_i (xor128_write bs s) = x_i s + length bs"
  unfolding xor128_write_def
  by (induction bs arbitrary: s) (simp_all add: xor128_write_byte_def)

text \<open>
  What a byte of the digest is: the xor of the bytes of the stream whose position is
  congruent to it modulo 16.
\<close>

lemma xor128_write_byte_nth:
  assumes "k < 16"
  shows "Rep_item (x_data (xor128_write_byte x s)) ! k =
     (if x_i s mod 16 = k then Rep_item (x_data s) ! k XOR x else Rep_item (x_data s) ! k)"
  using assms
  by (simp add: xor128_write_byte_def Rep_item_xor_at SIZE_def and_15 nth_list_update)

lemma Rep_item_zero_nth [simp]: "j < 16 \<Longrightarrow> Rep_item item_zero ! j = 0"
  by transfer simp

lemma xor128_write_nth:
  assumes "k < 16"
  shows "Rep_item (x_data (xor128_write bs s)) ! k =
    fold (XOR) (map ((!) bs) (filter (\<lambda>j. (x_i s + j) mod 16 = k) [0..<length bs])) (Rep_item (x_data s) ! k)"
proof (induction bs rule: rev_induct)
  case Nil
  then show ?case by (simp add: xor128_write_def)
next
  case (snoc b bs)
  have same: "map ((!) (bs @ [b])) (filter (\<lambda>j. (x_i s + j) mod 16 = k) [0..<length bs]) =
      map ((!) bs) (filter (\<lambda>j. (x_i s + j) mod 16 = k) [0..<length bs])"
    by (rule map_cong) (simp_all add: nth_append)
  have "xor128_write (bs @ [b]) s = xor128_write_byte b (xor128_write bs s)"
    by (simp add: xor128_write_def)
  then show ?case
    using snoc xor128_write_byte_nth [OF assms, of b "xor128_write bs s"] same
    by (simp add: xor128_write_pos xor.commute del: map_eq_conv)
qed

end
