(* ===== verification/Store_Config.thy ===== *)
theory Store_Config
  imports Prelude
begin

text \<open>
  The configuration values of \<open>src/store/mod.rs\<close>: \<open>StoreConfig\<close>, which names the file
  a store lives in, \<open>ReplicaConfig\<close>, and the data versions. Paths are strings.
\<close>

type_synonym path_buf = string

datatype store_config_data_version = One | Two

fun data_version_number :: "store_config_data_version \<Rightarrow> nat" where
  "data_version_number One = 1"
| "data_version_number Two = 2"

definition DEFAULT_STORE_CONFIG_DATA_VERSION :: nat where
  "DEFAULT_STORE_CONFIG_DATA_VERSION = data_version_number Two"

record replica_config =
  rc_path :: path_buf
  rc_offsets :: "nat list"

definition replica_config_new :: "path_buf \<Rightarrow> nat list \<Rightarrow> replica_config" where
  "replica_config_new path offsets = \<lparr>rc_path = path, rc_offsets = offsets\<rparr>"

definition replica_config_from :: "path_buf \<Rightarrow> replica_config" where
  "replica_config_from path = \<lparr>rc_path = path, rc_offsets = [0]\<rparr>"

record store_config =
  sc_path :: path_buf
  sc_id :: string
  sc_size :: "nat option"
  sc_rows_to_discard :: nat

definition store_config_new :: "path_buf \<Rightarrow> string \<Rightarrow> nat \<Rightarrow> store_config" where
  "store_config_new path ident rows_to_discard =
     \<lparr>sc_path = path, sc_id = ident, sc_size = None, sc_rows_to_discard = rows_to_discard\<rparr>"

definition store_config_from_config :: "store_config \<Rightarrow> string \<Rightarrow> nat option \<Rightarrow> store_config" where
  "store_config_from_config config ident sz =
     (let val = (case sz of Some sz \<Rightarrow> Some sz | None \<Rightarrow> sc_size config) in
      \<lparr>sc_path = sc_path config, sc_id = ident, sc_size = val,
       sc_rows_to_discard = sc_rows_to_discard config\<rparr>)"

text \<open>
  \<open>format!("sc-{:0>2}-data-{}.dat", version, id)\<close> under \<open>Path::join\<close>, which puts a
  separator in unless the path is empty or ends with one (the file name is never absolute).
\<close>

fun decimal :: "nat \<Rightarrow> string" where
  "decimal n =
     (if n < 10 then [char_of (48 + n)] else decimal (n div 10) @ [char_of (48 + n mod 10)])"

declare decimal.simps [simp del]

definition zero_fill :: "nat \<Rightarrow> string \<Rightarrow> string" where
  "zero_fill width s = replicate (width - length s) CHR ''0'' @ s"

definition path_join :: "path_buf \<Rightarrow> string \<Rightarrow> path_buf" where
  "path_join p f = (if p = [] then f else if last p = CHR ''/'' then p @ f else p @ ''/'' @ f)"

definition data_path :: "path_buf \<Rightarrow> string \<Rightarrow> path_buf" where
  "data_path path ident =
     path_join path
       (''sc-'' @ zero_fill 2 (decimal DEFAULT_STORE_CONFIG_DATA_VERSION) @ ''-data-'' @ ident @ ''.dat'')"

text \<open>In one directory, different identifiers name different files.\<close>

lemma data_path_inject: "data_path path ident = data_path path ident' \<longleftrightarrow> ident = ident'"
  by (auto simp: data_path_def path_join_def)

lemma data_path_example: "data_path ''/tmp'' ''x'' = ''/tmp/sc-02-data-x.dat''"
  by code_simp

lemma from_config_keeps:
  "sc_path (store_config_from_config c ident sz) = sc_path c"
  "sc_rows_to_discard (store_config_from_config c ident sz) = sc_rows_to_discard c"
  "sc_size (store_config_from_config c ident None) = sc_size c"
  "sc_size (store_config_from_config c ident (Some n)) = Some n"
  by (simp_all add: store_config_from_config_def)

end
