(* ===== verification/Store.thy ===== *)
theory Store
  imports Store_Config Arith Hash
begin

text \<open>
  The trait \<open>Store\<close> of \<open>src/store/mod.rs\<close>: a record of its methods over the state of a
  store (\<open>'s\<close>) and the world the store lives in (\<open>'w\<close>, the file system; a store in memory
  leaves it alone), and the default bodies of \<open>last\<close>, \<open>build_small_tree\<close>,
  \<open>process_layer\<close> and \<open>build\<close>. A method that takes \<open>&mut self\<close> returns the new store and
  the new world. An error value stands alone: the model does not keep the state a failed method
  leaves behind, because every caller in the crate returns the error at once.
\<close>

section \<open>The trait\<close>

definition SMALL_TREE_BUILD :: nat where
  "SMALL_TREE_BUILD = 1024"

definition BUILD_CHUNK_NODES :: nat where
  "BUILD_CHUNK_NODES = 1024 * 4"

record ('w, 's, 'e) store_ops =
  st_new_with_config :: "nat \<Rightarrow> nat \<Rightarrow> store_config \<Rightarrow> 'w \<Rightarrow> ('s \<times> 'w) outcome"
  st_new :: "nat \<Rightarrow> 'w \<Rightarrow> ('s \<times> 'w) outcome"
  st_new_from_slice_with_config ::
    "nat \<Rightarrow> nat \<Rightarrow> byte list \<Rightarrow> store_config \<Rightarrow> 'w \<Rightarrow> ('s \<times> 'w) outcome"
  st_new_from_slice :: "nat \<Rightarrow> byte list \<Rightarrow> 'w \<Rightarrow> ('s \<times> 'w) outcome"
  st_new_from_disk :: "nat \<Rightarrow> nat \<Rightarrow> store_config \<Rightarrow> 'w \<Rightarrow> ('s \<times> 'w) outcome"
  st_write_at :: "'e \<Rightarrow> nat \<Rightarrow> 's \<Rightarrow> 'w \<Rightarrow> ('s \<times> 'w) outcome"
  st_copy_from_slice :: "byte list \<Rightarrow> nat \<Rightarrow> 's \<Rightarrow> 'w \<Rightarrow> ('s \<times> 'w) outcome"
  st_compact :: "nat \<Rightarrow> store_config \<Rightarrow> nat \<Rightarrow> 's \<Rightarrow> 'w \<Rightarrow> (bool \<times> 's \<times> 'w) outcome"
  st_reinit :: "'s \<Rightarrow> 'w \<Rightarrow> ('s \<times> 'w) outcome"
  st_delete :: "store_config \<Rightarrow> 'w \<Rightarrow> 'w outcome"
  st_read_at :: "nat \<Rightarrow> 's \<Rightarrow> 'w \<Rightarrow> 'e outcome"
  st_read_range :: "nat \<Rightarrow> nat \<Rightarrow> 's \<Rightarrow> 'w \<Rightarrow> 'e list outcome"
  st_read_into :: "nat \<Rightarrow> byte list \<Rightarrow> 's \<Rightarrow> 'w \<Rightarrow> byte list outcome"
  st_read_range_into :: "nat \<Rightarrow> nat \<Rightarrow> byte list \<Rightarrow> 's \<Rightarrow> 'w \<Rightarrow> byte list outcome"
  st_len :: "'s \<Rightarrow> nat"
  st_loaded_from_disk :: "'s \<Rightarrow> bool"
  st_is_empty :: "'s \<Rightarrow> bool"
  st_push :: "'e \<Rightarrow> 's \<Rightarrow> 'w \<Rightarrow> ('s \<times> 'w) outcome"
  st_sync :: "'s \<Rightarrow> 'w \<Rightarrow> unit outcome"

text \<open>
  The methods with a default body that a store may override. They are generic in the
  algorithm and the arity \<open>U\<close>, which become arguments.
\<close>

record ('w, 's, 'e, 'a) store = "('w, 's, 'e) store_ops" +
  st_process_layer ::
    "('a, 'e) algorithm \<Rightarrow> nat \<Rightarrow> nat \<Rightarrow> nat \<Rightarrow> nat \<Rightarrow> nat \<Rightarrow> 's \<Rightarrow> 'w \<Rightarrow> ('s \<times> 'w) outcome"
  st_build ::
    "('a, 'e) algorithm \<Rightarrow> nat \<Rightarrow> nat \<Rightarrow> nat \<Rightarrow> store_config option \<Rightarrow> 's \<Rightarrow> 'w \<Rightarrow> ('e \<times> 's \<times> 'w) outcome"

text \<open>\<open>fn reinit\<close> and \<open>fn sync\<close> of a store that does not override them\<close>

definition default_reinit :: "'s \<Rightarrow> 'w \<Rightarrow> ('s \<times> 'w) outcome" where
  "default_reinit s w = Ok (s, w)"

definition default_sync :: "'s \<Rightarrow> 'w \<Rightarrow> unit outcome" where
  "default_sync s w = Ok ()"

definition st_last :: "('w, 's, 'e, 'z) store_ops_scheme \<Rightarrow> 's \<Rightarrow> 'w \<Rightarrow> 'e outcome" where
  "st_last S s w = and_then (usize_sub (st_len S s) 1) (\<lambda>i. st_read_at S i s w)"


section \<open>The default build\<close>

text \<open>\<open>A::default().multi_node(&nodes, level)\<close> is \<^const>\<open>node_hash\<close>.\<close>

definition default_build_small_tree ::
  "('w, 's, 'e, 'z) store_ops_scheme \<Rightarrow> ('a, 'e) algorithm \<Rightarrow> nat \<Rightarrow> nat \<Rightarrow> nat \<Rightarrow>
     's \<Rightarrow> 'w \<Rightarrow> ('e \<times> 's \<times> 'w) outcome" where
  "default_build_small_tree S A branches leafs row_count s w =
     ensure (leafs mod 2 = 0) LeafsNotEven (
     let shift = log2_pow2 branches in
     and_then
       (while_loop
         (\<lambda>(level, width, level_node_index, s, w). width > 1)
         (\<lambda>(level, width, level_node_index, s, w).
           and_then
             (if level = 0 then Ok (0, st_len S s)
              else and_then (usize_add level_node_index width) (\<lambda>next. Ok (level_node_index, next)))
             (\<lambda>(read_start, write_start).
           and_then (usize_add read_start width) (\<lambda>read_end.
           and_then (st_read_range S read_start read_end s w) (\<lambda>nodes.
           panic_unless (branches \<noteq> 0) AssertFailed (
           let layer = map (node_hash A level) (chunks branches nodes) in
           and_then
             (for_each
               (\<lambda>(i, node) (s, w). and_then (usize_add write_start i) (\<lambda>index. st_write_at S node index s w))
               (enumerate 0 layer) (s, w))
             (\<lambda>(s, w).
           and_then (usize_add level_node_index width) (\<lambda>level_node_index.
           and_then (usize_shr width shift) (\<lambda>width.
           Ok (level + 1, width, level_node_index, s, w)))))))))
         (0, leafs, 0, s, w))
       (\<lambda>(level, width, level_node_index, s, w).
     ensure (row_count = level + 1) InvalidRowCount (
     and_then (st_last S s w) (\<lambda>root. Ok (root, s, w)))))"

text \<open>
  \<open>process_layer\<close> hashes pieces of \<open>BUILD_CHUNK_NODES\<close> nodes in concurrent threads: each
  reads its piece under the read lock, hashes, and writes its result under the write lock. The
  piece at \<open>chunk_index\<close> is a read step and a write step; here they run one piece after the
  other, and the theory \<open>Parallel\<close> treats every other order.
\<close>

definition layer_chunk_size :: "nat \<Rightarrow> nat \<Rightarrow> nat \<Rightarrow> nat" where
  "layer_chunk_size read_start width chunk_index =
     min BUILD_CHUNK_NODES (read_start + width - chunk_index)"

definition layer_read_chunk ::
  "'e element \<Rightarrow> ('w, 's, 'e, 'z) store_ops_scheme \<Rightarrow> ('a, 'e) algorithm \<Rightarrow> nat \<Rightarrow>
     nat \<Rightarrow> nat \<Rightarrow> nat \<Rightarrow> nat \<Rightarrow> 's \<Rightarrow> 'w \<Rightarrow> byte list outcome" where
  "layer_read_chunk el S A branches width level read_start chunk_index s w =
     (let chunk_size = layer_chunk_size read_start width chunk_index in
      and_then (st_read_range S chunk_index (chunk_index + chunk_size) s w) (\<lambda>chunk_nodes.
      let hashed_nodes_as_bytes =
        fold (\<lambda>nodes acc. acc @ el_as_ref el (node_hash A level nodes)) (chunks branches chunk_nodes) [] in
      ensure (length hashed_nodes_as_bytes = chunk_size div branches * el_byte_len el) InvalidHashedNodeLength (
      Ok hashed_nodes_as_bytes)))"

definition layer_write_chunk ::
  "('w, 's, 'e, 'z) store_ops_scheme \<Rightarrow> nat \<Rightarrow> nat \<Rightarrow> nat \<Rightarrow> nat \<Rightarrow> byte list \<Rightarrow> 's \<Rightarrow> 'w \<Rightarrow> ('s \<times> 'w) outcome"
where
  "layer_write_chunk S branches read_start write_start chunk_index bytes s w =
     (let write_delta = (chunk_index - read_start) div branches in
      and_then (usize_add write_start write_delta) (\<lambda>start. st_copy_from_slice S bytes start s w))"

definition default_process_layer ::
  "'e element \<Rightarrow> ('w, 's, 'e, 'z) store_ops_scheme \<Rightarrow> ('a, 'e) algorithm \<Rightarrow> nat \<Rightarrow>
     nat \<Rightarrow> nat \<Rightarrow> nat \<Rightarrow> nat \<Rightarrow> 's \<Rightarrow> 'w \<Rightarrow> ('s \<times> 'w) outcome" where
  "default_process_layer el S A branches width level read_start write_start s w =
     and_then (usize_rem BUILD_CHUNK_NODES branches) (\<lambda>r.
     ensure (r = 0) InvalidChunkSize (
     and_then (usize_add read_start width) (\<lambda>read_end.
     for_each
       (\<lambda>chunk_index (s, w).
         and_then (layer_read_chunk el S A branches width level read_start chunk_index s w)
           (\<lambda>bytes. layer_write_chunk S branches read_start write_start chunk_index bytes s w))
       (step_range read_start read_end BUILD_CHUNK_NODES) (s, w))))"

definition default_build ::
  "('w, 's, 'e, 'z) store_ops_scheme \<Rightarrow>
     (nat \<Rightarrow> nat \<Rightarrow> nat \<Rightarrow> nat \<Rightarrow> 's \<Rightarrow> 'w \<Rightarrow> ('s \<times> 'w) outcome) \<Rightarrow>
     ('a, 'e) algorithm \<Rightarrow> nat \<Rightarrow> nat \<Rightarrow> nat \<Rightarrow> store_config option \<Rightarrow> 's \<Rightarrow> 'w \<Rightarrow> ('e \<times> 's \<times> 'w) outcome" where
  "default_build S process_layer A branches leafs row_count config s w =
     and_then (next_pow2 branches) (\<lambda>p.
     ensure (p = branches) BranchesNotPow2 (
     ensure (st_len S s = leafs) InconsistentData (
     ensure (leafs mod 2 = 0) LeafsNotEven (
     if leafs \<le> SMALL_TREE_BUILD then default_build_small_tree S A branches leafs row_count s w
     else
       (let shift = log2_pow2 branches in
        and_then
          (while_loop
            (\<lambda>(level, width, level_node_index, s, w). width > 1)
            (\<lambda>(level, width, level_node_index, s, w).
              and_then
                (if level = 0 then Ok (0, st_len S s)
                 else and_then (usize_add level_node_index width) (\<lambda>next. Ok (level_node_index, next)))
                (\<lambda>(read_start, write_start).
              and_then (process_layer width level read_start write_start s w) (\<lambda>(s, w).
              and_then (usize_add level_node_index width) (\<lambda>level_node_index.
              and_then (usize_shr width shift) (\<lambda>width.
              Ok (level + 1, width, level_node_index, s, w))))))
            (0, leafs, 0, s, w))
          (\<lambda>(level, width, level_node_index, s, w).
        ensure (row_count = level + 1) InvalidRowCount (
        and_then (st_last S s w) (\<lambda>root. Ok (root, s, w)))))))))"

text \<open>A store that overrides neither \<open>process_layer\<close> nor \<open>build\<close>.\<close>

definition with_default_build ::
  "'e element \<Rightarrow> ('w, 's, 'e) store_ops \<Rightarrow> ('w, 's, 'e, 'a) store" where
  "with_default_build el ops =
     store_ops.extend ops
       (store.fields
         (default_process_layer el ops)
         (\<lambda>A branches. default_build ops (default_process_layer el ops A branches) A branches))"

end
