(* ===== verification/Layers.thy ===== *)
theory Layers
  imports Arith
begin

text \<open>
  The specification a build is checked against: the rows of a complete tree of arity \<open>b\<close>
  over a list of leaves, their concatenation (the linear layout the crate stores), the root, and
  the recursive Merkle tree hash. The hash of a node is a function \<open>h\<close> of its level and its
  children.
\<close>

section \<open>Rows\<close>

definition next_row :: "('e list \<Rightarrow> 'e) \<Rightarrow> nat \<Rightarrow> 'e list \<Rightarrow> 'e list" where
  "next_row h b row = map h (chunks b row)"

primrec tree_row :: "(nat \<Rightarrow> 'e list \<Rightarrow> 'e) \<Rightarrow> nat \<Rightarrow> 'e list \<Rightarrow> nat \<Rightarrow> 'e list" where
  "tree_row h b xs 0 = xs"
| "tree_row h b xs (Suc j) = next_row (h j) b (tree_row h b xs j)"

primrec tree_rows :: "(nat \<Rightarrow> 'e list \<Rightarrow> 'e) \<Rightarrow> nat \<Rightarrow> 'e list \<Rightarrow> nat \<Rightarrow> 'e list" where
  "tree_rows h b xs 0 = []"
| "tree_rows h b xs (Suc j) = tree_rows h b xs j @ tree_row h b xs j"

definition tree_nodes :: "(nat \<Rightarrow> 'e list \<Rightarrow> 'e) \<Rightarrow> nat \<Rightarrow> nat \<Rightarrow> 'e list \<Rightarrow> 'e list" where
  "tree_nodes h b k xs = tree_rows h b xs (Suc k)"

definition tree_root :: "(nat \<Rightarrow> 'e list \<Rightarrow> 'e) \<Rightarrow> nat \<Rightarrow> nat \<Rightarrow> 'e list \<Rightarrow> 'e" where
  "tree_root h b k xs = hd (tree_row h b xs k)"

lemma length_next_row:
  "0 < b \<Longrightarrow> length row = q * b \<Longrightarrow> length (next_row h b row) = q"
  by (simp add: next_row_def length_chunks_exact_division)

lemma length_tree_row:
  assumes "0 < b" and "length xs = b ^ k" and "j \<le> k"
  shows "length (tree_row h b xs j) = b ^ (k - j)"
  using assms(3)
proof (induction j)
  case 0
  then show ?case by (simp add: assms)
next
  case (Suc j)
  then have "k - j = Suc (k - Suc j)" by simp
  with Suc have "length (tree_row h b xs j) = b ^ (k - Suc j) * b" by simp
  then show ?case using assms(1) by (simp add: length_next_row)
qed

lemma length_tree_rows:
  assumes "0 < b" and "length xs = b ^ k" and "j \<le> Suc k"
  shows "length (tree_rows h b xs j) = row_start b k j"
  using assms(3)
proof (induction j)
  case (Suc j)
  then show ?case using assms by (simp add: length_tree_row)
qed simp

lemma length_tree_nodes:
  "0 < b \<Longrightarrow> length xs = b ^ k \<Longrightarrow> length (tree_nodes h b k xs) = tree_len b k"
  by (simp only: tree_nodes_def length_tree_rows row_start_total)

lemma tree_rows_split:
  assumes "j < n"
  shows "\<exists>zs. tree_rows h b xs n = tree_rows h b xs j @ tree_row h b xs j @ zs"
  using assms
proof (induction n)
  case (Suc n)
  show ?case
  proof (cases "j = n")
    case False
    with Suc obtain zs where "tree_rows h b xs n = tree_rows h b xs j @ tree_row h b xs j @ zs"
      by auto
    then show ?thesis by simp
  qed simp
qed simp

lemma row_in_tree_rows:
  assumes "0 < b" and "length xs = b ^ k" and "j < n" and "j \<le> k"
  shows "take (b ^ (k - j)) (drop (row_start b k j) (tree_rows h b xs n)) = tree_row h b xs j"
proof -
  from assms(3) obtain zs where
    "tree_rows h b xs n = tree_rows h b xs j @ tree_row h b xs j @ zs"
    using tree_rows_split by blast
  moreover have "length (tree_rows h b xs j) = row_start b k j" and
    "length (tree_row h b xs j) = b ^ (k - j)"
    using assms by (simp_all add: length_tree_row length_tree_rows)
  ultimately show ?thesis by simp
qed

lemma nth_tree_rows:
  assumes "0 < b" and "length xs = b ^ k" and "j < n" and "j \<le> k" and "i < b ^ (k - j)"
  shows "tree_rows h b xs n ! (row_start b k j + i) = tree_row h b xs j ! i"
proof -
  from assms(3) obtain zs where
    "tree_rows h b xs n = tree_rows h b xs j @ tree_row h b xs j @ zs"
    using tree_rows_split by blast
  moreover have "length (tree_rows h b xs j) = row_start b k j" and
    "length (tree_row h b xs j) = b ^ (k - j)"
    using assms by (simp_all add: length_tree_row length_tree_rows)
  ultimately show ?thesis using assms(5) by (simp add: nth_append)
qed

text \<open>A node is the hash of the \<open>b\<close> nodes below it.\<close>

lemma tree_row_children:
  assumes "0 < b" and "length xs = b ^ k" and "j < k" and "i < b ^ (k - Suc j)"
  shows "tree_row h b xs (Suc j) ! i = h j (take b (drop (i * b) (tree_row h b xs j)))"
proof -
  from assms(3) have "k - j = Suc (k - Suc j)" by simp
  then have len: "length (tree_row h b xs j) = b ^ (k - Suc j) * b"
    using assms by (simp add: length_tree_row)
  with assms have "length (chunks b (tree_row h b xs j)) = b ^ (k - Suc j)"
    by (simp add: length_chunks_exact_division)
  with assms(1,4) len show ?thesis
    by (simp add: next_row_def nth_chunks)
qed

lemma last_tree_nodes:
  assumes "0 < b" and "length xs = b ^ k"
  shows "last (tree_nodes h b k xs) = tree_root h b k xs"
proof -
  have "length (tree_row h b xs k) = 1" using assms by (simp add: length_tree_row)
  then obtain r where "tree_row h b xs k = [r]" by (auto simp: length_Suc_conv)
  then show ?thesis by (simp add: tree_nodes_def tree_root_def)
qed

lemma nth_tree_nodes_root:
  assumes "0 < b" and "length xs = b ^ k"
  shows "tree_nodes h b k xs ! (tree_len b k - 1) = tree_root h b k xs"
  using last_conv_nth [of "tree_nodes h b k xs"] last_tree_nodes [OF assms, of h]
    length_tree_nodes [OF assms, of h] tree_len_pos [of b k]
  by (cases "tree_nodes h b k xs = []") auto

lemma tree_root_0 [simp]: "tree_root h b 0 xs = hd xs"
  by (simp add: tree_root_def)


section \<open>The recursive Merkle tree hash\<close>

primrec merkle_hash :: "(nat \<Rightarrow> 'e list \<Rightarrow> 'e) \<Rightarrow> nat \<Rightarrow> nat \<Rightarrow> 'e list \<Rightarrow> 'e" where
  "merkle_hash h b 0 xs = hd xs"
| "merkle_hash h b (Suc k) xs = h k (map (merkle_hash h b k) (chunks (b ^ k) xs))"

lemma tree_row_append:
  assumes "0 < b" and "length xs = q * b ^ j"
  shows "tree_row h b (xs @ ys) j = tree_row h b xs j @ tree_row h b ys j
    \<and> length (tree_row h b xs j) = q"
  using assms(2)
proof (induction j arbitrary: q)
  case (Suc j)
  have "length xs = (q * b) * b ^ j" using Suc.prems by simp
  then have "tree_row h b (xs @ ys) j = tree_row h b xs j @ tree_row h b ys j"
    and "length (tree_row h b xs j) = q * b"
    using Suc.IH by blast+
  then show ?case using assms(1)
    by (simp add: next_row_def chunks_append_mult length_chunks_exact_division)
qed simp

lemma tree_row_segments:
  assumes "0 < b" and "length xs = q * b ^ j"
  shows "tree_row h b xs j = map (tree_root h b j) (chunks (b ^ j) xs)"
  using assms(2)
proof (induction q arbitrary: xs)
  case 0
  have "tree_row h b [] j = []" by (induction j) (simp_all add: next_row_def)
  with 0 show ?case by simp
next
  case (Suc q)
  let ?ys = "take (b ^ j) xs" and ?zs = "drop (b ^ j) xs"
  have "length ?ys = 1 * b ^ j" "length ?zs = q * b ^ j" "xs \<noteq> []"
    using Suc.prems assms(1) by auto
  then have "tree_row h b (?ys @ ?zs) j = tree_row h b ?ys j @ tree_row h b ?zs j"
    and one: "length (tree_row h b ?ys j) = 1"
    using tree_row_append [OF assms(1)] by blast+
  moreover have "tree_row h b ?ys j = [tree_root h b j ?ys]"
    using one unfolding tree_root_def by (cases "tree_row h b ?ys j") auto
  ultimately show ?case
    using Suc.IH [OF \<open>length ?zs = q * b ^ j\<close>] \<open>xs \<noteq> []\<close> assms(1)
    by (simp add: chunks_step)
qed

lemma tree_root_merkle_hash:
  assumes "0 < b" and "length xs = b ^ k"
  shows "tree_root h b k xs = merkle_hash h b k xs"
  using assms(2)
proof (induction k arbitrary: xs)
  case (Suc k)
  let ?cs = "chunks (b ^ k) xs"
  have len: "length xs = b * b ^ k" using Suc.prems by simp
  then have row: "tree_row h b xs k = map (tree_root h b k) ?cs"
    by (rule tree_row_segments [OF assms(1)])
  have "length ?cs = b" using len assms(1) by (intro length_chunks_exact_division) auto
  then have "chunks b (map (tree_root h b k) ?cs) = [map (tree_root h b k) ?cs]"
    using assms(1) chunks_append [of b "map (tree_root h b k) ?cs" "[]"] by simp
  then have "tree_root h b (Suc k) xs = h k (map (tree_root h b k) ?cs)"
    by (simp add: tree_root_def next_row_def row)
  moreover have "map (tree_root h b k) ?cs = map (merkle_hash h b k) ?cs"
  proof (rule map_cong [OF refl])
    fix c
    assume "c \<in> set ?cs"
    then have "length c = b ^ k" using len assms(1) set_chunks_length [of "b ^ k" xs b c] by simp
    then show "tree_root h b k c = merkle_hash h b k c" by (rule Suc.IH)
  qed
  ultimately show ?case by simp
qed simp

end
