(* ===== verification/Store_Contract.thy ===== *)
theory Store_Contract
  imports Store Layers
begin

text \<open>
  What a tree relies on of a store, as locales: \<open>store_contract\<close> relates the methods of a
  store to the list of elements it holds, \<open>tree_store\<close> adds what \<open>build\<close> promises. The
  default bodies of \<open>build_small_tree\<close>, \<open>process_layer\<close> and \<open>build\<close> are verified once,
  inside the first locale.
\<close>

section \<open>Writing a region of a list\<close>

text \<open>
  A write may start behind the end of a store. What the slots between the old end and the
  region hold then is up to the store, and the relation leaves it open.
\<close>

definition written :: "nat \<Rightarrow> 'e list \<Rightarrow> 'e list \<Rightarrow> 'e list \<Rightarrow> bool" where
  "written i es xs ys \<longleftrightarrow>
     length ys = max (length xs) (i + length es) \<and>
     (\<forall>j < length es. ys ! (i + j) = es ! j) \<and>
     (\<forall>j < length xs. j < i \<or> i + length es \<le> j \<longrightarrow> ys ! j = xs ! j)"

lemma written_overwrite:
  assumes "i \<le> length xs"
  shows "written i es xs ys \<longleftrightarrow> ys = overwrite i es xs"
proof
  assume w: "written i es xs ys"
  show "ys = overwrite i es xs"
  proof (rule nth_equalityI)
    show "length ys = length (overwrite i es xs)"
      using w assms by (simp add: written_def length_overwrite)
    fix j
    assume j: "j < length ys"
    then have len: "j < max (length xs) (i + length es)" using w by (simp add: written_def)
    consider "j < i" | "i \<le> j" "j < i + length es" | "i + length es \<le> j" by linarith
    then show "ys ! j = overwrite i es xs ! j"
    proof cases
      case 1
      then show ?thesis using w assms by (simp add: written_def overwrite_def nth_append)
    next
      case 2
      then have "ys ! j = es ! (j - i)"
        using w unfolding written_def by (metis le_add_diff_inverse less_diff_conv2 add.commute)
      moreover have "j - i < length es" using 2 by linarith
      ultimately show ?thesis using 2 assms by (simp add: overwrite_def nth_append min_def)
    next
      case 3
      then have "j < length xs" "\<not> j - i < length es" using len by linarith+
      then show ?thesis using 3 w assms by (simp add: written_def overwrite_def nth_append min_def)
    qed
  qed
next
  assume ys: "ys = overwrite i es xs"
  show "written i es xs ys"
    using assms unfolding ys written_def
    by (auto simp: length_overwrite overwrite_def nth_append min_def)
qed

lemma written_end: "written (length xs) es xs ys \<longleftrightarrow> ys = xs @ es"
  by (simp add: written_overwrite)

lemma written_single: "i < length xs \<Longrightarrow> written i [x] xs ys \<longleftrightarrow> ys = xs[i := x]"
  by (simp add: written_overwrite overwrite_def upd_conv_take_nth_drop)


section \<open>A piece of a layer\<close>

text \<open>
  The arity divides the size of a piece, so every piece but the last has whole groups of
  children, and so has the last when the row has.
\<close>

lemma fold_append: "fold (\<lambda>x acc. acc @ f x) xs acc = acc @ concat (map f xs)"
  by (induction xs arbitrary: acc) simp_all

lemma layer_chunk_whole:
  assumes "length row = q * b" and b: "0 < b" "BUILD_CHUNK_NODES mod b = 0" and p: "p = r * b" "p < length row"
  defines "c \<equiv> min BUILD_CHUNK_NODES (length row - p)"
  shows "length (take c (drop p row)) = (c div b) * b" and "0 < c" and "p + c \<le> length row"
proof -
  have "b dvd length row - p" using assms(1) p by (simp flip: diff_mult_distrib)
  moreover have "b dvd BUILD_CHUNK_NODES" using b(2) by (simp add: dvd_eq_mod_eq_0)
  ultimately have "b dvd c" by (simp add: c_def min_def)
  then have div: "(c div b) * b = c" by simp
  show "0 < c" using p(2) by (simp add: c_def BUILD_CHUNK_NODES_def)
  show le: "p + c \<le> length row" using p(2) by (simp add: c_def)
  then show "length (take c (drop p row)) = (c div b) * b" using div by simp
qed

context element_contract
begin

lemma layer_chunk_bytes:
  assumes "length row = q * b" and b: "0 < b" "BUILD_CHUNK_NODES mod b = 0" and p: "p = r * b" "p < length row"
    and rd: "st_read_range S (rs + p) (rs + p + min BUILD_CHUNK_NODES (length row - p)) s w =
      Ok (take (min BUILD_CHUNK_NODES (length row - p)) (drop p row))"
  shows "layer_read_chunk el S A b (length row) level rs (rs + p) s w =
      Ok (concat (map (el_as_ref el) (next_row (node_hash A level) b
        (take (min BUILD_CHUNK_NODES (length row - p)) (drop p row)))))"
proof -
  let ?c = "min BUILD_CHUNK_NODES (length row - p)"
  have size: "layer_chunk_size rs (length row) (rs + p) = ?c" by (simp add: layer_chunk_size_def)
  have "length (next_row (node_hash A level) b (take ?c (drop p row))) = ?c div b"
    using layer_chunk_whole(1) [OF assms(1) b p] b(1) by (intro length_next_row)
  then have "length (concat (map (el_as_ref el) (next_row (node_hash A level) b (take ?c (drop p row))))) =
      ?c div b * el_byte_len el"
    by (simp only: length_concat_as_ref)
  then show ?thesis
    using rd by (simp add: layer_read_chunk_def Let_def size fold_append next_row_def o_def)
qed

end


section \<open>The contract of a store\<close>

text \<open>
  \<open>elems s w\<close> is what the store \<open>s\<close> holds in the world \<open>w\<close>, \<open>capacity s w\<close> how many
  elements fit, \<open>world w\<close> what every operation keeps of the world, and \<open>fresh config w\<close> says
  that no stored data exists under the configuration's name.
\<close>

locale store_contract = element_contract el
  for el :: "'e element" +
  fixes S :: "('w, 's, 'e, 'z) store_ops_scheme"
    and inv :: "'s \<Rightarrow> 'w \<Rightarrow> bool"
    and elems :: "'s \<Rightarrow> 'w \<Rightarrow> 'e list"
    and capacity :: "'s \<Rightarrow> 'w \<Rightarrow> nat"
    and world :: "'w \<Rightarrow> bool"
    and fresh :: "store_config \<Rightarrow> 'w \<Rightarrow> bool"
  assumes capacity_bytes: "inv s w \<Longrightarrow> capacity s w * el_byte_len el < usize_limit"
    and elems_capacity: "inv s w \<Longrightarrow> length (elems s w) \<le> capacity s w"
    and len_elems: "inv s w \<Longrightarrow> st_len S s = length (elems s w)"
    and is_empty_elems: "inv s w \<Longrightarrow> st_is_empty S s \<longleftrightarrow> elems s w = []"
    and sync_Ok: "inv s w \<Longrightarrow> st_sync S s w = Ok ()"
    and read_at_Ok: "inv s w \<Longrightarrow> i < length (elems s w) \<Longrightarrow> st_read_at S i s w = Ok (elems s w ! i)"
    and read_at_outside: "inv s w \<Longrightarrow> length (elems s w) \<le> i \<Longrightarrow> \<not> is_ok (st_read_at S i s w)"
    and read_range_Ok:
      "inv s w \<Longrightarrow> a < b \<Longrightarrow> b \<le> length (elems s w) \<Longrightarrow>
         st_read_range S a b s w = Ok (take (b - a) (drop a (elems s w)))"
    and write_at_Ok:
      "inv s w \<Longrightarrow> i < capacity s w \<Longrightarrow>
         \<exists>s' w'. st_write_at S x i s w = Ok (s', w') \<and> inv s' w' \<and>
           capacity s' w' = capacity s w \<and> written i [x] (elems s w) (elems s' w')"
    and copy_from_slice_Ok:
      "inv s w \<Longrightarrow> i + length es \<le> capacity s w \<Longrightarrow>
         \<exists>s' w'. st_copy_from_slice S (concat (map (el_as_ref el) es)) i s w = Ok (s', w') \<and>
           inv s' w' \<and> capacity s' w' = capacity s w \<and> written i es (elems s w) (elems s' w')"
    and new_Ok:
      "world w \<Longrightarrow> 0 < n \<Longrightarrow> n * el_byte_len el < isize_limit \<Longrightarrow>
         \<exists>s w'. st_new S n w = Ok (s, w') \<and> inv s w' \<and> elems s w' = [] \<and> n \<le> capacity s w'"
    and new_with_config_Ok:
      "world w \<Longrightarrow> fresh config w \<Longrightarrow> 0 < n \<Longrightarrow> n * el_byte_len el < isize_limit \<Longrightarrow>
         \<exists>s w'. st_new_with_config S n branches config w = Ok (s, w') \<and> inv s w' \<and>
           elems s w' = [] \<and> n \<le> capacity s w' \<and> \<not> st_loaded_from_disk S s"
    and new_from_slice_Ok:
      "world w \<Longrightarrow> 0 < n \<Longrightarrow> n * el_byte_len el < isize_limit \<Longrightarrow> length es \<le> n \<Longrightarrow>
         \<exists>s w'. st_new_from_slice S n (concat (map (el_as_ref el) es)) w = Ok (s, w') \<and>
           inv s w' \<and> elems s w' = es \<and> n \<le> capacity s w'"
    and new_from_slice_with_config_Ok:
      "world w \<Longrightarrow> fresh config w \<Longrightarrow> 0 < n \<Longrightarrow> n * el_byte_len el < isize_limit \<Longrightarrow> length es \<le> n \<Longrightarrow>
         \<exists>s w'. st_new_from_slice_with_config S n branches (concat (map (el_as_ref el) es)) config w
             = Ok (s, w') \<and> inv s w' \<and> elems s w' = es \<and> n \<le> capacity s w'"
begin

lemma capacity_word:
  assumes "inv s w"
  shows "capacity s w < usize_limit"
proof -
  have "capacity s w * 1 \<le> capacity s w * el_byte_len el"
    using byte_len_pos by (intro mult_le_mono2) simp
  then show ?thesis using capacity_bytes [OF assms] by linarith
qed

lemma last_Ok: "inv s w \<Longrightarrow> elems s w \<noteq> [] \<Longrightarrow> st_last S s w = Ok (last (elems s w))"
  by (simp add: st_last_def len_elems read_at_Ok last_conv_nth Suc_le_eq)

lemma append_at_end:
  assumes "inv s w" and "length (elems s w) < capacity s w"
  shows "\<exists>s' w'. st_write_at S x (length (elems s w)) s w = Ok (s', w') \<and> inv s' w' \<and>
    capacity s' w' = capacity s w \<and> elems s' w' = elems s w @ [x]"
  using write_at_Ok [OF assms, of x] by (auto simp: written_end)

lemma copy_at_end:
  assumes "inv s w" and "length (elems s w) + length es \<le> capacity s w"
  shows "\<exists>s' w'. st_copy_from_slice S (concat (map (el_as_ref el) es)) (length (elems s w)) s w = Ok (s', w')
    \<and> inv s' w' \<and> capacity s' w' = capacity s w \<and> elems s' w' = elems s w @ es"
  using copy_from_slice_Ok [OF assms] by (auto simp: written_end)


subsection \<open>Writing a row node by node\<close>

lemma write_row:
  assumes "inv s w" and "elems s w = xs @ ys" and "n = length ys"
    and "length xs + length ys + length zs \<le> capacity s w"
  shows "\<exists>s' w'. for_each (\<lambda>(i, node) (s, w).
        and_then (usize_add (length xs) i) (\<lambda>index. st_write_at S node index s w)) (enumerate n zs) (s, w)
      = Ok (s', w') \<and> inv s' w' \<and> capacity s' w' = capacity s w \<and> elems s' w' = xs @ ys @ zs"
  using assms
proof (induction zs arbitrary: s w ys n)
  case Nil
  then show ?case by simp
next
  case (Cons z zs)
  have "length (elems s w) < capacity s w" using Cons.prems by simp
  then obtain s1 w1 where step: "st_write_at S z (length (elems s w)) s w = Ok (s1, w1)"
    and 1: "inv s1 w1" "capacity s1 w1 = capacity s w" "elems s1 w1 = xs @ (ys @ [z])"
    using append_at_end [OF Cons.prems(1), of z] Cons.prems(2) by auto
  have "length xs + n < usize_limit"
    using capacity_word [OF Cons.prems(1)] Cons.prems(3,4) by simp
  then have "usize_add (length xs) n = Ok (length (elems s w))"
    using Cons.prems(2,3) by simp
  with step Cons.IH [OF 1(1,3), of "Suc n"] 1 Cons.prems show ?case by simp
qed


subsection \<open>build_small_tree\<close>

text \<open>The state of both build loops after \<open>level\<close> rows.\<close>

definition build_inv ::
  "('a, 'e) algorithm \<Rightarrow> nat \<Rightarrow> nat \<Rightarrow> 'e list \<Rightarrow> nat \<times> nat \<times> nat \<times> 's \<times> 'w \<Rightarrow> bool" where
  "build_inv A b k xs = (\<lambda>(level, width, level_node_index, s, w).
     level \<le> k \<and> width = b ^ (k - level) \<and> level_node_index = row_start b k level \<and> inv s w \<and>
     elems s w = tree_rows (node_hash A) b xs (Suc level) \<and> tree_len b k \<le> capacity s w)"

lemma build_positions:
  assumes "build_inv A b k xs (level, width, lni, s, w)" and "0 < b" and "length xs = b ^ k"
  shows "length (elems s w) = row_start b k (Suc level)"
    and "level = 0 \<Longrightarrow> st_len S s = row_start b k (Suc level) \<and> lni = 0"
    and "lni + width = row_start b k (Suc level)" and "row_start b k (Suc level) < usize_limit"
    and "take width (drop lni (elems s w)) = tree_row (node_hash A) b xs level"
proof -
  have *: "level \<le> k" "width = b ^ (k - level)" "lni = row_start b k level" "inv s w"
    "elems s w = tree_rows (node_hash A) b xs (Suc level)" "tree_len b k \<le> capacity s w"
    using assms(1) by (simp_all add: build_inv_def)
  show len: "length (elems s w) = row_start b k (Suc level)"
    unfolding * using assms * by (simp only: length_tree_rows Suc_le_mono)
  show "lni + width = row_start b k (Suc level)" using * by simp
  show "level = 0 \<Longrightarrow> st_len S s = row_start b k (Suc level) \<and> lni = 0"
    using len_elems [OF *(4)] len * by simp
  show "row_start b k (Suc level) < usize_limit"
    using capacity_word [OF *(4)] elems_capacity [OF *(4)] len by simp
  show "take width (drop lni (elems s w)) = tree_row (node_hash A) b xs level"
    unfolding * using assms * by (intro row_in_tree_rows) auto
qed

lemma width_above_1:
  assumes "(1 :: nat) < b ^ (k - level)" and "level \<le> k"
  shows "level < k"
  using assms by (cases "level = k") auto

lemma build_inv_step:
  assumes "build_inv A (2 ^ m) k xs (level, width, lni, s, w)" and "level < k"
    and "length xs = (2 ^ m) ^ k" and "tree_shape m k"
    and "inv s' w'" and "capacity s' w' = capacity s w"
    and "elems s' w' = elems s w @ next_row (node_hash A level) (2 ^ m) (tree_row (node_hash A) (2 ^ m) xs level)"
  shows "\<exists>t. and_then (usize_add lni width) (\<lambda>lni. and_then (usize_shr width m) (\<lambda>width.
      Ok (level + 1, width, lni, s', w'))) = Ok t
    \<and> build_inv A (2 ^ m) k xs t \<and> fst (snd t) < width"
proof -
  note * = assms(1) [unfolded build_inv_def, simplified]
  have "usize_add lni width = Ok (row_start (2 ^ m) k (Suc level))"
    using build_positions(3,4) [OF assms(1)] assms(3) by simp
  moreover have "usize_shr width m = Ok ((2 ^ m) ^ (k - Suc level))"
    using tree_shape_arity(1) [OF assms(4)] arity_div [OF assms(2), of m] * by simp
  moreover have "((2 ^ m) ^ (k - Suc level) :: nat) < (2 ^ m) ^ (k - level)"
    using assms(2,4) by (intro power_strict_increasing) (auto simp: tree_shape_def)
  ultimately show ?thesis
    using assms * by (auto simp: build_inv_def)
qed

lemma small_layer:
  assumes I: "build_inv A (2 ^ m) k xs (level, width, lni, s, w)" and w: "width > 1"
    and xs: "length xs = (2 ^ m) ^ k" and sh: "tree_shape m k"
  defines "row \<equiv> tree_row (node_hash A) (2 ^ m) xs level"
  shows "\<exists>s' w'. (\<forall>K. and_then
      (if level = 0 then Ok (0, st_len S s)
       else and_then (usize_add lni width) (\<lambda>next. Ok (lni, next)))
      (\<lambda>(read_start, write_start).
        and_then (usize_add read_start width) (\<lambda>read_end.
        and_then (st_read_range S read_start read_end s w) (\<lambda>nodes.
        and_then
          (for_each
            (\<lambda>(i, node) (s, w). and_then (usize_add write_start i) (\<lambda>index. st_write_at S node index s w))
            (enumerate 0 (map (node_hash A level) (chunks (2 ^ m) nodes))) (s, w))
          (\<lambda>(s, w). K s w)))) = K s' w')
    \<and> inv s' w' \<and> capacity s' w' = capacity s w
    \<and> elems s' w' = elems s w @ next_row (node_hash A level) (2 ^ m) row"
proof -
  note * = I [unfolded build_inv_def, simplified]
  note pos = build_positions [OF I _ xs, simplified]
  have lt: "level < k" using width_above_1 [of "2 ^ m" k level] w * by simp
  let ?ws = "length (elems s w)"
  have ends: "(if level = 0 then Ok (0, st_len S s)
       else and_then (usize_add lni width) (\<lambda>next. Ok (lni, next))) = Ok (lni, ?ws)"
    using pos by auto
  have "lni < lni + width" using w by simp
  then have rd: "st_read_range S lni (lni + width) s w = Ok row"
    using read_range_Ok [of s w lni "lni + width"] * pos unfolding row_def by simp
  have "length (next_row (node_hash A level) (2 ^ m) row) = (2 ^ m) ^ (k - Suc level)"
    using length_tree_row [of "2 ^ m" xs k "Suc level"] xs lt unfolding row_def by simp
  moreover have "row_start (2 ^ m) k (Suc level) + (2 ^ m) ^ (k - Suc level) \<le> tree_len (2 ^ m) k"
    using row_end_le [of "Suc level" k] lt by simp
  ultimately have "?ws + 0 + length (next_row (node_hash A level) (2 ^ m) row) \<le> capacity s w"
    using pos * by simp
  then obtain s' w' where "for_each
        (\<lambda>(i, node) (s, w). and_then (usize_add ?ws i) (\<lambda>index. st_write_at S node index s w))
        (enumerate 0 (next_row (node_hash A level) (2 ^ m) row)) (s, w) = Ok (s', w')"
    "inv s' w'" "capacity s' w' = capacity s w"
    "elems s' w' = elems s w @ next_row (node_hash A level) (2 ^ m) row"
    using write_row [of s w "elems s w" "[]" 0 "next_row (node_hash A level) (2 ^ m) row"] * by auto
  then show ?thesis
    using ends rd pos(3,4) by (intro exI [of _ s'] exI [of _ w']) (simp add: next_row_def [symmetric])
qed

lemma build_inv_init:
  assumes "inv s w" and "elems s w = xs" and "length xs = b ^ k" and "tree_len b k \<le> capacity s w"
  shows "build_inv A b k xs (0, length xs, 0, s, w)"
  using assms by (simp add: build_inv_def)

lemma build_inv_final:
  assumes "build_inv A (2 ^ m) k xs (level, width, lni, s, w)" and "\<not> width > 1"
    and "length xs = (2 ^ m) ^ k" and "tree_shape m k"
  shows "level = k" and "inv s w" and "elems s w = tree_nodes (node_hash A) (2 ^ m) k xs"
    and "st_last S s w = Ok (tree_root (node_hash A) (2 ^ m) k xs)"
proof -
  note * = assms(1) [unfolded build_inv_def, simplified]
  show lv: "level = k"
  proof (rule ccontr)
    assume "level \<noteq> k"
    then have "1 < ((2 ^ m) ^ (k - level) :: nat)"
      using * assms(4) by (intro one_less_power) (auto simp: tree_shape_def)
    with * assms(2) show False by simp
  qed
  show inv: "inv s w" using * by simp
  show el: "elems s w = tree_nodes (node_hash A) (2 ^ m) k xs"
    using * lv by (simp add: tree_nodes_def)
  have "0 < length (elems s w)" by (simp add: el length_tree_nodes assms(3))
  then have "elems s w \<noteq> []" by simp
  then show "st_last S s w = Ok (tree_root (node_hash A) (2 ^ m) k xs)"
    using last_Ok [OF inv] last_tree_nodes [of "2 ^ m" xs k "node_hash A"] assms(3) el by simp
qed

lemma leafs_even:
  assumes "tree_shape m k"
  shows "(2 ^ m) ^ k mod 2 = (0 :: nat)"
proof -
  have "even ((2 ^ m) ^ k :: nat)" using assms by (simp add: tree_shape_def)
  then show ?thesis by presburger
qed

text \<open>
  Both builds leave the rows of the tree in the store; the number of rows the caller passes
  is only checked at the end.
\<close>

definition build_result ::
  "('a, 'e) algorithm \<Rightarrow> nat \<Rightarrow> nat \<Rightarrow> 'e list \<Rightarrow> nat \<Rightarrow> ('e \<times> 's \<times> 'w) outcome \<Rightarrow> bool" where
  "build_result A b k xs row_count r \<longleftrightarrow>
     (if row_count = Suc k
      then \<exists>s' w'. r = Ok (tree_root (node_hash A) b k xs, s', w') \<and> inv s' w' \<and>
             elems s' w' = tree_nodes (node_hash A) b k xs
      else r = Err InvalidRowCount)"

lemma build_small_tree_result:
  assumes "inv s w" and xs: "elems s w = xs" "length xs = (2 ^ m) ^ k" and sh: "tree_shape m k"
    and cap: "tree_len (2 ^ m) k \<le> capacity s w"
  shows "build_result A (2 ^ m) k xs row_count
    (default_build_small_tree S A (2 ^ m) ((2 ^ m) ^ k) row_count s w)"
proof -
  let ?I = "build_inv A (2 ^ m) k xs"
  let ?b = "\<lambda>(level :: nat, width :: nat, lni :: nat, s :: 's, w :: 'w). width > 1"
  let ?c = "\<lambda>(level, width, lni, s, w).
    and_then
      (if level = 0 then Ok (0, st_len S s)
       else and_then (usize_add lni width) (\<lambda>next. Ok (lni, next)))
      (\<lambda>(read_start, write_start).
        and_then (usize_add read_start width) (\<lambda>read_end.
        and_then (st_read_range S read_start read_end s w) (\<lambda>nodes.
        and_then
          (for_each
            (\<lambda>(i, node) (s, w). and_then (usize_add write_start i) (\<lambda>index. st_write_at S node index s w))
            (enumerate 0 (map (node_hash A level) (chunks (2 ^ m) nodes))) (s, w))
          (\<lambda>(s, w). and_then (usize_add lni width) (\<lambda>lni. and_then (usize_shr width m) (\<lambda>width.
             Ok (level + 1, width, lni, s, w)))))))"
  have "\<exists>t. while_loop ?b ?c (0, length xs, 0, s, w) = Ok t \<and> ?I t \<and> \<not> ?b t"
  proof (rule while_loop_total [where m = "\<lambda>t. fst (snd t)"])
    show "?I (0, length xs, 0, s, w)" by (rule build_inv_init [OF assms(1-3,5)])
    fix t
    assume I: "?I t" and b: "?b t"
    obtain level width lni s1 w1 where t: "t = (level, width, lni, s1, w1)" by (cases t) auto
    from small_layer [OF I [unfolded t] _ xs(2) sh] b t obtain s' w' where
      "?c t = and_then (usize_add lni width) (\<lambda>lni. and_then (usize_shr width m) (\<lambda>width.
             Ok (level + 1, width, lni, s', w')))"
      and "inv s' w'" "capacity s' w' = capacity s1 w1"
      "elems s' w' = elems s1 w1 @ next_row (node_hash A level) (2 ^ m) (tree_row (node_hash A) (2 ^ m) xs level)"
      by auto
    moreover have "level < k"
      using I b width_above_1 [of "2 ^ m" k level] unfolding t by (simp add: build_inv_def)
    ultimately show "\<exists>u. ?c t = Ok u \<and> ?I u \<and> fst (snd u) < fst (snd t)"
      using build_inv_step [OF I [unfolded t] _ xs(2) sh] t by auto
  qed
  then obtain level width lni s1 w1 where
    loop: "while_loop ?b ?c (0, length xs, 0, s, w) = Ok (level, width, lni, s1, w1)"
    and fin: "?I (level, width, lni, s1, w1)" "\<not> width > 1" by auto
  have eq: "default_build_small_tree S A (2 ^ m) ((2 ^ m) ^ k) row_count s w =
    and_then (while_loop ?b ?c (0, length xs, 0, s, w)) (\<lambda>(level, width, lni, s, w).
      ensure (row_count = level + 1) InvalidRowCount (and_then (st_last S s w) (\<lambda>root. Ok (root, s, w))))"
    by (simp add: default_build_small_tree_def leafs_even [OF sh] xs(2) Let_def cong del: and_then_weak_cong)
  show ?thesis
    using build_inv_final [OF fin xs(2) sh] unfolding build_result_def eq loop by simp
qed


subsection \<open>process_layer\<close>

text \<open>
  A layer in the store: \<open>pre\<close> in front of it, the row that is read, and behind it what has
  been written of the next row.
\<close>

lemma layer_read_chunk_Ok:
  assumes "inv s w" and "elems s w = pre @ row @ post" and "length row = q * b"
    and b: "0 < b" "BUILD_CHUNK_NODES mod b = 0" and p: "p = r * b" "p < length row"
  defines "c \<equiv> min BUILD_CHUNK_NODES (length row - p)"
  shows "layer_read_chunk el S A b (length row) level (length pre) (length pre + p) s w =
      Ok (concat (map (el_as_ref el) (next_row (node_hash A level) b (take c (drop p row)))))"
    and "length (take c (drop p row)) = (c div b) * b" and "0 < c"
proof -
  note size = layer_chunk_whole [OF assms(3) b p, folded c_def]
  show "length (take c (drop p row)) = (c div b) * b" and "0 < c" by (rule size)+
  have "take c (drop (length pre + p) (elems s w)) = take c (drop p row)"
    using assms(2) size(3) by simp
  then have "st_read_range S (length pre + p) (length pre + p + c) s w = Ok (take c (drop p row))"
    using read_range_Ok [OF assms(1), of "length pre + p" "length pre + p + c"] size assms(2) by simp
  then show "layer_read_chunk el S A b (length row) level (length pre) (length pre + p) s w =
      Ok (concat (map (el_as_ref el) (next_row (node_hash A level) b (take c (drop p row)))))"
    unfolding c_def by (rule layer_chunk_bytes [OF assms(3) b p])
qed

lemma process_layer_from:
  assumes "inv s w" and "elems s w = pre @ row @ next_row (node_hash A level) b (take p row)"
    and "length row = q * b" and "0 < b" and "BUILD_CHUNK_NODES mod b = 0" and "p = r * b" and "p \<le> length row"
    and "length pre + length row + q \<le> capacity s w"
  shows "\<exists>s' w'. for_each
      (\<lambda>chunk_index (s, w).
        and_then (layer_read_chunk el S A b (length row) level (length pre) chunk_index s w)
          (\<lambda>bytes. layer_write_chunk S b (length pre) (length pre + length row) chunk_index bytes s w))
      (step_range (length pre + p) (length pre + length row) BUILD_CHUNK_NODES) (s, w) = Ok (s', w')
    \<and> inv s' w' \<and> capacity s' w' = capacity s w
    \<and> elems s' w' = pre @ row @ next_row (node_hash A level) b row"
  using assms
proof (induction "length row - p" arbitrary: p r s w rule: less_induct)
  case less
  note prems = less.prems
  show ?case
  proof (cases "p = length row")
    case True
    then show ?thesis using prems by simp
  next
    case False
    then have lt: "p < length row" using prems(7) by simp
    let ?c = "min BUILD_CHUNK_NODES (length row - p)"
    let ?new = "next_row (node_hash A level) b (take ?c (drop p row))"
    note rd = layer_read_chunk_Ok [OF prems(1-6) lt]
    have len_done: "length (next_row (node_hash A level) b (take p row)) = r"
      using prems(4,6,7) by (intro length_next_row) auto
    have len_new: "length ?new = ?c div b"
      using rd(2) prems(4) by (intro length_next_row)
    have "p + ?c \<le> length row" using lt by simp
    moreover have pc: "p + ?c = (r + ?c div b) * b"
      using rd(2) lt prems(6) by (simp add: distrib_right)
    ultimately have le: "r + ?c div b \<le> q"
      using prems(3,4) by (metis mult_le_cancel2)
    have pos: "length pre + length row + p div b = length (elems s w)"
      using prems(2,4,6) len_done by simp
    have fits: "length (elems s w) + length ?new \<le> capacity s w"
      using prems(2,8) len_done len_new le by simp
    then obtain s1 w1 where
      wr: "st_copy_from_slice S (concat (map (el_as_ref el) ?new)) (length (elems s w)) s w = Ok (s1, w1)"
      and 1: "inv s1 w1" "capacity s1 w1 = capacity s w" "elems s1 w1 = elems s w @ ?new"
      using copy_at_end [OF prems(1)] by blast
    have "length (elems s w) < usize_limit"
      using fits capacity_word [OF prems(1)] by simp
    with wr pos have wr': "layer_write_chunk S b (length pre) (length pre + length row) (length pre + p)
        (concat (map (el_as_ref el) ?new)) s w = Ok (s1, w1)"
      by (simp add: layer_write_chunk_def)
    have "take (p + ?c) row = take p row @ take ?c (drop p row)" by (simp add: take_add)
    then have el1: "elems s1 w1 = pre @ row @ next_row (node_hash A level) b (take (p + ?c) row)"
      using 1(3) prems(2,4,6,7) chunks_append_mult [of b "take p row" r "take ?c (drop p row)"]
      by (simp add: next_row_def)
    have "step_range (length pre + (p + BUILD_CHUNK_NODES)) (length pre + length row) BUILD_CHUNK_NODES =
        step_range (length pre + (p + ?c)) (length pre + length row) BUILD_CHUNK_NODES"
    proof (cases "BUILD_CHUNK_NODES \<le> length row - p")
      case False
      then show ?thesis by simp
    qed simp
    then have steps: "step_range (length pre + p) (length pre + length row) BUILD_CHUNK_NODES =
        (length pre + p) # step_range (length pre + (p + ?c)) (length pre + length row) BUILD_CHUNK_NODES"
      using lt by (subst step_range.simps) (simp add: add.assoc BUILD_CHUNK_NODES_def)
    have "length row - (p + ?c) < length row - p" using rd(3) lt by linarith
    then have "\<exists>s' w'. for_each
      (\<lambda>chunk_index (s, w).
        and_then (layer_read_chunk el S A b (length row) level (length pre) chunk_index s w)
          (\<lambda>bytes. layer_write_chunk S b (length pre) (length pre + length row) chunk_index bytes s w))
      (step_range (length pre + (p + ?c)) (length pre + length row) BUILD_CHUNK_NODES) (s1, w1) = Ok (s', w')
    \<and> inv s' w' \<and> capacity s' w' = capacity s1 w1
    \<and> elems s' w' = pre @ row @ next_row (node_hash A level) b row"
      using less.hyps [OF _ 1(1) el1 prems(3-5) pc \<open>p + ?c \<le> length row\<close>] prems(8) 1(2) by simp
    then show ?thesis
      unfolding steps using rd(1) [of A level] wr' 1(2) by simp
  qed
qed

lemma process_layer_Ok:
  assumes "inv s w" and "elems s w = pre @ row" and "length row = q * b" and "0 < b"
    and "BUILD_CHUNK_NODES mod b = 0" and "length pre + length row + q \<le> capacity s w"
  shows "\<exists>s' w'. default_process_layer el S A b (length row) level (length pre) (length pre + length row) s w
      = Ok (s', w') \<and> inv s' w' \<and> capacity s' w' = capacity s w
    \<and> elems s' w' = elems s w @ next_row (node_hash A level) b row"
proof -
  have "length pre + length row < usize_limit"
    using assms(6) capacity_word [OF assms(1)] by simp
  then show ?thesis
    using process_layer_from [OF assms(1) _ assms(3-5), of pre A level 0 0] assms(2,4-6)
    by (simp add: default_process_layer_def next_row_def)
qed


subsection \<open>build\<close>

text \<open>What \<open>build\<close> needs of \<open>process_layer\<close>, so that a store may bring its own.\<close>

definition layer_builder ::
  "('a, 'e) algorithm \<Rightarrow> nat \<Rightarrow> (nat \<Rightarrow> nat \<Rightarrow> nat \<Rightarrow> nat \<Rightarrow> 's \<Rightarrow> 'w \<Rightarrow> ('s \<times> 'w) outcome) \<Rightarrow> bool" where
  "layer_builder A b process_layer \<longleftrightarrow>
     (\<forall>s w pre row q level. inv s w \<longrightarrow> elems s w = pre @ row \<longrightarrow> length row = q * b \<longrightarrow>
        length pre + length row + q \<le> capacity s w \<longrightarrow>
        (\<exists>s' w'. process_layer (length row) level (length pre) (length pre + length row) s w = Ok (s', w') \<and>
           inv s' w' \<and> capacity s' w' = capacity s w \<and>
           elems s' w' = elems s w @ next_row (node_hash A level) b row))"

lemma default_layer_builder:
  assumes "0 < b" and "BUILD_CHUNK_NODES mod b = 0"
  shows "layer_builder A b (default_process_layer el S A b)"
  unfolding layer_builder_def
proof (intro allI impI)
  fix s w pre row q level
  assume "inv s w" "elems s w = pre @ row" "length row = q * b"
    "length pre + length row + q \<le> capacity s w"
  then show "\<exists>s' w'. default_process_layer el S A b (length row) level (length pre) (length pre + length row) s w
      = Ok (s', w') \<and> inv s' w' \<and> capacity s' w' = capacity s w
      \<and> elems s' w' = elems s w @ next_row (node_hash A level) b row"
    using assms by (intro process_layer_Ok)
qed

lemma large_layer:
  assumes I: "build_inv A (2 ^ m) k xs (level, width, lni, s, w)" and w: "width > 1"
    and xs: "length xs = (2 ^ m) ^ k" and sh: "tree_shape m k"
    and pl: "layer_builder A (2 ^ m) process_layer"
  defines "row \<equiv> tree_row (node_hash A) (2 ^ m) xs level"
  shows "\<exists>s' w'. (\<forall>K. and_then
      (if level = 0 then Ok (0, st_len S s)
       else and_then (usize_add lni width) (\<lambda>next. Ok (lni, next)))
      (\<lambda>(read_start, write_start).
        and_then (process_layer width level read_start write_start s w) (\<lambda>(s, w). K s w)) = K s' w')
    \<and> inv s' w' \<and> capacity s' w' = capacity s w
    \<and> elems s' w' = elems s w @ next_row (node_hash A level) (2 ^ m) row"
proof -
  note * = I [unfolded build_inv_def, simplified]
  note pos = build_positions [OF I _ xs, simplified]
  have lt: "level < k" using width_above_1 [of "2 ^ m" k level] w * by simp
  have ends: "(if level = 0 then Ok (0, st_len S s)
       else and_then (usize_add lni width) (\<lambda>next. Ok (lni, next))) = Ok (lni, lni + width)"
    using pos by auto
  have "drop lni (elems s w) = row" using pos(1,3,5) unfolding row_def by simp
  moreover have "length (take lni (elems s w)) = lni" using pos(1,3) by simp
  ultimately obtain pre where split: "elems s w = pre @ row" and pre: "length pre = lni"
    by (metis append_take_drop_id)
  have len: "length pre = lni" "length row = width"
    using pre * by (auto simp: row_def xs length_tree_row)
  have exp: "k - level = Suc (k - Suc level)" using lt by simp
  have q: "length row = (2 ^ m) ^ (k - Suc level) * 2 ^ m"
    using len(2) * exp by simp
  have "row_start (2 ^ m) k (Suc level) + (2 ^ m) ^ (k - Suc level) \<le> tree_len (2 ^ m) k"
    using row_end_le [of "Suc level" k] lt by simp
  then have "length pre + length row + (2 ^ m) ^ (k - Suc level) \<le> capacity s w"
    using pos(3) * len by simp
  then obtain s' w' where "process_layer (length row) level (length pre) (length pre + length row) s w = Ok (s', w')"
    "inv s' w'" "capacity s' w' = capacity s w"
    "elems s' w' = elems s w @ next_row (node_hash A level) (2 ^ m) row"
    using pl split q * unfolding layer_builder_def by blast
  then show ?thesis
    unfolding len using ends by (intro exI [of _ s'] exI [of _ w']) simp
qed

lemma default_build_result:
  assumes "inv s w" and xs: "elems s w = xs" "length xs = (2 ^ m) ^ k" and sh: "tree_shape m k"
    and cap: "tree_len (2 ^ m) k \<le> capacity s w" and pl: "layer_builder A (2 ^ m) process_layer"
  shows "build_result A (2 ^ m) k xs row_count
    (default_build S process_layer A (2 ^ m) ((2 ^ m) ^ k) row_count config s w)"
proof -
  let ?I = "build_inv A (2 ^ m) k xs"
  let ?b = "\<lambda>(level :: nat, width :: nat, lni :: nat, s :: 's, w :: 'w). width > 1"
  let ?c = "\<lambda>(level, width, lni, s, w).
    and_then
      (if level = 0 then Ok (0, st_len S s)
       else and_then (usize_add lni width) (\<lambda>next. Ok (lni, next)))
      (\<lambda>(read_start, write_start).
        and_then (process_layer width level read_start write_start s w)
          (\<lambda>(s, w). and_then (usize_add lni width) (\<lambda>lni. and_then (usize_shr width m) (\<lambda>width.
             Ok (level + 1, width, lni, s, w)))))"
  have "\<exists>t. while_loop ?b ?c (0, length xs, 0, s, w) = Ok t \<and> ?I t \<and> \<not> ?b t"
  proof (rule while_loop_total [where m = "\<lambda>t. fst (snd t)"])
    show "?I (0, length xs, 0, s, w)" by (rule build_inv_init [OF assms(1-3,5)])
    fix t
    assume I: "?I t" and b: "?b t"
    obtain level width lni s1 w1 where t: "t = (level, width, lni, s1, w1)" by (cases t) auto
    from large_layer [OF I [unfolded t] _ xs(2) sh pl] b t obtain s' w' where
      "?c t = and_then (usize_add lni width) (\<lambda>lni. and_then (usize_shr width m) (\<lambda>width.
             Ok (level + 1, width, lni, s', w')))"
      and "inv s' w'" "capacity s' w' = capacity s1 w1"
      "elems s' w' = elems s1 w1 @ next_row (node_hash A level) (2 ^ m) (tree_row (node_hash A) (2 ^ m) xs level)"
      by auto
    moreover have "level < k"
      using I b width_above_1 [of "2 ^ m" k level] unfolding t by (simp add: build_inv_def)
    ultimately show "\<exists>u. ?c t = Ok u \<and> ?I u \<and> fst (snd u) < fst (snd t)"
      using build_inv_step [OF I [unfolded t] _ xs(2) sh] t by auto
  qed
  then obtain level width lni s1 w1 where
    loop: "while_loop ?b ?c (0, length xs, 0, s, w) = Ok (level, width, lni, s1, w1)"
    and fin: "?I (level, width, lni, s1, w1)" "\<not> width > 1" by auto
  show ?thesis
  proof (cases "(2 ^ m :: nat) ^ k \<le> SMALL_TREE_BUILD")
    case True
    then show ?thesis
      using build_small_tree_result [OF assms(1-5)] leafs_even [OF sh] len_elems [OF assms(1)] xs
        tree_shape_branches_pow2 [OF sh] by (simp add: default_build_def)
  next
    case False
    have eq: "default_build S process_layer A (2 ^ m) ((2 ^ m) ^ k) row_count config s w =
      and_then (while_loop ?b ?c (0, length xs, 0, s, w)) (\<lambda>(level, width, lni, s, w).
        ensure (row_count = level + 1) InvalidRowCount (and_then (st_last S s w) (\<lambda>root. Ok (root, s, w))))"
      using False leafs_even [OF sh] len_elems [OF assms(1)] xs tree_shape_branches_pow2 [OF sh]
      by (simp add: default_build_def Let_def cong del: and_then_weak_cong)
    show ?thesis
      using build_inv_final [OF fin xs(2) sh] unfolding build_result_def eq loop by simp
  qed
qed

lemma default_build_inconsistent:
  assumes "inv s w" and "length (elems s w) \<noteq> leafs" and "m < 64"
  shows "default_build S process_layer A (2 ^ m) leafs row_count config s w = Err InconsistentData"
  using assms len_elems [OF assms(1)] by (simp add: default_build_def)

end


section \<open>A store a tree can be built in\<close>

lemma chunk_nodes_mod: "m \<le> 12 \<Longrightarrow> BUILD_CHUNK_NODES mod 2 ^ m = 0"
proof -
  assume "m \<le> 12"
  then have "(2 :: nat) ^ m dvd 2 ^ 12" by (rule le_imp_power_dvd)
  then show ?thesis by (simp add: BUILD_CHUNK_NODES_def dvd_eq_mod_eq_0)
qed

text \<open>
  \<open>build\<close> turns a store that holds the leaves into one that holds the rows of the tree and
  returns the root; it refuses a wrong number of leaves and a wrong number of rows. Arities above
  \<open>2 ^ 12\<close> do not divide \<open>BUILD_CHUNK_NODES\<close> and are left out.
\<close>

locale tree_store = store_contract el S inv elems capacity world fresh
  for el :: "'e element" and S :: "('w, 's, 'e, 'a) store"
    and inv elems capacity world fresh +
  assumes build_Ok:
      "inv s w \<Longrightarrow> elems s w = xs \<Longrightarrow> length xs = (2 ^ m) ^ k \<Longrightarrow> tree_shape m k \<Longrightarrow> m \<le> 12 \<Longrightarrow>
         tree_len (2 ^ m) k \<le> capacity s w \<Longrightarrow>
         build_result A (2 ^ m) k xs row_count (st_build S A (2 ^ m) ((2 ^ m) ^ k) row_count config s w)"
    and build_inconsistent:
      "inv s w \<Longrightarrow> length (elems s w) \<noteq> leafs \<Longrightarrow> m < 64 \<Longrightarrow>
         st_build S A (2 ^ m) leafs row_count config s w = Err InconsistentData"

lemma with_default_build_ops [simp]:
  "st_len (with_default_build el ops) = st_len ops"
  "st_new (with_default_build el ops) = st_new ops"
  "st_new_with_config (with_default_build el ops) = st_new_with_config ops"
  "st_new_from_slice (with_default_build el ops) = st_new_from_slice ops"
  "st_new_from_slice_with_config (with_default_build el ops) = st_new_from_slice_with_config ops"
  "st_new_from_disk (with_default_build el ops) = st_new_from_disk ops"
  "st_write_at (with_default_build el ops) = st_write_at ops"
  "st_copy_from_slice (with_default_build el ops) = st_copy_from_slice ops"
  "st_compact (with_default_build el ops) = st_compact ops"
  "st_reinit (with_default_build el ops) = st_reinit ops"
  "st_delete (with_default_build el ops) = st_delete ops"
  "st_read_at (with_default_build el ops) = st_read_at ops"
  "st_read_range (with_default_build el ops) = st_read_range ops"
  "st_read_into (with_default_build el ops) = st_read_into ops"
  "st_read_range_into (with_default_build el ops) = st_read_range_into ops"
  "st_loaded_from_disk (with_default_build el ops) = st_loaded_from_disk ops"
  "st_is_empty (with_default_build el ops) = st_is_empty ops"
  "st_push (with_default_build el ops) = st_push ops"
  "st_sync (with_default_build el ops) = st_sync ops"
  "st_build (with_default_build el ops) =
     (\<lambda>A branches. default_build ops (default_process_layer el ops A branches) A branches)"
  by (simp_all add: with_default_build_def store_ops.defs store.defs)

text \<open>
  A store with the default bodies and a correct set of basic methods is one a tree can be
  built in.
\<close>

lemma default_tree_store:
  assumes "store_contract el ops valid elems capacity world fresh"
  shows "tree_store el (with_default_build el ops) valid elems capacity world fresh"
proof -
  note c = assms
  have contract: "store_contract el (with_default_build el ops) valid elems capacity world fresh"
    using c by (simp add: store_contract_def store_contract_axioms_def)
  show ?thesis
  proof (intro tree_store.intro contract tree_store_axioms.intro)
    fix s w xs m k A row_count config
    assume *: "valid s w" "elems s w = xs" "length xs = (2 ^ m) ^ k" "tree_shape m k" "m \<le> 12"
      "tree_len (2 ^ m) k \<le> capacity s w"
    have "store_contract.layer_builder valid elems capacity A (2 ^ m) (default_process_layer el ops A (2 ^ m))"
      using *(5) by (intro store_contract.default_layer_builder [OF c]) (simp_all add: chunk_nodes_mod)
    then show "store_contract.build_result valid elems A (2 ^ m) k xs row_count
        (st_build (with_default_build el ops) A (2 ^ m) ((2 ^ m) ^ k) row_count config s w)"
      using store_contract.default_build_result [OF c *(1-4,6)] by simp
  next
    fix s w leafs m A row_count config
    assume "valid s w" "length (elems s w) \<noteq> leafs" "m < (64 :: nat)"
    then show "st_build (with_default_build el ops) A (2 ^ m) leafs row_count config s w = Err InconsistentData"
      using store_contract.default_build_inconsistent [OF c] by simp
  qed
qed

end
