(* ===== verification/Vec_Store.thy ===== *)
theory Vec_Store
  imports Store_Contract
begin

text \<open>
  \<open>VecStore\<close> of \<open>src/store/vec.rs\<close>: a vector of elements in memory. It leaves the world
  alone, so the world's type stays open. Allocation always succeeds here: the capacity that
  \<open>Vec::with_capacity\<close> and \<open>reserve\<close> ask for has no effect on the contents.
\<close>

type_synonym 'e vec_store = "'e list"

definition vec_resize :: "nat \<Rightarrow> 'e \<Rightarrow> 'e list \<Rightarrow> 'e list" where
  "vec_resize n x v = (if n \<le> length v then take n v else v @ replicate (n - length v) x)"

definition vec_new :: "nat \<Rightarrow> 'w \<Rightarrow> ('e vec_store \<times> 'w) outcome" where
  "vec_new n w = Ok ([], w)"

definition vec_new_with_config ::
  "nat \<Rightarrow> nat \<Rightarrow> store_config \<Rightarrow> 'w \<Rightarrow> ('e vec_store \<times> 'w) outcome" where
  "vec_new_with_config n branches config w = vec_new n w"

definition vec_write_at ::
  "'e element \<Rightarrow> 'e \<Rightarrow> nat \<Rightarrow> 'e vec_store \<Rightarrow> 'w \<Rightarrow> ('e vec_store \<times> 'w) outcome" where
  "vec_write_at el x index s w =
     and_then
       (if length s \<le> index
        then and_then (usize_add index 1) (\<lambda>n. Ok (vec_resize n (el_default el) s))
        else Ok s)
       (\<lambda>s. panic_unless (index < length s) IndexOutOfBounds (Ok (s[index := x], w)))"

definition vec_copy_from_slice ::
  "'e element \<Rightarrow> byte list \<Rightarrow> nat \<Rightarrow> 'e vec_store \<Rightarrow> 'w \<Rightarrow> ('e vec_store \<times> 'w) outcome" where
  "vec_copy_from_slice el buf start s w =
     and_then (usize_rem (length buf) (el_byte_len el)) (\<lambda>r.
     ensure (r = 0) BufNotMultiple (
     let num_elem = length buf div el_byte_len el in
     and_then (usize_add start num_elem) (\<lambda>end'.
     let s = (if length s < end' then vec_resize end' (el_default el) s else s) in
     and_then (map_outcome (el_from_slice el) (chunks_exact (el_byte_len el) buf)) (\<lambda>es.
     Ok (take start s @ es @ drop end' s, w)))))"

definition vec_new_from_slice ::
  "'e element \<Rightarrow> nat \<Rightarrow> byte list \<Rightarrow> 'w \<Rightarrow> ('e vec_store \<times> 'w) outcome" where
  "vec_new_from_slice el n data w =
     panic_unless (el_byte_len el \<noteq> 0) AssertFailed (
     and_then (map_outcome (el_from_slice el) (chunks_exact (el_byte_len el) data)) (\<lambda>v.
     and_then (usize_sub n (length v)) (\<lambda>additional. Ok (v, w))))"

definition vec_new_from_slice_with_config ::
  "'e element \<Rightarrow> nat \<Rightarrow> nat \<Rightarrow> byte list \<Rightarrow> store_config \<Rightarrow> 'w \<Rightarrow> ('e vec_store \<times> 'w) outcome" where
  "vec_new_from_slice_with_config el n branches data config w = vec_new_from_slice el n data w"

definition vec_new_from_disk ::
  "nat \<Rightarrow> nat \<Rightarrow> store_config \<Rightarrow> 'w \<Rightarrow> ('e vec_store \<times> 'w) outcome" where
  "vec_new_from_disk n branches config w = Panic NotImplemented"

definition vec_read_at :: "nat \<Rightarrow> 'e vec_store \<Rightarrow> 'w \<Rightarrow> 'e outcome" where
  "vec_read_at index s w = index_at s index"

definition vec_read_into ::
  "'e element \<Rightarrow> nat \<Rightarrow> byte list \<Rightarrow> 'e vec_store \<Rightarrow> 'w \<Rightarrow> byte list outcome" where
  "vec_read_into el index buf s w = and_then (index_at s index) (\<lambda>x. el_copy_to_slice el x buf)"

definition vec_read_range_into ::
  "nat \<Rightarrow> nat \<Rightarrow> byte list \<Rightarrow> 'e vec_store \<Rightarrow> 'w \<Rightarrow> byte list outcome" where
  "vec_read_range_into start end' buf s w = Panic NotImplemented"

definition vec_read_range :: "nat \<Rightarrow> nat \<Rightarrow> 'e vec_store \<Rightarrow> 'w \<Rightarrow> 'e list outcome" where
  "vec_read_range a b s w = slice_of s a b"

definition vec_len :: "'e vec_store \<Rightarrow> nat" where
  "vec_len s = length s"

definition vec_loaded_from_disk :: "'e vec_store \<Rightarrow> bool" where
  "vec_loaded_from_disk s = False"

definition vec_compact ::
  "nat \<Rightarrow> store_config \<Rightarrow> nat \<Rightarrow> 'e vec_store \<Rightarrow> 'w \<Rightarrow> (bool \<times> 'e vec_store \<times> 'w) outcome" where
  "vec_compact branches config store_version s w = Ok (True, s, w)"

definition vec_delete :: "store_config \<Rightarrow> 'w \<Rightarrow> 'w outcome" where
  "vec_delete config w = Ok w"

definition vec_is_empty :: "'e vec_store \<Rightarrow> bool" where
  "vec_is_empty s \<longleftrightarrow> s = []"

definition vec_push :: "'e \<Rightarrow> 'e vec_store \<Rightarrow> 'w \<Rightarrow> ('e vec_store \<times> 'w) outcome" where
  "vec_push x s w = Ok (s @ [x], w)"

definition vec_store_ops :: "'e element \<Rightarrow> ('w, 'e vec_store, 'e) store_ops" where
  "vec_store_ops el =
     \<lparr>st_new_with_config = vec_new_with_config,
      st_new = vec_new,
      st_new_from_slice_with_config = vec_new_from_slice_with_config el,
      st_new_from_slice = vec_new_from_slice el,
      st_new_from_disk = vec_new_from_disk,
      st_write_at = vec_write_at el,
      st_copy_from_slice = vec_copy_from_slice el,
      st_compact = vec_compact,
      st_reinit = default_reinit,
      st_delete = vec_delete,
      st_read_at = vec_read_at,
      st_read_range = vec_read_range,
      st_read_into = vec_read_into el,
      st_read_range_into = vec_read_range_into,
      st_len = vec_len,
      st_loaded_from_disk = vec_loaded_from_disk,
      st_is_empty = vec_is_empty,
      st_push = vec_push,
      st_sync = default_sync\<rparr>"

definition vec_store :: "'e element \<Rightarrow> ('w, 'e vec_store, 'e, 'a) store" where
  "vec_store el = with_default_build el (vec_store_ops el)"

lemmas vec_defs =
  vec_store_ops_def vec_new_with_config_def vec_new_def vec_new_from_slice_with_config_def
  vec_new_from_slice_def vec_new_from_disk_def vec_write_at_def vec_copy_from_slice_def
  vec_compact_def vec_delete_def vec_read_at_def vec_read_range_def vec_read_into_def
  vec_read_range_into_def vec_len_def vec_loaded_from_disk_def vec_is_empty_def vec_push_def
  default_reinit_def default_sync_def


section \<open>The contract\<close>

text \<open>No vector takes more than \<open>isize::MAX\<close> bytes.\<close>

definition vec_capacity :: "'e element \<Rightarrow> nat" where
  "vec_capacity el = (isize_limit - 1) div el_byte_len el"

definition vec_inv :: "'e element \<Rightarrow> 'e vec_store \<Rightarrow> bool" where
  "vec_inv el s \<longleftrightarrow> length s \<le> vec_capacity el"

lemma vec_capacity_bound: "vec_capacity el * el_byte_len el < usize_limit"
  unfolding vec_capacity_def
  by (rule le_less_trans [OF div_times_less_eq_dividend]) simp

lemma vec_capacity_word:
  assumes "0 < el_byte_len el"
  shows "vec_capacity el < usize_limit"
  unfolding vec_capacity_def by (rule le_less_trans [OF div_le_dividend]) simp

lemma vec_write_at_written:
  assumes "i + 1 < usize_limit"
  shows "\<exists>s'. vec_write_at el x i s w = Ok (s', w) \<and> written i [x] s s'"
proof (cases "length s \<le> i")
  case True
  let ?s = "vec_resize (i + 1) (el_default el) s"
  have "length ?s = Suc i" "\<And>j. j < length s \<Longrightarrow> ?s ! j = s ! j"
    using True by (simp_all add: vec_resize_def nth_append)
  with True assms show ?thesis
    by (intro exI [of _ "?s[i := x]"]) (simp add: vec_write_at_def written_def)
next
  case False
  then show ?thesis by (simp add: vec_write_at_def written_single)
qed

lemma vec_resize_written:
  assumes s': "s' = (if length s < i + length es then vec_resize (i + length es) d s else s)"
  shows "written i es s (take i s' @ es @ drop (i + length es) s')"
proof -
  have len: "length s' = max (length s) (i + length es)"
    and nth: "\<And>j. j < length s \<Longrightarrow> s' ! j = s ! j"
    by (auto simp: s' vec_resize_def nth_append)
  have "take i s' @ es @ drop (i + length es) s' = overwrite i es s'"
    by (simp add: overwrite_def)
  moreover have "written i es s' (overwrite i es s')"
    using len by (simp add: written_overwrite)
  ultimately show ?thesis using len nth by (auto simp: written_def)
qed

lemma vec_fits:
  assumes "el_byte_len el > 0" and "n * el_byte_len el < isize_limit"
  shows "n \<le> vec_capacity el"
  using assms by (simp add: vec_capacity_def less_eq_div_iff_mult_less_eq)

context element_contract
begin

lemma vec_copy_written:
  assumes "i + length es < usize_limit"
  shows "\<exists>s'. vec_copy_from_slice el (concat (map (el_as_ref el) es)) i s w = Ok (s', w) \<and> written i es s s'"
  using vec_resize_written [where s = s and i = i and es = es and d = "el_default el", OF refl] assms byte_len_pos
  by (simp add: vec_copy_from_slice_def Let_def length_concat_mod length_concat_div decode_encode
      split: if_splits)

lemma vec_from_slice:
  assumes "length es \<le> n"
  shows "vec_new_from_slice el n (concat (map (el_as_ref el) es)) w = Ok (es, w)"
  using assms byte_len_pos by (simp add: vec_new_from_slice_def decode_encode)

lemma vec_store_contract:
  "store_contract el (vec_store_ops el :: ('w, 'e vec_store, 'e) store_ops)
    (\<lambda>s w. vec_inv el s) (\<lambda>s w. s) (\<lambda>s w. vec_capacity el) (\<lambda>w. True) (\<lambda>config w. True)"
proof
  fix s :: "'e vec_store" and w :: 'w and i :: nat and x :: 'e and es :: "'e list"
  assume inv: "vec_inv el s"
  have word: "vec_capacity el < usize_limit" using byte_len_pos by (rule vec_capacity_word)
  show "vec_capacity el * el_byte_len el < usize_limit" by (rule vec_capacity_bound)
  show "length s \<le> vec_capacity el" using inv by (simp add: vec_inv_def)
  {
    assume i: "i < vec_capacity el"
    then obtain s' where "vec_write_at el x i s w = Ok (s', w)" "written i [x] s s'"
      using vec_write_at_written [of i el x s w] word by auto
    with i inv show "\<exists>s' w'. st_write_at (vec_store_ops el) x i s w = Ok (s', w') \<and> vec_inv el s' \<and>
        vec_capacity el = vec_capacity el \<and> written i [x] s s'"
      by (intro exI [of _ s'] exI [of _ w]) (auto simp: vec_store_ops_def written_def vec_inv_def)
  }
  {
    assume i: "i + length es \<le> vec_capacity el"
    then obtain s' where "vec_copy_from_slice el (concat (map (el_as_ref el) es)) i s w = Ok (s', w)"
      "written i es s s'"
      using vec_copy_written [of i es s w] word by auto
    with i inv show "\<exists>s' w'. st_copy_from_slice (vec_store_ops el) (concat (map (el_as_ref el) es)) i s w
        = Ok (s', w') \<and> vec_inv el s' \<and> vec_capacity el = vec_capacity el \<and> written i es s s'"
      by (intro exI [of _ s'] exI [of _ w]) (auto simp: vec_store_ops_def written_def vec_inv_def)
  }
next
  fix w :: 'w and n :: nat and es :: "'e list" and config branches
  assume n: "n * el_byte_len el < isize_limit"
  have le: "n \<le> vec_capacity el" using byte_len_pos n by (rule vec_fits)
  show "\<exists>s w'. st_new (vec_store_ops el) n w = Ok (s, w') \<and> vec_inv el s \<and> s = [] \<and> n \<le> vec_capacity el"
    using le by (simp add: vec_store_ops_def vec_new_def vec_inv_def)
  show "\<exists>s w'. st_new_with_config (vec_store_ops el) n branches config w = Ok (s, w') \<and> vec_inv el s \<and>
      s = [] \<and> n \<le> vec_capacity el \<and> \<not> st_loaded_from_disk (vec_store_ops el) s"
    using le by (simp add: vec_store_ops_def vec_new_def vec_new_with_config_def vec_inv_def
        vec_loaded_from_disk_def)
  assume "length es \<le> n"
  then show "\<exists>s w'. st_new_from_slice (vec_store_ops el) n (concat (map (el_as_ref el) es)) w = Ok (s, w') \<and>
      vec_inv el s \<and> s = es \<and> n \<le> vec_capacity el"
    and "\<exists>s w'. st_new_from_slice_with_config (vec_store_ops el) n branches (concat (map (el_as_ref el) es)) config w
      = Ok (s, w') \<and> vec_inv el s \<and> s = es \<and> n \<le> vec_capacity el"
    using le by (simp_all add: vec_store_ops_def vec_new_from_slice_with_config_def vec_from_slice vec_inv_def)
qed (simp_all add: vec_defs)

lemma vec_tree_store:
  "tree_store el (vec_store el :: ('w, 'e vec_store, 'e, 'a) store)
    (\<lambda>s w. vec_inv el s) (\<lambda>s w. s) (\<lambda>s w. vec_capacity el) (\<lambda>w. True) (\<lambda>config w. True)"
proof -
  have c: "store_contract el (vec_store_ops el :: ('w, 'e vec_store, 'e) store_ops)
    (\<lambda>s w. vec_inv el s) (\<lambda>s w. s) (\<lambda>s w. vec_capacity el) (\<lambda>w. True) (\<lambda>config w. True)"
    by (rule vec_store_contract)
  show ?thesis
    by (rule default_tree_store [OF c, folded vec_store_def])
qed

end

interpretation bytes32_vec: tree_store bytes32_element "vec_store bytes32_element"
  "\<lambda>s w. vec_inv bytes32_element s" "\<lambda>s w. s" "\<lambda>s w. vec_capacity bytes32_element" "\<lambda>w. True" "\<lambda>config w. True"
  by (rule bytes32.vec_tree_store)

end
