(* ===== verification/Merkle.thy ===== *)
theory Merkle
  imports Store_Contract
begin

text \<open>
  The tree type of \<open>src/merkle.rs\<close> and its accessors. The type parameters of the Rust type
  become arguments: \<open>E\<close>, \<open>A\<close> and \<open>S\<close> (with the logarithm of the row count) are the
  record \<open>merkle_types\<close>, the three arities are numbers \<open>b\<close> (\<open>BaseTreeArity\<close>),
  \<open>n\<close> (\<open>SubTreeArity\<close>) and \<open>t\<close> (\<open>TopTreeArity\<close>).
\<close>

record ('w, 's, 'e, 'a) merkle_types =
  mt_E :: "'e element"
  mt_A :: "('a, 'e) algorithm"
  mt_S :: "('w, 's, 'e, 'a) store"
  mt_flog :: "nat \<Rightarrow> nat \<Rightarrow> nat"

definition BUILD_DATA_BLOCK_SIZE :: nat where
  "BUILD_DATA_BLOCK_SIZE = 64 * BUILD_CHUNK_NODES"

text \<open>
  The enum \<open>Data\<close> and the struct \<open>MerkleTree\<close> contain each other: the type of the trees in the lists
  is a parameter of the first, which the second instantiates by itself.
\<close>

datatype ('s, 't) merkle_data =
    BaseTree 's
  | SubTree "'t list"
  | TopTree "'t list"

datatype ('s, 'e) merkle_tree =
    MerkleTree (tree_data: "('s, ('s, 'e) merkle_tree) merkle_data") (tree_leafs: nat) (tree_len_field: nat)
      (tree_row_count: nat) (tree_root_field: 'e)

section \<open>Access to the data\<close>

fun data_store :: "('s, ('s, 'e) merkle_tree) merkle_data \<Rightarrow> 's option" where
  "data_store (BaseTree s) = Some s"
| "data_store _ = None"

text \<open>\<open>store_mut\<close>: the store and the way to put a changed one back.\<close>

fun data_store_mut ::
  "('s, ('s, 'e) merkle_tree) merkle_data \<Rightarrow> ('s \<times> ('s \<Rightarrow> ('s, ('s, 'e) merkle_tree) merkle_data)) option" where
  "data_store_mut (BaseTree s) = Some (s, BaseTree)"
| "data_store_mut _ = None"

fun data_sub_trees :: "('s, ('s, 'e) merkle_tree) merkle_data \<Rightarrow> ('s, 'e) merkle_tree list option" where
  "data_sub_trees (TopTree s) = Some s"
| "data_sub_trees _ = None"

fun data_base_trees :: "('s, ('s, 'e) merkle_tree) merkle_data \<Rightarrow> ('s, 'e) merkle_tree list option" where
  "data_base_trees (SubTree s) = Some s"
| "data_base_trees _ = None"

definition mt_root :: "('s, 'e) merkle_tree \<Rightarrow> 'e" where
  "mt_root tree = tree_root_field tree"

definition mt_len :: "('w, 's, 'e, 'a) merkle_types \<Rightarrow> ('s, 'e) merkle_tree \<Rightarrow> nat" where
  "mt_len C tree =
     (case tree_data tree of
        TopTree _ \<Rightarrow> tree_len_field tree
      | SubTree _ \<Rightarrow> tree_len_field tree
      | BaseTree store \<Rightarrow> st_len (mt_S C) store)"

definition mt_is_empty :: "('w, 's, 'e, 'a) merkle_types \<Rightarrow> ('s, 'e) merkle_tree \<Rightarrow> bool" where
  "mt_is_empty C tree =
     (case tree_data tree of
        TopTree _ \<Rightarrow> True
      | SubTree _ \<Rightarrow> True
      | BaseTree store \<Rightarrow> st_is_empty (mt_S C) store)"

definition mt_row_count :: "('s, 'e) merkle_tree \<Rightarrow> nat" where
  "mt_row_count tree = tree_row_count tree"

definition mt_leafs :: "('s, 'e) merkle_tree \<Rightarrow> nat" where
  "mt_leafs tree = tree_leafs tree"

definition mt_data :: "('s, 'e) merkle_tree \<Rightarrow> 's option" where
  "mt_data tree =
     (case tree_data tree of TopTree _ \<Rightarrow> None | SubTree _ \<Rightarrow> None | BaseTree store \<Rightarrow> Some store)"

definition with_data :: "('s, ('s, 'e) merkle_tree) merkle_data \<Rightarrow> ('s, 'e) merkle_tree \<Rightarrow> ('s, 'e) merkle_tree" where
  "with_data d tree = MerkleTree d (tree_leafs tree) (tree_len_field tree) (tree_row_count tree) (tree_root_field tree)"

definition mt_compact ::
  "('w, 's, 'e, 'a) merkle_types \<Rightarrow> nat \<Rightarrow> store_config \<Rightarrow> nat \<Rightarrow> ('s, 'e) merkle_tree \<Rightarrow> 'w \<Rightarrow>
     (bool \<times> ('s, 'e) merkle_tree \<times> 'w) outcome" where
  "mt_compact C b config store_version tree w =
     (case data_store_mut (tree_data tree) of
        None \<Rightarrow> Err StoreDataRequired
      | Some (s, put) \<Rightarrow>
          and_then (st_compact (mt_S C) b config store_version s w) (\<lambda>(r, s, w).
          Ok (r, with_data (put s) tree, w)))"

definition mt_reinit ::
  "('w, 's, 'e, 'a) merkle_types \<Rightarrow> ('s, 'e) merkle_tree \<Rightarrow> 'w \<Rightarrow> (('s, 'e) merkle_tree \<times> 'w) outcome" where
  "mt_reinit C tree w =
     (case data_store_mut (tree_data tree) of
        None \<Rightarrow> Err StoreDataRequired
      | Some (s, put) \<Rightarrow>
          and_then (st_reinit (mt_S C) s w) (\<lambda>(s, w). Ok (with_data (put s) tree, w)))"

definition mt_delete ::
  "('w, 's, 'e, 'a) merkle_types \<Rightarrow> store_config \<Rightarrow> ('s, 'e) merkle_tree \<Rightarrow> 'w \<Rightarrow> 'w outcome" where
  "mt_delete C config tree w = st_delete (mt_S C) config w"


section \<open>Reading\<close>

text \<open>
  The trees below a \<open>TopTree\<close> have the type with arities \<open>b\<close>, \<open>n\<close>, 0, those below a
  \<open>SubTree\<close> the type with arities \<open>b\<close>, 0, 0.
\<close>

lemma index_at_size:
  "index_at trees i = Ok tree \<Longrightarrow> size tree < Suc (size_list size trees)"
  using size_list_estimation' [of tree trees "size tree" size]
  by (auto simp: index_at_def less_Suc_eq_le split: if_splits)

lemma size_trees:
  "tree_data tree = TopTree trees \<Longrightarrow> Suc (size_list size trees) \<le> size tree"
  "tree_data tree = SubTree trees \<Longrightarrow> Suc (size_list size trees) \<le> size tree"
  by (cases tree; simp)+

function mt_read_at ::
  "('w, 's, 'e, 'a) merkle_types \<Rightarrow> nat \<Rightarrow> nat \<Rightarrow> nat \<Rightarrow> ('s, 'e) merkle_tree \<Rightarrow> nat \<Rightarrow> 'w \<Rightarrow> 'e outcome" where
  "mt_read_at C b n t tree i w =
     (case tree_data tree of
        TopTree sub_trees \<Rightarrow>
          ensure (t = length sub_trees) ShapeMismatch (
          and_then (usize_div (tree_leafs tree) t) (\<lambda>width.
          and_then (usize_div i width) (\<lambda>tree_index.
          and_then (index_at sub_trees tree_index) (\<lambda>sub.
          and_then (usize_rem i (mt_leafs sub)) (\<lambda>leaf_index.
          mt_read_at C b n 0 sub leaf_index w)))))
      | SubTree base_trees \<Rightarrow>
          ensure (n = length base_trees) ShapeMismatch (
          and_then (usize_div (tree_leafs tree) n) (\<lambda>width.
          and_then (usize_div i width) (\<lambda>tree_index.
          and_then (index_at base_trees tree_index) (\<lambda>base.
          and_then (usize_rem i (mt_leafs base)) (\<lambda>leaf_index.
          mt_read_at C b 0 0 base leaf_index w)))))
      | BaseTree data \<Rightarrow> st_read_at (mt_S C) i data w)"
  by pat_completeness auto

termination
  by (relation "measure (\<lambda>(C, b, n, t, tree, i, w). size tree)")
    (auto dest!: index_at_size size_trees)

declare mt_read_at.simps [simp del]

definition mt_read_range ::
  "('w, 's, 'e, 'a) merkle_types \<Rightarrow> ('s, 'e) merkle_tree \<Rightarrow> nat \<Rightarrow> nat \<Rightarrow> 'w \<Rightarrow> 'e list outcome" where
  "mt_read_range C tree start end' w =
     ensure (start < end') EmptyRange (
     case data_store (tree_data tree) of
       None \<Rightarrow> Err StoreDataRequired
     | Some s \<Rightarrow> st_read_range (mt_S C) start end' s w)"

definition mt_read_range_into ::
  "('w, 's, 'e, 'a) merkle_types \<Rightarrow> ('s, 'e) merkle_tree \<Rightarrow> nat \<Rightarrow> nat \<Rightarrow> byte list \<Rightarrow> 'w \<Rightarrow> byte list outcome"
where
  "mt_read_range_into C tree start end' buf w =
     ensure (start < end') EmptyRange (
     case data_store (tree_data tree) of
       None \<Rightarrow> Err StoreDataRequired
     | Some s \<Rightarrow> st_read_range_into (mt_S C) start end' buf s w)"

definition mt_read_into ::
  "('w, 's, 'e, 'a) merkle_types \<Rightarrow> ('s, 'e) merkle_tree \<Rightarrow> nat \<Rightarrow> byte list \<Rightarrow> 'w \<Rightarrow> byte list outcome" where
  "mt_read_into C tree pos buf w =
     (case data_store (tree_data tree) of
        None \<Rightarrow> Err StoreDataRequired
      | Some s \<Rightarrow> st_read_into (mt_S C) pos buf s w)"

end
