(* ===== verification/Inclusion_Proof.thy ===== *)
theory Inclusion_Proof
  imports Arith Hash Layers
begin

text \<open>
  \<open>src/proof.rs\<close>: inclusion proofs, their construction and their validation. The arity
  \<open>BaseTreeArity\<close> of the type is the argument \<open>branches\<close>.
\<close>

section \<open>The type and its accessors\<close>

datatype 'e inclusion_proof =
  Proof
    (sub_tree_proof: "'e inclusion_proof option")
    (top_layer_nodes: nat)
    (sub_tree_layer_nodes: nat)
    (pf_lemma: "'e list")
    (pf_path: "nat list")

definition proof_new ::
  "nat \<Rightarrow> nat \<Rightarrow> nat \<Rightarrow> 'e inclusion_proof option \<Rightarrow> 'e list \<Rightarrow> nat list \<Rightarrow> 'e inclusion_proof outcome" where
  "proof_new branches top_layer_arity sub_tree_arity stp lem path =
     and_then
       (if top_layer_arity = 0 \<and> sub_tree_arity = 0
        then
          ensure (length lem > 2) LemmaTooShort (
          and_then (usize_add (length path) 1) (\<lambda>rows.
          and_then (get_merkle_proof_lemma_len rows branches) (\<lambda>n.
          ensure (length lem = n) InvalidLemmaLength (Ok ()))))
        else Ok ())
       (\<lambda>_. Ok (Proof stp top_layer_arity sub_tree_arity lem path))"

definition proof_item :: "'e inclusion_proof \<Rightarrow> 'e outcome" where
  "proof_item p = first_unwrap (pf_lemma p)"

definition proof_root :: "'e inclusion_proof \<Rightarrow> 'e outcome" where
  "proof_root p = last_unwrap (pf_lemma p)"

definition proof_sub_tree_root :: "'e inclusion_proof \<Rightarrow> 'e outcome" where
  "proof_sub_tree_root p =
     panic_unless (sub_tree_layer_nodes p > 0 \<and> sub_tree_proof p \<noteq> None) AssertFailed (
     case sub_tree_proof p of None \<Rightarrow> Panic UnwrapNone | Some q \<Rightarrow> proof_root q)"


section \<open>Validation\<close>

text \<open>
  The inner loop of both validations: the children of one node, the known child at its
  position of the path and the others from the lemma, starting at \<open>i\<close>. Both operands are
  looked up in each round.
\<close>

definition gather_children ::
  "nat outcome \<Rightarrow> 'e outcome \<Rightarrow> 'e list \<Rightarrow> nat \<Rightarrow> nat \<Rightarrow> ('e list \<times> nat) outcome" where
  "gather_children position known lem i node_count =
     for_each
       (\<lambda>j (nodes, cur_index).
         and_then position (\<lambda>p.
         if j = p then and_then known (\<lambda>x. Ok (nodes @ [x], cur_index))
         else and_then (index_at lem (i + cur_index)) (\<lambda>x. Ok (nodes @ [x], cur_index + 1))))
       [0..<node_count] ([], 0)"

text \<open>
  The base layer. The loop state is the hasher, the hash so far, the position in the path
  and the value returned from inside the loop, if any.
\<close>

definition validate_base :: "('a, 'e) algorithm \<Rightarrow> nat \<Rightarrow> 'e inclusion_proof \<Rightarrow> bool outcome" where
  "validate_base A branches p =
     (let n = length (pf_lemma p) in
      if n < 2 then Ok False
      else
        and_then (proof_item p) (\<lambda>item.
        and_then (usize_sub branches 1) (\<lambda>step.
        panic_unless (step \<noteq> 0) ZeroStep (
        and_then
          (for_each
            (\<lambda>i (a, h, path_index, ret).
              if ret \<noteq> None then Ok (a, h, path_index, ret)
              else
                and_then
                  (gather_children (index_at (pf_path p) (path_index - 1)) (Ok h) (pf_lemma p) i branches)
                  (\<lambda>(nodes, cur_index).
                if cur_index \<noteq> branches - 1 then Ok (a, h, path_index, Some False)
                else
                  (let (h', a') = alg_multi_node A nodes (i - 1) (alg_reset A a) in
                   Ok (a', h', path_index + 1, None))))
            (step_range 1 (n - 1) step) (alg_default A, item, 1, None))
          (\<lambda>(a, h, path_index, ret).
        case ret of
          Some r \<Rightarrow> Ok r
        | None \<Rightarrow> and_then (proof_root p) (\<lambda>root. Ok (h = root)))))))"

text \<open>The layers above, once the proof below is known to be valid.\<close>

definition validate_layer :: "('a, 'e) algorithm \<Rightarrow> 'e inclusion_proof \<Rightarrow> nat \<Rightarrow> bool outcome" where
  "validate_layer A p arity =
     and_then (gather_children (index_at (pf_path p) 0) (proof_sub_tree_root p) (pf_lemma p) 0 arity)
       (\<lambda>(nodes, cur_index).
     and_then (usize_sub arity 1) (\<lambda>last.
     if cur_index \<noteq> last then Ok False
     else
       (let h = fst (alg_multi_node A nodes 0 (alg_reset A (alg_default A))) in
        and_then (proof_root p) (\<lambda>root. Ok (h = root)))))"

lemma size_sub_tree_proof: "sub_tree_proof p = Some q \<Longrightarrow> size q < size p"
  by (cases p) auto

function validate :: "('a, 'e) algorithm \<Rightarrow> nat \<Rightarrow> 'e inclusion_proof \<Rightarrow> bool outcome"
  and validate_sub_tree_proof :: "('a, 'e) algorithm \<Rightarrow> nat \<Rightarrow> 'e inclusion_proof \<Rightarrow> nat \<Rightarrow> bool outcome"
where
  "validate A branches p =
     (if top_layer_nodes p > 0 then
        ensure (sub_tree_proof p \<noteq> None) SubTreeProofMissing (
        validate_sub_tree_proof A branches p (top_layer_nodes p))
      else if sub_tree_layer_nodes p > 0 then
        ensure (sub_tree_proof p \<noteq> None) SubTreeProofMissing (
        validate_sub_tree_proof A branches p (sub_tree_layer_nodes p))
      else
        ensure (sub_tree_layer_nodes p = 0) BaseProofHasSubLayer (
        ensure (top_layer_nodes p = 0) BaseProofHasTopLayer (
        ensure (sub_tree_proof p = None) SubTreeProofPresent (
        validate_base A branches p))))"
| "validate_sub_tree_proof A branches p arity =
     (case sub_tree_proof p of
        None \<Rightarrow> Panic UnwrapNone
      | Some q \<Rightarrow>
          and_then (validate A branches q) (\<lambda>valid.
          if \<not> valid then Ok valid else validate_layer A p arity))"
  by pat_completeness auto

termination
  by (relation "measure (\<lambda>x. case x of Inl (A, b, p) \<Rightarrow> Suc (2 * size p) | Inr (A, b, p, n) \<Rightarrow> 2 * size p)")
    (auto dest: size_sub_tree_proof)

declare validate.simps [simp del] validate_sub_tree_proof.simps [simp del]

text \<open>\<open>leaf_data.hash(&mut a)\<close> is the argument \<open>hash\<close>, applied to the data.\<close>

definition validate_with_data ::
  "('a, 'e) algorithm \<Rightarrow> nat \<Rightarrow> ('d, 'a) hashable \<Rightarrow> 'd \<Rightarrow> 'e inclusion_proof \<Rightarrow> bool outcome" where
  "validate_with_data A branches hash leaf_data p =
     (let a = hash leaf_data (alg_default A);
          (item, a) = alg_hash A a;
          leaf = fst (alg_leaf A item (alg_reset A a)) in
      and_then (proof_item p) (\<lambda>x.
      if leaf = x then validate A branches p else Ok False))"


section \<open>What a validation computes\<close>

text \<open>The children of a node: \<open>x\<close> at position \<open>p\<close> among its siblings.\<close>

definition insert_child :: "nat \<Rightarrow> 'e \<Rightarrow> 'e list \<Rightarrow> 'e list" where
  "insert_child p x sibs = take p sibs @ x # drop p sibs"

lemma length_insert_child [simp]: "length (insert_child p x sibs) = Suc (length sibs)"
  by (simp add: insert_child_def)

lemma insert_child_inject:
  assumes "length sibs = length sibs'" and "p \<le> length sibs"
  shows "insert_child p x sibs = insert_child p y sibs' \<longleftrightarrow> x = y \<and> sibs = sibs'"
  using assms unfolding insert_child_def
  by (metis append_eq_append_conv append_take_drop_id length_take list.inject)

lemma insert_child_nth: "p \<le> length sibs \<Longrightarrow> insert_child p x sibs ! p = x"
  by (simp add: insert_child_def nth_append)

lemma insert_child_of_list:
  assumes "p < length xs"
  shows "insert_child p (xs ! p) (take p xs @ drop (Suc p) xs) = xs"
  using assms by (simp add: insert_child_def id_take_nth_drop [symmetric])

lemma gather_children_Ok:
  assumes "p < n" and "i + (n - 1) \<le> length lem"
  shows "gather_children (Ok p) (Ok x) lem i n = Ok (insert_child p x (take (n - 1) (drop i lem)), n - 1)"
proof -
  let ?sibs = "take (n - 1) (drop i lem)"
  let ?g = "\<lambda>j. if j \<le> p then (take j ?sibs, j) else (take j (insert_child p x ?sibs), j - 1)"
  let ?f = "\<lambda>j (nodes, cur_index).
         and_then (Ok p) (\<lambda>p.
         if j = p then and_then (Ok x) (\<lambda>x. Ok (nodes @ [x], cur_index))
         else and_then (index_at lem (i + cur_index)) (\<lambda>x. Ok (nodes @ [x], cur_index + 1)))"
  have len: "length ?sibs = n - 1" using assms by simp
  have "?f ([0..<n] ! j) (?g j) = Ok (?g (Suc j))" if j: "j < length [0..<n]" for j
  proof -
    have jn: "j < n" using j by simp
    consider "j < p" | "j = p" | "p < j" by linarith
    then show ?thesis
    proof cases
      case 1
      then have "j < n - 1" using assms(1) by linarith
      then have "take (Suc j) ?sibs = take j ?sibs @ [lem ! (i + j)]"
        using assms(2) by (simp add: take_Suc_conv_app_nth min_def)
      then show ?thesis using 1 jn \<open>j < n - 1\<close> assms(2) by simp
    next
      case 2
      have "take (Suc p) (insert_child p x ?sibs) = take p ?sibs @ [x]"
        using assms len by (simp add: insert_child_def)
      then show ?thesis using 2 jn by simp
    next
      case 3
      have jl: "j - 1 < length ?sibs" using 3 jn len by linarith
      have "insert_child p x ?sibs ! j = ?sibs ! (j - 1)"
        using 3 len assms(1) by (simp add: insert_child_def nth_append)
      also have "\<dots> = lem ! (i + (j - 1))" using jl assms(2) by simp
      finally have "take (Suc j) (insert_child p x ?sibs) = take j (insert_child p x ?sibs) @ [lem ! (i + (j - 1))]"
        using jn len by (simp add: take_Suc_conv_app_nth)
      moreover have "i + (j - 1) < length lem" using jl assms(2) len by linarith
      ultimately show ?thesis using 3 jn by simp
    qed
  qed
  then have "for_each ?f [0..<n] (?g 0) = Ok (?g (length [0..<n]))"
    by (rule for_each_sequence)
  moreover have "?g 0 = ([], 0)" using assms(1) by simp
  moreover have "?g n = (insert_child p x ?sibs, n - 1)" using assms(1) len by simp
  ultimately show ?thesis using assms(1) by (simp add: gather_children_def)
qed

text \<open>
  The path from a leaf to the root: hashing the current value among its siblings, one level
  after the other.
\<close>

fun climb :: "(nat \<Rightarrow> 'e list \<Rightarrow> 'e) \<Rightarrow> nat \<Rightarrow> 'e \<Rightarrow> (nat \<times> 'e list) list \<Rightarrow> 'e" where
  "climb h t x [] = x"
| "climb h t x ((p, sibs) # steps) = climb h (Suc t) (h t (insert_child p x sibs)) steps"

definition proof_steps :: "nat \<Rightarrow> 'e inclusion_proof \<Rightarrow> (nat \<times> 'e list) list" where
  "proof_steps b p = map (\<lambda>t. (pf_path p ! t, take (b - 1) (drop (1 + t * (b - 1)) (pf_lemma p))))
     [0..<length (pf_path p)]"

text \<open>The height a base proof hashes level \<open>t\<close> with is \<open>t * (b - 1)\<close>, the offset in the lemma.\<close>

definition proof_height :: "('a, 'e) algorithm \<Rightarrow> nat \<Rightarrow> nat \<Rightarrow> 'e list \<Rightarrow> 'e" where
  "proof_height A b t = node_hash A (t * (b - 1))"

definition base_shape :: "nat \<Rightarrow> 'e inclusion_proof \<Rightarrow> bool" where
  "base_shape b p \<longleftrightarrow>
     sub_tree_proof p = None \<and> top_layer_nodes p = 0 \<and> sub_tree_layer_nodes p = 0 \<and>
     length (pf_lemma p) = 2 + length (pf_path p) * (b - 1) \<and> (\<forall>x \<in> set (pf_path p). x < b)"

context algorithm_contract
begin

lemma validate_base_loop:
  assumes "2 \<le> b" and "base_shape b p" and "t + n \<le> length (pf_path p)"
  shows "\<exists>a'. for_each
      (\<lambda>i (a, h, path_index, ret).
        if ret \<noteq> None then Ok (a, h, path_index, ret)
        else
          and_then
            (gather_children (index_at (pf_path p) (path_index - 1)) (Ok h) (pf_lemma p) i b)
            (\<lambda>(nodes, cur_index).
          if cur_index \<noteq> b - 1 then Ok (a, h, path_index, Some False)
          else
            (let (h', a') = alg_multi_node A nodes (i - 1) (alg_reset A a) in
             Ok (a', h', path_index + 1, None))))
      (map (\<lambda>j. 1 + j * (b - 1)) [t..<t + n]) (a, x, Suc t, None) =
    Ok (a', climb (proof_height A b) t x (take n (drop t (proof_steps b p))), Suc (t + n), None)"
  using assms(3)
proof (induction n arbitrary: t a x)
  case 0
  then show ?case by simp
next
  case (Suc n)
  let ?sibs = "take (b - 1) (drop (1 + t * (b - 1)) (pf_lemma p))"
  have t: "t < length (pf_path p)" using Suc.prems by simp
  then have "pf_path p ! t < b" using assms(2) by (simp add: base_shape_def)
  moreover have "Suc t * (b - 1) \<le> length (pf_path p) * (b - 1)" using t by (intro mult_le_mono1) simp
  then have "1 + t * (b - 1) + (b - 1) \<le> length (pf_lemma p)"
    using assms(2) by (simp add: base_shape_def)
  ultimately have g: "gather_children (Ok (pf_path p ! t)) (Ok x) (pf_lemma p) (1 + t * (b - 1)) b =
      Ok (insert_child (pf_path p ! t) x ?sibs, b - 1)"
    by (rule gather_children_Ok)
  obtain h1 a1 where h1: "alg_multi_node A (insert_child (pf_path p ! t) x ?sibs) (t * (b - 1)) (alg_reset A a) = (h1, a1)"
    by (cases "alg_multi_node A (insert_child (pf_path p ! t) x ?sibs) (t * (b - 1)) (alg_reset A a)") auto
  then have h1_eq: "h1 = proof_height A b t (insert_child (pf_path p ! t) x ?sibs)"
    using node_after_reset [of "insert_child (pf_path p ! t) x ?sibs" "t * (b - 1)" a]
    by (simp add: proof_height_def)
  have range: "[t..<t + Suc n] = t # [Suc t..<Suc t + n]" by (simp add: upt_conv_Cons)
  have "drop t (proof_steps b p) = (pf_path p ! t, ?sibs) # drop (Suc t) (proof_steps b p)"
    using t by (subst Cons_nth_drop_Suc [symmetric]) (simp_all add: proof_steps_def)
  then have climb: "climb (proof_height A b) t x (take (Suc n) (drop t (proof_steps b p))) =
      climb (proof_height A b) (Suc t) h1 (take n (drop (Suc t) (proof_steps b p)))"
    by (simp add: h1_eq)
  from Suc.IH [of "Suc t" a1 h1] Suc.prems show ?case
    unfolding range climb using t g h1 by simp
qed

lemma validate_base_climb:
  assumes "2 \<le> b" and "base_shape b p"
  shows "validate A b p =
    Ok (climb (proof_height A b) 0 (hd (pf_lemma p)) (proof_steps b p) = last (pf_lemma p))"
proof -
  let ?n = "length (pf_path p)"
  have len: "length (pf_lemma p) = 2 + ?n * (b - 1)" using assms(2) by (simp add: base_shape_def)
  then have ne: "pf_lemma p \<noteq> []" by auto
  have range: "step_range 1 (length (pf_lemma p) - 1) (b - 1) = map (\<lambda>j. 1 + j * (b - 1)) [0..<0 + ?n]"
    using step_range_mult [of "b - 1" 1 ?n] assms(1) len by simp
  obtain a' where "for_each
      (\<lambda>i (a, h, path_index, ret).
        if ret \<noteq> None then Ok (a, h, path_index, ret)
        else
          and_then
            (gather_children (index_at (pf_path p) (path_index - 1)) (Ok h) (pf_lemma p) i b)
            (\<lambda>(nodes, cur_index).
          if cur_index \<noteq> b - 1 then Ok (a, h, path_index, Some False)
          else
            (let (h', a') = alg_multi_node A nodes (i - 1) (alg_reset A a) in
             Ok (a', h', path_index + 1, None))))
      (step_range 1 (length (pf_lemma p) - 1) (b - 1)) (alg_default A, hd (pf_lemma p), Suc 0, None) =
    Ok (a', climb (proof_height A b) 0 (hd (pf_lemma p)) (take ?n (drop 0 (proof_steps b p))), Suc (0 + ?n), None)"
    using validate_base_loop [OF assms, of 0 ?n "alg_default A" "hd (pf_lemma p)"] unfolding range by auto
  moreover have "take ?n (drop 0 (proof_steps b p)) = proof_steps b p" by (simp add: proof_steps_def)
  ultimately have "validate_base A b p =
      Ok (climb (proof_height A b) 0 (hd (pf_lemma p)) (proof_steps b p) = last (pf_lemma p))"
    using assms(1) len ne
    by (simp add: validate_base_def Let_def proof_item_def proof_root_def del: step_range_done)
  then show ?thesis using assms(2) by (simp add: validate.simps base_shape_def)
qed


text \<open>
  A position outside the arity is never met by the inner loop: it takes one lemma element
  too many, and the validation answers \<open>false\<close>.
\<close>

lemma gather_children_outside:
  assumes "n \<le> p" and "i + n \<le> length lem"
  shows "gather_children (Ok p) known lem i n = Ok (take n (drop i lem), n)"
proof -
  let ?g = "\<lambda>j. (take j (drop i lem), j)"
  let ?f = "\<lambda>j (nodes, cur_index).
         and_then (Ok p) (\<lambda>p.
         if j = p then and_then known (\<lambda>x. Ok (nodes @ [x], cur_index))
         else and_then (index_at lem (i + cur_index)) (\<lambda>x. Ok (nodes @ [x], cur_index + 1)))"
  have "?f ([0..<n] ! j) (?g j) = Ok (?g (Suc j))" if "j < length [0..<n]" for j
    using that assms by (simp add: take_Suc_conv_app_nth)
  then have "for_each ?f [0..<n] (?g 0) = Ok (?g (length [0..<n]))"
    by (rule for_each_sequence)
  then show ?thesis by (simp add: gather_children_def)
qed

lemma validate_base_outside:
  assumes "2 \<le> b" and len: "length (pf_lemma p) = 2 + length (pf_path p) * (b - 1)"
    and "n < length (pf_path p)" and "b \<le> pf_path p ! n" and "\<forall>t < n. pf_path p ! t < b"
  shows "validate_base A b p = Ok False"
proof -
  let ?c = "\<lambda>i (a, h, path_index, ret).
        if ret \<noteq> None then Ok (a, h, path_index, ret)
        else
          and_then
            (gather_children (index_at (pf_path p) (path_index - 1)) (Ok h) (pf_lemma p) i b)
            (\<lambda>(nodes, cur_index).
          if cur_index \<noteq> b - 1 then Ok (a, h, path_index, Some False)
          else
            (let (h', a') = alg_multi_node A nodes (i - 1) (alg_reset A a) in
             Ok (a', h', path_index + 1, None)))"
  let ?N = "length (pf_path p)"
  have step: "\<exists>a' h'. for_each ?c (map (\<lambda>j. 1 + j * (b - 1)) [0..<m]) (alg_default A, x, Suc 0, None)
      = Ok (a', h', Suc m, None)" if "m \<le> n" for m x
    using that
  proof (induction m)
    case (Suc m)
    then obtain a h where IH: "for_each ?c (map (\<lambda>j. 1 + j * (b - 1)) [0..<m]) (alg_default A, x, Suc 0, None)
      = Ok (a, h, Suc m, None)" by auto
    have "m < ?N" "pf_path p ! m < b" using Suc.prems assms(3,5) by auto
    moreover have "Suc m * (b - 1) \<le> ?N * (b - 1)" using \<open>m < ?N\<close> by (intro mult_le_mono1) simp
    then have "1 + m * (b - 1) + (b - 1) \<le> length (pf_lemma p)" using len by simp
    ultimately have "gather_children (Ok (pf_path p ! m)) (Ok h) (pf_lemma p) (1 + m * (b - 1)) b =
        Ok (insert_child (pf_path p ! m) h (take (b - 1) (drop (1 + m * (b - 1)) (pf_lemma p))), b - 1)"
      by (intro gather_children_Ok)
    with IH \<open>m < ?N\<close> show ?case
      by (simp add: for_each_append split: prod.split)
  qed simp
  have "Suc n * (b - 1) \<le> ?N * (b - 1)" using assms(3) by (intro mult_le_mono1) simp
  then have fits: "1 + n * (b - 1) + b \<le> length (pf_lemma p)" using len assms(1) by simp
  have skip: "for_each ?c is (a, h, k, Some r) = Ok (a, h, k, Some r)" for "is" a h k r
    by (induction "is") simp_all
  have "[0..<?N] = [0..<n] @ n # [Suc n..<?N]"
    using assms(3) by (metis upt_conv_Cons upt_add_eq_append less_imp_add_positive le0 plus_nat.add_0)
  then have "\<exists>a h k. for_each ?c (map (\<lambda>j. 1 + j * (b - 1)) [0..<?N]) (alg_default A, hd (pf_lemma p), Suc 0, None)
      = Ok (a, h, k, Some False)"
    using step [of n "hd (pf_lemma p)"] gather_children_outside [OF assms(4) fits] assms(1,3) skip
    by (auto simp: for_each_append)
  moreover have "step_range 1 (length (pf_lemma p) - 1) (b - 1) = map (\<lambda>j. 1 + j * (b - 1)) [0..<?N]"
    using step_range_mult [of "b - 1" 1 ?N] assms(1) len by simp
  moreover have "pf_lemma p \<noteq> []" using len by auto
  ultimately show ?thesis
    using assms(1) len by (auto simp: validate_base_def Let_def proof_item_def)
qed

text \<open>Hence the validation of every base proof that \<open>Proof::new\<close> accepts returns a value.\<close>

lemma validate_base_total:
  assumes "2 \<le> b" and "length (pf_lemma p) = 2 + length (pf_path p) * (b - 1)"
    and "sub_tree_proof p = None" "top_layer_nodes p = 0" "sub_tree_layer_nodes p = 0"
  shows "validate A b p = Ok ((\<forall>x \<in> set (pf_path p). x < b) \<and>
    climb (proof_height A b) 0 (hd (pf_lemma p)) (proof_steps b p) = last (pf_lemma p))"
proof (cases "\<forall>x \<in> set (pf_path p). x < b")
  case True
  then show ?thesis using validate_base_climb [of b p] assms by (simp add: base_shape_def)
next
  case False
  then have "\<exists>n. n < length (pf_path p) \<and> b \<le> pf_path p ! n"
    by (auto simp: in_set_conv_nth not_less)
  then obtain n where "n < length (pf_path p)" "b \<le> pf_path p ! n"
    and "\<forall>t < n. \<not> (t < length (pf_path p) \<and> b \<le> pf_path p ! t)"
    using exists_least_iff [of "\<lambda>n. n < length (pf_path p) \<and> b \<le> pf_path p ! n"] by blast
  then have "validate_base A b p = Ok False"
    by (intro validate_base_outside [OF assms(1,2)]) auto
  then show ?thesis using False assms(3-5) by (auto simp: validate.simps)
qed

end

lemma proof_new_base:
  assumes "proof_new b 0 0 stp lem path = Ok p"
  shows "p = Proof stp 0 0 lem path" and "length lem > 2" and "length lem = 2 + length path * (b - 1)"
  using assms
  by (auto simp: proof_new_def get_merkle_proof_lemma_len_def usize_add_def usize_sub_def usize_mul_def
      split: if_splits elim!: and_then_OkE)


section \<open>Binding\<close>

text \<open>
  Two paths to the same root either agree or contain a collision of the node hash, and the
  collision is found by comparing them level by level.
\<close>

fun find_collision ::
  "(nat \<Rightarrow> 'e list \<Rightarrow> 'e) \<Rightarrow> nat \<Rightarrow> 'e \<Rightarrow> (nat \<times> 'e list) list \<Rightarrow> 'e \<Rightarrow> (nat \<times> 'e list) list \<Rightarrow>
     (nat \<times> 'e list \<times> 'e list) option" where
  "find_collision h t x ((p, sibs) # steps) y ((p', sibs') # steps') =
     (let ns = insert_child p x sibs; ns' = insert_child p' y sibs' in
      if ns \<noteq> ns' \<and> h t ns = h t ns' then Some (t, ns, ns')
      else find_collision h (Suc t) (h t ns) steps (h t ns') steps')"
| "find_collision h t x _ y _ = None"

definition same_path :: "(nat \<times> 'e list) list \<Rightarrow> (nat \<times> 'e list) list \<Rightarrow> bool" where
  "same_path steps steps' \<longleftrightarrow>
     list_all2 (\<lambda>(p, sibs) (p', sibs'). p = p' \<and> length sibs = length sibs' \<and> p \<le> length sibs) steps steps'"

lemma climb_binding:
  assumes "same_path steps steps'" and "climb h t x steps = climb h t y steps'" and "(x, steps) \<noteq> (y, steps')"
  shows "\<exists>j ns ns'. find_collision h t x steps y steps' = Some (j, ns, ns') \<and> ns \<noteq> ns' \<and> h j ns = h j ns'"
  using assms
proof (induction h t x steps y steps' rule: find_collision.induct)
  case (1 h t x p sibs steps y p' sibs' steps')
  let ?ns = "insert_child p x sibs" and ?ns' = "insert_child p' y sibs'"
  have p: "p' = p" "length sibs = length sibs'" "p \<le> length sibs" and rest: "same_path steps steps'"
    using "1.prems"(1) by (auto simp: same_path_def)
  have climb: "climb h (Suc t) (h t ?ns) steps = climb h (Suc t) (h t ?ns') steps'"
    using "1.prems"(2) by simp
  show ?case
  proof (cases "?ns \<noteq> ?ns' \<and> h t ?ns = h t ?ns'")
    case True
    then show ?thesis by simp
  next
    case False
    have "(h t ?ns, steps) \<noteq> (h t ?ns', steps')"
    proof (cases "?ns = ?ns'")
      case True
      then have "x = y \<and> sibs = sibs'" using p insert_child_inject [of sibs sibs' p x y] by simp
      then show ?thesis using "1.prems"(3) p by auto
    next
      case ns: False
      then show ?thesis using False by simp
    qed
    with "1.IH" [OF refl refl False rest climb] False show ?thesis by (simp add: Let_def)
  qed
qed (auto simp: same_path_def)


section \<open>The path of a leaf in a tree\<close>

text \<open>\<open>group\<close> is the group of children a node of row \<open>t\<close> belongs to.\<close>

definition row_index :: "nat \<Rightarrow> nat \<Rightarrow> nat \<Rightarrow> nat" where
  "row_index b i t = i div b ^ t"

definition child_group :: "nat \<Rightarrow> 'e list \<Rightarrow> nat \<Rightarrow> 'e list" where
  "child_group b row j = take b (drop ((j div b) * b) row)"

definition siblings :: "nat \<Rightarrow> 'e list \<Rightarrow> nat \<Rightarrow> 'e list" where
  "siblings b row j =
     take (j mod b) (child_group b row j) @ drop (Suc (j mod b)) (child_group b row j)"

definition tree_steps ::
  "(nat \<Rightarrow> 'e list \<Rightarrow> 'e) \<Rightarrow> nat \<Rightarrow> 'e list \<Rightarrow> nat \<Rightarrow> nat \<Rightarrow> (nat \<times> 'e list) list" where
  "tree_steps h b xs k i =
     map (\<lambda>t. (row_index b i t mod b, siblings b (tree_row h b xs t) (row_index b i t))) [0..<k]"

lemma row_index_Suc: "row_index b i (Suc t) = row_index b i t div b"
  unfolding row_index_def power_Suc mult.commute [of b] by (simp add: div_mult2_eq)

lemma row_index_less: "0 < b \<Longrightarrow> i < b ^ k \<Longrightarrow> t \<le> k \<Longrightarrow> row_index b i t < b ^ (k - t)"
  by (simp add: row_index_def less_mult_imp_div_less flip: power_add)

lemma child_group_bounds:
  assumes "0 < b" and "length row = q * b" and "j < length row"
  shows "j div b < q" and "(j div b) * b + b \<le> length row" and "length (child_group b row j) = b"
    and "child_group b row j ! (j mod b) = row ! j"
proof -
  show q: "j div b < q" using assms by (simp add: less_mult_imp_div_less)
  then have "Suc (j div b) * b \<le> q * b" by (intro mult_le_mono1) simp
  then show le: "(j div b) * b + b \<le> length row" using assms(2) by simp
  then show "length (child_group b row j) = b" by (simp add: child_group_def)
  have "(j div b) * b + j mod b = j" by simp
  then show "child_group b row j ! (j mod b) = row ! j"
    using le assms(1) by (simp add: child_group_def)
qed

lemma length_siblings:
  assumes "0 < b" and "length row = q * b" and "j < length row"
  shows "length (siblings b row j) = b - 1"
proof -
  have "j mod b < b" using assms(1) by simp
  then show ?thesis
    using child_group_bounds(3) [OF assms] by (simp add: siblings_def min_def)
qed

lemma insert_child_siblings:
  assumes "0 < b" and "length row = q * b" and "j < length row"
  shows "insert_child (j mod b) (row ! j) (siblings b row j) = child_group b row j"
proof -
  have "j mod b < length (child_group b row j)"
    using child_group_bounds(3) [OF assms] assms(1) by simp
  from insert_child_of_list [OF this] show ?thesis
    by (simp add: siblings_def child_group_bounds(4) [OF assms])
qed

text \<open>Climbing the honest path from row \<open>t\<close> arrives at the root.\<close>

lemma climb_tree_from:
  assumes "0 < b" and "length xs = b ^ k" and "i < b ^ k" and "t + n = k"
  shows "climb h t (tree_row h b xs t ! row_index b i t)
      (map (\<lambda>t. (row_index b i t mod b, siblings b (tree_row h b xs t) (row_index b i t))) [t..<k])
    = tree_root h b k xs"
  using assms(4)
proof (induction n arbitrary: t)
  case 0
  have "length (tree_row h b xs k) = 1" using assms by (simp add: length_tree_row)
  moreover have "row_index b i k = 0" using assms by (simp add: row_index_def)
  ultimately show ?case using 0 by (cases "tree_row h b xs k") (auto simp: tree_root_def)
next
  case (Suc n)
  let ?row = "tree_row h b xs t" and ?j = "row_index b i t"
  have t: "t < k" using Suc.prems by simp
  then have exp: "k - t = Suc (k - Suc t)" by simp
  have len: "length ?row = b ^ (k - Suc t) * b"
    using length_tree_row [of b xs k t h] assms(1,2) t exp by simp
  have j: "?j < length ?row"
    using row_index_less [OF assms(1,3), of t] t len exp by (simp add: mult.commute)
  have "insert_child (?j mod b) (?row ! ?j) (siblings b ?row ?j) = child_group b ?row ?j"
    by (rule insert_child_siblings [OF assms(1) len j])
  moreover have "h t (child_group b ?row ?j) = tree_row h b xs (Suc t) ! row_index b i (Suc t)"
    using tree_row_children [OF assms(1,2) t] child_group_bounds(1) [OF assms(1) len j]
    by (simp add: child_group_def row_index_Suc)
  moreover have "[t..<k] = t # [Suc t..<k]" using t by (simp add: upt_conv_Cons)
  ultimately show ?case using Suc.IH [of "Suc t"] Suc.prems by simp
qed

lemma climb_tree:
  assumes "0 < b" and "length xs = b ^ k" and "i < b ^ k"
  shows "climb h 0 (xs ! i) (tree_steps h b xs k i) = tree_root h b k xs"
  using climb_tree_from [OF assms, of 0 k h] by (simp add: tree_steps_def row_index_def)

lemma climb_cong:
  assumes "\<And>t ns. h t ns = h' t ns"
  shows "climb h t x steps = climb h' t x steps"
proof -
  have "h = h'" using assms by blast
  then show ?thesis by simp
qed

end
