(* ===== verification/Gen_Proof.thy ===== *)
theory Gen_Proof
  imports Merkle Inclusion_Proof
begin

text \<open>
  Proof generation (\<open>gen_proof\<close> and \<open>gen_sub_tree_proof\<close> of \<open>src/merkle.rs\<close>): the
  definitions, and what the base layer produces for a complete tree.
\<close>

section \<open>The base layer\<close>

text \<open>One row of the proof: the children next to node \<open>j\<close> of the row that starts at \<open>base\<close>.\<close>

definition push_siblings ::
  "(nat \<Rightarrow> 'e outcome) \<Rightarrow> nat \<Rightarrow> nat \<Rightarrow> nat \<Rightarrow> 'e list \<Rightarrow> 'e list outcome" where
  "push_siblings read branches base j lem =
     and_then (usize_div j branches) (\<lambda>q.
     and_then (usize_mul q branches) (\<lambda>hash_index.
     and_then (usize_add hash_index branches) (\<lambda>end'.
     for_each
       (\<lambda>k lem.
         if k \<noteq> j then
           and_then (usize_add base k) (\<lambda>pos.
           and_then (read pos) (\<lambda>x. Ok (lem @ [x])))
         else Ok lem)
       [hash_index..<end'] lem)))"

definition gen_base_proof ::
  "('w, 's, 'e, 'a) merkle_types \<Rightarrow> nat \<Rightarrow> nat \<Rightarrow> nat \<Rightarrow> ('s, 'e) merkle_tree \<Rightarrow> nat \<Rightarrow> 'w \<Rightarrow>
     'e inclusion_proof outcome" where
  "gen_base_proof C branches n t tree i w =
     ensure (i < tree_leafs tree) LeafOutOfBounds (
     let width = tree_leafs tree in
     and_then (next_pow2 width) (\<lambda>p. ensure (width = p) NotPow2Tree (
     and_then (next_pow2 branches) (\<lambda>q. ensure (branches = q) BranchesNotPow2 (
     let shift = log2_pow2 branches in
     and_then (get_merkle_proof_lemma_len (tree_row_count tree) branches) (\<lambda>lemma_len.
     and_then (usize_sub (tree_row_count tree) 1) (\<lambda>path_len.
     ensure (n = 0) DataStoreHasSubTrees (
     ensure (t = 0) DataStoreHasTopLayer (
     and_then (mt_read_at C branches n t tree i w) (\<lambda>item.
     and_then
       (while_loop
         (\<lambda>(lem, path, base, width, j). base + 1 < mt_len C tree)
         (\<lambda>(lem, path, base, width, j).
           and_then (push_siblings (\<lambda>pos. mt_read_at C branches n t tree pos w) branches base j lem) (\<lambda>lem.
           let path = path @ [j mod branches] in
           and_then (usize_add base width) (\<lambda>base.
           and_then (usize_shr width shift) (\<lambda>width.
           and_then (usize_shr j shift) (\<lambda>j.
           Ok (lem, path, base, width, j))))))
         ([item], [], 0, width, i))
       (\<lambda>(lem, path, base, width, j).
     let lem = lem @ [mt_root tree] in
     ensure (length lem = lemma_len) InvalidLemmaLength (
     ensure (length path = path_len) InvalidPathLength (
     proof_new branches 0 0 None lem path)))))))))))))"


section \<open>The layers above\<close>

text \<open>The roots of the other trees of a layer, then the root of the layer itself.\<close>

definition layer_lemma :: "('s, 'e) merkle_tree list \<Rightarrow> nat \<Rightarrow> nat \<Rightarrow> 'e \<Rightarrow> 'e list outcome" where
  "layer_lemma trees arity tree_index root =
     and_then
       (for_each
         (\<lambda>i lem.
           if i \<noteq> tree_index then and_then (index_at trees i) (\<lambda>tree. Ok (lem @ [mt_root tree]))
           else Ok lem)
         [0..<arity] [])
       (\<lambda>lem. Ok (lem @ [root]))"

lemma size_data_trees:
  "data_sub_trees (tree_data tree) = Some trees \<Longrightarrow> Suc (size_list size trees) \<le> size tree"
  "data_base_trees (tree_data tree) = Some trees \<Longrightarrow> Suc (size_list size trees) \<le> size tree"
  by (cases "tree_data tree"; simp add: size_trees)+

function gen_proof ::
  "('w, 's, 'e, 'a) merkle_types \<Rightarrow> nat \<Rightarrow> nat \<Rightarrow> nat \<Rightarrow> ('s, 'e) merkle_tree \<Rightarrow> nat \<Rightarrow> 'w \<Rightarrow>
     'e inclusion_proof outcome"
and gen_sub_tree_proof ::
  "('w, 's, 'e, 'a) merkle_types \<Rightarrow> nat \<Rightarrow> nat \<Rightarrow> nat \<Rightarrow> ('s, 'e) merkle_tree \<Rightarrow> nat \<Rightarrow> bool \<Rightarrow> nat \<Rightarrow>
     'w \<Rightarrow> 'e inclusion_proof outcome"
where
  "gen_proof C b n t tree i w =
     (case tree_data tree of
        TopTree _ \<Rightarrow> gen_sub_tree_proof C b n t tree i True t w
      | SubTree _ \<Rightarrow> gen_sub_tree_proof C b n t tree i False n w
      | BaseTree _ \<Rightarrow> gen_base_proof C b n t tree i w)"
| "gen_sub_tree_proof C b n t tree i top_layer arity w =
     ensure (arity \<noteq> 0) InvalidArity (
     and_then (usize_div (tree_leafs tree) arity) (\<lambda>width.
     and_then (usize_div i width) (\<lambda>tree_index.
     if top_layer then
       (case data_sub_trees (tree_data tree) of
          None \<Rightarrow> Err SubTreesRequired
        | Some sub_trees \<Rightarrow>
            ensure (arity = length sub_trees) ShapeMismatch (
            and_then (index_at sub_trees tree_index) (\<lambda>sub.
            and_then (usize_rem i (mt_leafs sub)) (\<lambda>leaf_index.
            and_then (gen_proof C b n 0 sub leaf_index w) (\<lambda>sub_tree_proof.
            and_then (layer_lemma sub_trees arity tree_index (mt_root tree)) (\<lambda>lem.
            proof_new b t n (Some sub_tree_proof) lem [tree_index]))))))
     else
       (case data_base_trees (tree_data tree) of
          None \<Rightarrow> Err BaseTreesRequired
        | Some base_trees \<Rightarrow>
            ensure (arity = length base_trees) ShapeMismatch (
            and_then (index_at base_trees tree_index) (\<lambda>base.
            and_then (usize_rem i (mt_leafs base)) (\<lambda>leaf_index.
            and_then (gen_proof C b 0 0 base leaf_index w) (\<lambda>sub_tree_proof.
            and_then (layer_lemma base_trees arity tree_index (mt_root tree)) (\<lambda>lem.
            proof_new b t n (Some sub_tree_proof) lem [tree_index])))))))))"
  by pat_completeness auto

termination
  by (relation "measure (\<lambda>x. case x of Inl (C, b, n, t, tree, i, w) \<Rightarrow> Suc (2 * size tree)
       | Inr (C, b, n, t, tree, i, top_layer, arity, w) \<Rightarrow> 2 * size tree)")
    (auto dest!: index_at_size size_data_trees)

declare gen_proof.simps [simp del] gen_sub_tree_proof.simps [simp del]


section \<open>The proof of a leaf of a complete tree\<close>

lemma siblings_filter:
  assumes "0 < b" and "length row = q * b" and "j < length row"
  shows "siblings b row j = map (\<lambda>k. row ! k) (filter (\<lambda>k. k \<noteq> j) [(j div b) * b..<(j div b) * b + b])"
proof -
  let ?hi = "(j div b) * b"
  have le: "?hi + b \<le> length row" by (rule child_group_bounds(2) [OF assms])
  have j: "?hi + j mod b = j" by simp
  have jm: "j mod b < b" using assms(1) by simp
  have group: "child_group b row j = map (\<lambda>k. row ! k) [?hi..<?hi + b]"
    using le by (intro nth_equalityI) (simp_all add: child_group_def)
  have split: "[?hi..<?hi + b] = [?hi..<j] @ j # [Suc j..<?hi + b]"
  proof -
    have lo: "?hi \<le> j" and hi: "j < ?hi + b" using j jm by linarith+
    have "[?hi..<j + (?hi + b - j)] = [?hi..<j] @ [j..<j + (?hi + b - j)]"
      by (rule upt_add_eq_append [OF lo])
    then show ?thesis using hi by (simp add: upt_conv_Cons)
  qed
  have "length [?hi..<j] = j mod b" by (simp add: minus_div_mult_eq_mod)
  then have "siblings b row j = map (\<lambda>k. row ! k) ([?hi..<j] @ [Suc j..<?hi + b])"
    unfolding siblings_def group split by simp
  moreover have "filter (\<lambda>k. k \<noteq> j) [?hi..<?hi + b] = [?hi..<j] @ [Suc j..<?hi + b]"
    unfolding split by (simp add: filter_id_conv)
  ultimately show ?thesis by simp
qed

lemma push_siblings_Ok:
  assumes "0 < b" and "length row = q * b" and "j < length row"
    and read: "\<And>k. k < length row \<Longrightarrow> read (base + k) = Ok (row ! k)"
    and "base + length row < usize_limit"
  shows "push_siblings read b base j lem = Ok (lem @ siblings b row j)"
proof -
  let ?hi = "(j div b) * b"
  have le: "?hi + b \<le> length row" by (rule child_group_bounds(2) [OF assms(1-3)])
  have "for_each
       (\<lambda>k lem.
         if k \<noteq> j then
           and_then (usize_add base k) (\<lambda>pos.
           and_then (read pos) (\<lambda>x. Ok (lem @ [x])))
         else Ok lem) ks lem = Ok (lem @ map (\<lambda>k. row ! k) (filter (\<lambda>k. k \<noteq> j) ks))"
    if "\<forall>k \<in> set ks. k < length row" for ks
    using that assms(5) by (induction ks arbitrary: lem) (simp_all add: read)
  from this [of "[?hi..<?hi + b]"] show ?thesis
    using le assms siblings_filter [OF assms(1-3)] by (simp add: push_siblings_def)
qed

text \<open>The proof that belongs to leaf \<open>i\<close>.\<close>

definition honest_proof ::
  "(nat \<Rightarrow> 'e list \<Rightarrow> 'e) \<Rightarrow> nat \<Rightarrow> nat \<Rightarrow> 'e list \<Rightarrow> nat \<Rightarrow> 'e inclusion_proof" where
  "honest_proof h b k xs i =
     Proof None 0 0
       (xs ! i # concat (map snd (tree_steps h b xs k i)) @ [tree_root h b k xs])
       (map fst (tree_steps h b xs k i))"

lemma length_tree_steps [simp]: "length (tree_steps h b xs k i) = k"
  by (simp add: tree_steps_def)

lemma tree_steps_siblings:
  assumes "0 < b" and "length xs = b ^ k" and "i < b ^ k" and "t < k"
  shows "length (snd (tree_steps h b xs k i ! t)) = b - 1" and "fst (tree_steps h b xs k i ! t) < b"
proof -
  have exp: "k - t = Suc (k - Suc t)" using assms(4) by simp
  have len: "length (tree_row h b xs t) = b ^ (k - Suc t) * b"
    using length_tree_row [of b xs k t h] assms exp by simp
  have "row_index b i t < length (tree_row h b xs t)"
    using row_index_less [OF assms(1,3), of t] assms(4) len exp by (simp add: mult.commute)
  from length_siblings [OF assms(1) len this] show "length (snd (tree_steps h b xs k i ! t)) = b - 1"
    using assms(4) by (simp add: tree_steps_def)
  show "fst (tree_steps h b xs k i ! t) < b"
    using assms(1,4) by (simp add: tree_steps_def)
qed

lemma length_concat_equal:
  "(\<And>ys. ys \<in> set xss \<Longrightarrow> length ys = c) \<Longrightarrow> length (concat xss) = length xss * c"
  by (induction xss) simp_all

lemma take_drop_concat:
  assumes "\<And>ys. ys \<in> set xss \<Longrightarrow> length ys = c" and "t < length xss"
  shows "take c (drop (t * c) (concat xss @ zs)) = xss ! t"
  using assms
proof (induction xss arbitrary: t)
  case (Cons ys xss)
  then show ?case by (cases t) simp_all
qed simp

lemma honest_proof_shape:
  assumes "0 < b" and "length xs = b ^ k" and "i < b ^ k"
  shows "base_shape b (honest_proof h b k xs i)"
    and "proof_steps b (honest_proof h b k xs i) = tree_steps h b xs k i"
    and "length (pf_lemma (honest_proof h b k xs i)) = 2 + k * (b - 1)"
proof -
  let ?S = "map snd (tree_steps h b xs k i)"
  have each: "\<And>ys. ys \<in> set ?S \<Longrightarrow> length ys = b - 1"
    using tree_steps_siblings(1) [OF assms, of _ h] by (auto simp: in_set_conv_nth) (metis snd_conv)
  have len: "length (concat ?S) = k * (b - 1)"
    using length_concat_equal [of ?S "b - 1"] each by simp
  then show "length (pf_lemma (honest_proof h b k xs i)) = 2 + k * (b - 1)"
    by (simp add: honest_proof_def)
  have "\<forall>x \<in> set (map fst (tree_steps h b xs k i)). x < b"
    using tree_steps_siblings(2) [OF assms, of _ h] by (auto simp: in_set_conv_nth) (metis fst_conv)
  then show "base_shape b (honest_proof h b k xs i)"
    using len by (simp add: base_shape_def honest_proof_def)
  show "proof_steps b (honest_proof h b k xs i) = tree_steps h b xs k i"
  proof (rule nth_equalityI)
    fix t
    assume "t < length (proof_steps b (honest_proof h b k xs i))"
    then have t: "t < k" by (simp add: proof_steps_def honest_proof_def)
    have "take (b - 1) (drop (t * (b - 1)) (concat ?S @ [tree_root h b k xs])) = ?S ! t"
      using each t by (intro take_drop_concat) simp_all
    then show "proof_steps b (honest_proof h b k xs i) ! t = tree_steps h b xs k i ! t"
      using t by (simp add: proof_steps_def honest_proof_def prod_eq_iff)
  qed (simp add: proof_steps_def honest_proof_def)
qed

end
