(* ===== verification/Build.thy ===== *)
theory Build
  imports Merkle
begin

text \<open>
  Building a base tree (\<open>src/merkle.rs\<close>): \<open>populate_data\<close>, the constructors over
  iterators, byte slices and stores, and their correctness for every store that keeps the
  contract. The arities of the layers above play no part in these functions.
\<close>

section \<open>Populating a store\<close>

text \<open>
  An iterator is the list of what its \<open>next\<close> returns (an item, or an error value), with the
  upper bound of its size hint. The loop state is the hasher, the buffer, the store, the world.
\<close>

definition populate_data ::
  "('w, 's, 'e, 'a) merkle_types \<Rightarrow> 's \<Rightarrow> 'e outcome list \<Rightarrow> 'w \<Rightarrow> ('s \<times> 'w) outcome" where
  "populate_data C data iter w =
     (if \<not> st_is_empty (mt_S C) data then Ok (data, w)
      else
        and_then (usize_mul BUILD_DATA_BLOCK_SIZE (el_byte_len (mt_E C))) (\<lambda>block.
        and_then
          (for_each
            (\<lambda>item (a, buf, data, w).
              and_then item (\<lambda>item.
              let a = alg_reset (mt_A C) a;
                  (leaf, a) = alg_leaf (mt_A C) item a;
                  buf = buf @ el_as_ref (mt_E C) leaf in
              if length buf \<ge> block
              then
                and_then (st_copy_from_slice (mt_S C) buf (st_len (mt_S C) data) data w) (\<lambda>(data, w).
                Ok (a, [], data, w))
              else Ok (a, buf, data, w)))
            iter (alg_default (mt_A C), [], data, w))
          (\<lambda>(a, buf, data, w).
        and_then (st_copy_from_slice (mt_S C) buf (st_len (mt_S C) data) data w) (\<lambda>(data, w).
        and_then (st_sync (mt_S C) data w) (\<lambda>_. Ok (data, w))))))"

text \<open>
  The parallel version cuts the items into blocks; each block is hashed by a hasher of its own
  and copied to the place its number determines, under the write lock. The blocks are written
  here in order; the theory \<open>Parallel\<close> treats the other orders.
\<close>

definition leaf_block :: "('w, 's, 'e, 'a) merkle_types \<Rightarrow> 'e list \<Rightarrow> byte list" where
  "leaf_block C chunk =
     snd (fold
       (\<lambda>item (a, buf).
         let a = alg_reset (mt_A C) a;
             (leaf, a) = alg_leaf (mt_A C) item a in
         (a, buf @ el_as_ref (mt_E C) leaf))
       chunk (alg_default (mt_A C), []))"

definition write_leaf_block ::
  "('w, 's, 'e, 'a) merkle_types \<Rightarrow> nat \<times> 'e list \<Rightarrow> 's \<times> 'w \<Rightarrow> ('s \<times> 'w) outcome" where
  "write_leaf_block C = (\<lambda>(index, chunk) (data, w).
     and_then (usize_mul BUILD_DATA_BLOCK_SIZE index) (\<lambda>start.
     st_copy_from_slice (mt_S C) (leaf_block C chunk) start data w))"

definition populate_data_par ::
  "('w, 's, 'e, 'a) merkle_types \<Rightarrow> 's \<Rightarrow> 'e list \<Rightarrow> 'w \<Rightarrow> ('s \<times> 'w) outcome" where
  "populate_data_par C data iter w =
     (if \<not> st_is_empty (mt_S C) data then Ok (data, w)
      else
        and_then
          (for_each (write_leaf_block C) (enumerate 0 (chunks BUILD_DATA_BLOCK_SIZE iter)) (data, w))
          (\<lambda>(data, w). and_then (st_sync (mt_S C) data w) (\<lambda>_. Ok (data, w))))"


section \<open>Constructors\<close>

definition base_tree ::
  "'s \<Rightarrow> nat \<Rightarrow> nat \<Rightarrow> nat \<Rightarrow> 'e \<Rightarrow> ('s, 'e) merkle_tree" where
  "base_tree data leafs len row_count root = MerkleTree (BaseTree data) leafs len row_count root"

definition try_from_iter ::
  "('w, 's, 'e, 'a) merkle_types \<Rightarrow> nat \<Rightarrow> nat option \<Rightarrow> 'e outcome list \<Rightarrow> 'w \<Rightarrow>
     (('s, 'e) merkle_tree \<times> 'w) outcome" where
  "try_from_iter C branches size_hint iter w =
     (case size_hint of
        None \<Rightarrow> Err NoSizeHint
      | Some leafs \<Rightarrow>
          ensure (leafs > 1) NotEnoughLeaves (
          and_then (next_pow2 leafs) (\<lambda>p. ensure (p = leafs) SizeNotPow2 (
          and_then (next_pow2 branches) (\<lambda>q. ensure (q = branches) BranchesNotPow2 (
          and_then (get_merkle_tree_len leafs branches) (\<lambda>len.
          and_then (get_merkle_tree_row_count (mt_flog C) leafs branches) (\<lambda>row_count.
          and_then (map_err FailedToCreateStore (st_new (mt_S C) len w)) (\<lambda>(data, w).
          and_then (map_err FailedToPopulate (populate_data C data iter w)) (\<lambda>(data, w).
          and_then (st_build (mt_S C) (mt_A C) branches leafs row_count None data w) (\<lambda>(root, data, w).
          Ok (base_tree data leafs len row_count root, w))))))))))))"

definition try_from_iter_with_config ::
  "('w, 's, 'e, 'a) merkle_types \<Rightarrow> nat \<Rightarrow> nat option \<Rightarrow> 'e outcome list \<Rightarrow> store_config \<Rightarrow> 'w \<Rightarrow>
     (('s, 'e) merkle_tree \<times> 'w) outcome" where
  "try_from_iter_with_config C branches size_hint iter config w =
     (case size_hint of
        None \<Rightarrow> Err NoSizeHint
      | Some leafs \<Rightarrow>
          ensure (leafs > 1) NotEnoughLeaves (
          and_then (next_pow2 leafs) (\<lambda>p. ensure (p = leafs) SizeNotPow2 (
          and_then (next_pow2 branches) (\<lambda>q. ensure (q = branches) BranchesNotPow2 (
          and_then (get_merkle_tree_len leafs branches) (\<lambda>len.
          and_then (get_merkle_tree_row_count (mt_flog C) leafs branches) (\<lambda>row_count.
          and_then (map_err FailedToCreateStore (st_new_with_config (mt_S C) len branches config w)) (\<lambda>(data, w).
          if st_loaded_from_disk (mt_S C) data
          then
            and_then (map_err FailedToReadRoot (st_last (mt_S C) data w)) (\<lambda>root.
            Ok (base_tree data leafs len row_count root, w))
          else
            and_then (expect (populate_data C data iter w)) (\<lambda>(data, w).
            and_then (st_build (mt_S C) (mt_A C) branches leafs row_count (Some config) data w)
              (\<lambda>(root, data, w).
            Ok (base_tree data leafs len row_count root, w))))))))))))"

definition from_par_iter ::
  "('w, 's, 'e, 'a) merkle_types \<Rightarrow> nat \<Rightarrow> 'e list \<Rightarrow> 'w \<Rightarrow> (('s, 'e) merkle_tree \<times> 'w) outcome" where
  "from_par_iter C branches iter w =
     (let leafs = length iter in
      ensure (leafs > 1) NotEnoughLeaves (
      and_then (next_pow2 leafs) (\<lambda>p. ensure (p = leafs) SizeNotPow2 (
      and_then (next_pow2 branches) (\<lambda>q. ensure (q = branches) BranchesNotPow2 (
      and_then (get_merkle_tree_len leafs branches) (\<lambda>len.
      and_then (get_merkle_tree_row_count (mt_flog C) leafs branches) (\<lambda>row_count.
      and_then (expect (st_new (mt_S C) len w)) (\<lambda>(data, w).
      and_then (populate_data_par C data iter w) (\<lambda>(data, w).
      and_then (st_build (mt_S C) (mt_A C) branches leafs row_count None data w) (\<lambda>(root, data, w).
      Ok (base_tree data leafs len row_count root, w))))))))))))"

definition from_par_iter_with_config ::
  "('w, 's, 'e, 'a) merkle_types \<Rightarrow> nat \<Rightarrow> 'e list \<Rightarrow> store_config \<Rightarrow> 'w \<Rightarrow> (('s, 'e) merkle_tree \<times> 'w) outcome"
where
  "from_par_iter_with_config C branches iter config w =
     (let leafs = length iter in
      ensure (leafs > 1) NotEnoughLeaves (
      and_then (next_pow2 leafs) (\<lambda>p. ensure (p = leafs) SizeNotPow2 (
      and_then (next_pow2 branches) (\<lambda>q. ensure (q = branches) BranchesNotPow2 (
      and_then (get_merkle_tree_len leafs branches) (\<lambda>len.
      and_then (get_merkle_tree_row_count (mt_flog C) leafs branches) (\<lambda>row_count.
      and_then (map_err FailedToCreateStore (st_new_with_config (mt_S C) len branches config w)) (\<lambda>(data, w).
      if st_loaded_from_disk (mt_S C) data
      then
        and_then (map_err FailedToReadRoot (st_last (mt_S C) data w)) (\<lambda>root.
        Ok (base_tree data leafs len row_count root, w))
      else
        and_then (populate_data_par C data iter w) (\<lambda>(data, w).
        and_then (st_build (mt_S C) (mt_A C) branches leafs row_count (Some config) data w)
          (\<lambda>(root, data, w).
        Ok (base_tree data leafs len row_count root, w))))))))))))"

text \<open>\<open>new\<close> and \<open>new_with_config\<close>: an iterator of items has its exact size as the hint.\<close>

definition mt_new ::
  "('w, 's, 'e, 'a) merkle_types \<Rightarrow> nat \<Rightarrow> nat option \<Rightarrow> 'e list \<Rightarrow> 'w \<Rightarrow> (('s, 'e) merkle_tree \<times> 'w) outcome" where
  "mt_new C branches size_hint data w = try_from_iter C branches size_hint (map Ok data) w"

definition mt_new_with_config ::
  "('w, 's, 'e, 'a) merkle_types \<Rightarrow> nat \<Rightarrow> nat option \<Rightarrow> 'e list \<Rightarrow> store_config \<Rightarrow> 'w \<Rightarrow>
     (('s, 'e) merkle_tree \<times> 'w) outcome" where
  "mt_new_with_config C branches size_hint data config w =
     try_from_iter_with_config C branches size_hint (map Ok data) config w"

text \<open>
  \<open>from_data\<close>: every object is hashed first, by one hasher that the closure resets each
  time; the digests are the items.
\<close>

primrec hash_objects :: "('a, 'e) algorithm \<Rightarrow> ('o, 'a) hashable \<Rightarrow> 'o list \<Rightarrow> 'a \<Rightarrow> 'e list" where
  "hash_objects A hash [] a = []"
| "hash_objects A hash (x # xs) a =
     (let a = alg_reset A a;
          a = hash x a;
          (item, a) = alg_hash A a in
      item # hash_objects A hash xs a)"

definition from_data ::
  "('w, 's, 'e, 'a) merkle_types \<Rightarrow> nat \<Rightarrow> nat option \<Rightarrow> ('o, 'a) hashable \<Rightarrow> 'o list \<Rightarrow> 'w \<Rightarrow>
     (('s, 'e) merkle_tree \<times> 'w) outcome" where
  "from_data C branches size_hint hash data w =
     try_from_iter C branches size_hint
       (map Ok (hash_objects (mt_A C) hash data (alg_default (mt_A C)))) w"

definition from_data_with_config ::
  "('w, 's, 'e, 'a) merkle_types \<Rightarrow> nat \<Rightarrow> nat option \<Rightarrow> ('o, 'a) hashable \<Rightarrow> 'o list \<Rightarrow> store_config \<Rightarrow> 'w \<Rightarrow>
     (('s, 'e) merkle_tree \<times> 'w) outcome" where
  "from_data_with_config C branches size_hint hash data config w =
     try_from_iter_with_config C branches size_hint
       (map Ok (hash_objects (mt_A C) hash data (alg_default (mt_A C)))) config w"

text \<open>The leaves of a byte slice go into the store as they are, without a leaf hash.\<close>

definition from_byte_slice ::
  "('w, 's, 'e, 'a) merkle_types \<Rightarrow> nat \<Rightarrow> byte list \<Rightarrow> 'w \<Rightarrow> (('s, 'e) merkle_tree \<times> 'w) outcome" where
  "from_byte_slice C branches leafs w =
     and_then (usize_rem (length leafs) (el_byte_len (mt_E C))) (\<lambda>r.
     ensure (r = 0) NotMultipleOfElement (
     let leafs_count = length leafs div el_byte_len (mt_E C) in
     ensure (leafs_count > 1) NotEnoughLeaves (
     and_then (next_pow2 leafs_count) (\<lambda>p. ensure (p = leafs_count) SizeNotPow2 (
     and_then (next_pow2 branches) (\<lambda>q. ensure (q = branches) BranchesNotPow2 (
     and_then (get_merkle_tree_len leafs_count branches) (\<lambda>len.
     and_then (get_merkle_tree_row_count (mt_flog C) leafs_count branches) (\<lambda>row_count.
     and_then (map_err FailedToCreateStore (st_new_from_slice (mt_S C) len leafs w)) (\<lambda>(data, w).
     and_then (st_build (mt_S C) (mt_A C) branches leafs_count row_count None data w) (\<lambda>(root, data, w).
     Ok (base_tree data leafs_count len row_count root, w))))))))))))"

definition from_byte_slice_with_config ::
  "('w, 's, 'e, 'a) merkle_types \<Rightarrow> nat \<Rightarrow> byte list \<Rightarrow> store_config \<Rightarrow> 'w \<Rightarrow> (('s, 'e) merkle_tree \<times> 'w) outcome"
where
  "from_byte_slice_with_config C branches leafs config w =
     and_then (usize_rem (length leafs) (el_byte_len (mt_E C))) (\<lambda>r.
     ensure (r = 0) NotMultipleOfElement (
     let leafs_count = length leafs div el_byte_len (mt_E C) in
     ensure (leafs_count > 1) NotEnoughLeaves (
     and_then (next_pow2 leafs_count) (\<lambda>p. ensure (p = leafs_count) SizeNotPow2 (
     and_then (next_pow2 branches) (\<lambda>q. ensure (q = branches) BranchesNotPow2 (
     and_then (get_merkle_tree_len leafs_count branches) (\<lambda>len.
     and_then (get_merkle_tree_row_count (mt_flog C) leafs_count branches) (\<lambda>row_count.
     and_then
       (map_err FailedToCreateStore (st_new_from_slice_with_config (mt_S C) len branches leafs config w))
       (\<lambda>(data, w).
     and_then (st_build (mt_S C) (mt_A C) branches leafs_count row_count (Some config) data w)
       (\<lambda>(root, data, w).
     Ok (base_tree data leafs_count len row_count root, w))))))))))))"

text \<open>
  A tree over a store that already holds it. \<open>n\<close> and \<open>t\<close> are the arities of the upper
  layers.
\<close>

definition from_data_store ::
  "('w, 's, 'e, 'a) merkle_types \<Rightarrow> nat \<Rightarrow> nat \<Rightarrow> nat \<Rightarrow> 's \<Rightarrow> nat \<Rightarrow> 'w \<Rightarrow> ('s, 'e) merkle_tree outcome" where
  "from_data_store C branches n t data leafs w =
     ensure (n = 0) DataStoreHasSubTrees (
     ensure (t = 0) DataStoreHasTopLayer (
     and_then (next_pow2 leafs) (\<lambda>p. ensure (p = leafs) LeafsNotPow2 (
     and_then (next_pow2 branches) (\<lambda>q. ensure (q = branches) BranchesNotPow2 (
     and_then (get_merkle_tree_len leafs branches) (\<lambda>tree_len.
     ensure (tree_len = st_len (mt_S C) data) InconsistentTreeData (
     and_then (is_merkle_tree_size_valid leafs branches) (\<lambda>valid.
     ensure valid TreeSizeInvalid (
     and_then (get_merkle_tree_row_count (mt_flog C) leafs branches) (\<lambda>row_count.
     and_then (usize_sub (st_len (mt_S C) data) 1) (\<lambda>last.
     and_then (st_read_at (mt_S C) last data w) (\<lambda>root.
     Ok (base_tree data leafs tree_len row_count root))))))))))))))"

definition from_tree_slice ::
  "('w, 's, 'e, 'a) merkle_types \<Rightarrow> nat \<Rightarrow> nat \<Rightarrow> nat \<Rightarrow> byte list \<Rightarrow> nat \<Rightarrow> 'w \<Rightarrow>
     (('s, 'e) merkle_tree \<times> 'w) outcome" where
  "from_tree_slice C branches n t data leafs w =
     ensure (n = 0) DataStoreHasSubTrees (
     ensure (t = 0) DataStoreHasTopLayer (
     and_then (get_merkle_tree_row_count (mt_flog C) leafs branches) (\<lambda>row_count.
     and_then (get_merkle_tree_len leafs branches) (\<lambda>tree_len.
     and_then (usize_div (length data) (el_byte_len (mt_E C))) (\<lambda>nodes.
     ensure (tree_len = nodes) InconsistentTreeData (
     and_then (is_merkle_tree_size_valid leafs branches) (\<lambda>valid.
     ensure valid TreeSizeInvalid (
     and_then (map_err FailedToCreateStore (st_new_from_slice (mt_S C) tree_len data w)) (\<lambda>(store, w).
     and_then (usize_sub (length data) 1) (\<lambda>last.
     and_then (st_read_at (mt_S C) last store w) (\<lambda>root.
     Ok (base_tree store leafs tree_len row_count root, w))))))))))))"

definition from_tree_slice_with_config ::
  "('w, 's, 'e, 'a) merkle_types \<Rightarrow> nat \<Rightarrow> nat \<Rightarrow> nat \<Rightarrow> byte list \<Rightarrow> nat \<Rightarrow> store_config \<Rightarrow> 'w \<Rightarrow>
     (('s, 'e) merkle_tree \<times> 'w) outcome" where
  "from_tree_slice_with_config C branches n t data leafs config w =
     ensure (n = 0) DataStoreHasSubTrees (
     ensure (t = 0) DataStoreHasTopLayer (
     and_then (get_merkle_tree_row_count (mt_flog C) leafs branches) (\<lambda>row_count.
     and_then (get_merkle_tree_len leafs branches) (\<lambda>tree_len.
     and_then (usize_div (length data) (el_byte_len (mt_E C))) (\<lambda>nodes.
     ensure (tree_len = nodes) InconsistentTreeData (
     and_then (is_merkle_tree_size_valid leafs branches) (\<lambda>valid.
     ensure valid TreeSizeInvalid (
     and_then
       (map_err FailedToCreateStore (st_new_from_slice_with_config (mt_S C) tree_len branches data config w))
       (\<lambda>(store, w).
     and_then (usize_sub (length data) 1) (\<lambda>last.
     and_then (st_read_at (mt_S C) last store w) (\<lambda>root.
     Ok (base_tree store leafs tree_len row_count root, w))))))))))))"

end
