(* ===== verification/Compound.thy ===== *)
theory Compound
  imports Gen_Proof Build
begin

text \<open>
  Compound trees (\<open>src/merkle.rs\<close>): the constructors that put trees under a sub-tree layer or
  a top layer. \<open>b\<close>, \<open>n\<close>, \<open>t\<close> are the three arities of the tree that is built.
\<close>

section \<open>Combining trees\<close>

text \<open>\<open>trees.iter().fold(0, |acc, mt| acc + ..)\<close>\<close>

definition sum_usize :: "nat list \<Rightarrow> nat outcome" where
  "sum_usize xs = for_each (\<lambda>x acc. usize_add acc x) xs 0"

definition combine_trees ::
  "('w, 's, 'e, 'a) merkle_types \<Rightarrow> ('s, 'e) merkle_tree list \<Rightarrow> (nat \<times> nat \<times> nat \<times> 'e) outcome" where
  "combine_trees C trees =
     and_then (sum_usize (map mt_leafs trees)) (\<lambda>leafs.
     and_then (sum_usize (map (mt_len C) trees)) (\<lambda>sum.
     and_then (usize_add sum 1) (\<lambda>len.
     and_then (index_at trees 0) (\<lambda>first.
     and_then (usize_add (mt_row_count first) 1) (\<lambda>row_count.
     let roots = map mt_root trees;
         root = node_hash (mt_A C) 1 roots in
     Ok (leafs, len, row_count, root))))))"

definition same_row_counts :: "('s, 'e) merkle_tree list \<Rightarrow> bool" where
  "same_row_counts trees = list_all (\<lambda>mt. mt_row_count mt = mt_row_count (trees ! 0)) trees"

definition same_lengths :: "('w, 's, 'e, 'a) merkle_types \<Rightarrow> ('s, 'e) merkle_tree list \<Rightarrow> bool" where
  "same_lengths C trees = list_all (\<lambda>mt. mt_len C mt = mt_len C (trees ! 0)) trees"

definition from_trees ::
  "('w, 's, 'e, 'a) merkle_types \<Rightarrow> nat \<Rightarrow> ('s, 'e) merkle_tree list \<Rightarrow> ('s, 'e) merkle_tree outcome" where
  "from_trees C n trees =
     ensure (n > 0) NoSubTreeArity (
     ensure (same_row_counts trees) RowCountsDiffer (
     ensure (same_lengths C trees) LengthsDiffer (
     ensure (length trees = n) WrongNumberOfTrees (
     and_then
       (if n = 0
        then and_then (index_at trees 0) (\<lambda>mt. Ok (mt_leafs mt, mt_len C mt, mt_row_count mt, mt_root mt))
        else combine_trees C trees)
       (\<lambda>(leafs, len, row_count, root). Ok (MerkleTree (SubTree trees) leafs len row_count root))))))"

definition from_sub_trees ::
  "('w, 's, 'e, 'a) merkle_types \<Rightarrow> nat \<Rightarrow> ('s, 'e) merkle_tree list \<Rightarrow> ('s, 'e) merkle_tree outcome" where
  "from_sub_trees C t trees =
     ensure (t > 0) NoTopTreeArity (
     ensure (same_row_counts trees) RowCountsDiffer (
     ensure (same_lengths C trees) LengthsDiffer (
     ensure (length trees = t) WrongNumberOfTrees (
     and_then (combine_trees C trees) (\<lambda>(leafs, len, row_count, root).
     Ok (MerkleTree (TopTree trees) leafs len row_count root))))))"

text \<open>
  The grouping of \<open>from_sub_trees_as_trees\<close>: \<open>split_off(at)\<close> returns the elements from
  \<open>at\<close> on and keeps the ones before; the number of rounds is fixed by the initial length, the
  place of each cut by the current one. The trees that are left come first.
\<close>

definition group_trees :: "nat \<Rightarrow> 'x list \<Rightarrow> 'x list list outcome" where
  "group_trees sub_tree_count trees =
     and_then (usize_div (length trees) sub_tree_count) (\<lambda>step.
     panic_unless (step \<noteq> 0) ZeroStep (
     and_then
       (for_each
         (\<lambda>_ (trees, grouped).
           and_then (usize_div (length trees) sub_tree_count) (\<lambda>at.
           Ok (take at trees, grouped @ [drop at trees])))
         (step_range 0 sub_tree_count step) (trees, []))
       (\<lambda>(trees, grouped). Ok (trees # grouped))))"

definition from_sub_trees_as_trees ::
  "('w, 's, 'e, 'a) merkle_types \<Rightarrow> nat \<Rightarrow> nat \<Rightarrow> ('s, 'e) merkle_tree list \<Rightarrow> ('s, 'e) merkle_tree outcome"
where
  "from_sub_trees_as_trees C n t trees =
     ensure (t > 0) NoTopTreeArity (
     ensure (same_row_counts trees) RowCountsDiffer (
     ensure (same_lengths C trees) LengthsDiffer (
     and_then (usize_mul t n) (\<lambda>top_layer_nodes.
     ensure (length trees = top_layer_nodes) WrongNumberOfTrees (
     and_then (group_trees t trees) (\<lambda>grouped_trees.
     and_then (map_outcome (from_trees C n) grouped_trees) (\<lambda>sub_trees.
     and_then (combine_trees C sub_trees) (\<lambda>(leafs, len, row_count, root).
     Ok (MerkleTree (TopTree sub_trees) leafs len row_count root)))))))))"


section \<open>Constructors over slices, stores and configurations\<close>

definition from_slices ::
  "('w, 's, 'e, 'a) merkle_types \<Rightarrow> nat \<Rightarrow> nat \<Rightarrow> byte list list \<Rightarrow> nat \<Rightarrow> 'w \<Rightarrow>
     (('s, 'e) merkle_tree \<times> 'w) outcome" where
  "from_slices C b n slices leafs w =
     and_then
       (for_each
         (\<lambda>data (trees, w).
           and_then (from_tree_slice C b 0 0 data leafs w) (\<lambda>(tree, w). Ok (trees @ [tree], w)))
         slices ([], w))
       (\<lambda>(trees, w). and_then (from_trees C n trees) (\<lambda>tree. Ok (tree, w)))"

definition from_slices_with_configs ::
  "('w, 's, 'e, 'a) merkle_types \<Rightarrow> nat \<Rightarrow> nat \<Rightarrow> byte list list \<Rightarrow> nat \<Rightarrow> store_config list \<Rightarrow> 'w \<Rightarrow>
     (('s, 'e) merkle_tree \<times> 'w) outcome" where
  "from_slices_with_configs C b n slices leafs configs w =
     and_then
       (for_each
         (\<lambda>i (trees, w).
           and_then (index_at slices i) (\<lambda>data.
           and_then (index_at configs i) (\<lambda>config.
           and_then (from_tree_slice_with_config C b 0 0 data leafs config w) (\<lambda>(tree, w).
           Ok (trees @ [tree], w)))))
         [0..<length slices] ([], w))
       (\<lambda>(trees, w). and_then (from_trees C n trees) (\<lambda>tree. Ok (tree, w)))"

definition from_stores ::
  "('w, 's, 'e, 'a) merkle_types \<Rightarrow> nat \<Rightarrow> nat \<Rightarrow> nat \<Rightarrow> 's list \<Rightarrow> 'w \<Rightarrow> ('s, 'e) merkle_tree outcome" where
  "from_stores C b n leafs stores w =
     and_then
       (for_each
         (\<lambda>store trees.
           and_then (from_data_store C b 0 0 store leafs w) (\<lambda>tree. Ok (trees @ [tree])))
         stores [])
       (from_trees C n)"

definition from_store_configs ::
  "('w, 's, 'e, 'a) merkle_types \<Rightarrow> nat \<Rightarrow> nat \<Rightarrow> nat \<Rightarrow> store_config list \<Rightarrow> 'w \<Rightarrow>
     (('s, 'e) merkle_tree \<times> 'w) outcome" where
  "from_store_configs C b n leafs configs w =
     and_then
       (for_each
         (\<lambda>config (trees, w).
           and_then (get_merkle_tree_len leafs b) (\<lambda>len.
           and_then (map_err FailedToCreateStore (st_new_with_config (mt_S C) len b config w)) (\<lambda>(data, w).
           and_then (from_data_store C b 0 0 data leafs w) (\<lambda>tree.
           Ok (trees @ [tree], w)))))
         configs ([], w))
       (\<lambda>(trees, w). and_then (from_trees C n trees) (\<lambda>tree. Ok (tree, w)))"

definition from_sub_tree_store_configs ::
  "('w, 's, 'e, 'a) merkle_types \<Rightarrow> nat \<Rightarrow> nat \<Rightarrow> nat \<Rightarrow> nat \<Rightarrow> store_config list \<Rightarrow> 'w \<Rightarrow>
     (('s, 'e) merkle_tree \<times> 'w) outcome" where
  "from_sub_tree_store_configs C b n t leafs configs w =
     (let tree_count = t in
      and_then (usize_div (length configs) tree_count) (\<lambda>step.
      and_then
        (for_each
          (\<lambda>_ (trees, start, end', w).
            and_then (slice_of configs start end') (\<lambda>group.
            and_then (from_store_configs C b n leafs group w) (\<lambda>(tree, w).
            let start = end' in
            and_then (usize_add end' step) (\<lambda>end'.
            Ok (trees @ [tree], start, end', w)))))
          [0..<tree_count] ([], 0, step, w))
        (\<lambda>(trees, start, end', w).
      and_then (from_sub_trees C t trees) (\<lambda>tree. Ok (tree, w)))))"


section \<open>What combining does\<close>

lemma sum_usize_Ok:
  assumes "sum_list xs < usize_limit"
  shows "sum_usize xs = Ok (sum_list xs)"
proof -
  have "for_each (\<lambda>x acc. usize_add acc x) xs a = Ok (a + sum_list xs)" if "a + sum_list xs < usize_limit" for a
    using that by (induction xs arbitrary: a) (simp_all add: add.assoc)
  from this [of 0] show ?thesis using assms by (simp add: sum_usize_def)
qed

lemma sum_list_const:
  "(\<And>x. x \<in> set xs \<Longrightarrow> f x = c) \<Longrightarrow> sum_list (map f xs) = length xs * (c :: nat)"
  by (induction xs) simp_all

text \<open>A layer over trees of one shape: \<open>leafs\<close>, \<open>len\<close> and \<open>row_count\<close> of each.\<close>

definition uniform_trees ::
  "('w, 's, 'e, 'a) merkle_types \<Rightarrow> nat \<Rightarrow> nat \<Rightarrow> nat \<Rightarrow> ('s, 'e) merkle_tree list \<Rightarrow> bool" where
  "uniform_trees C leafs len row_count trees \<longleftrightarrow>
     (\<forall>mt \<in> set trees. mt_leafs mt = leafs \<and> mt_len C mt = len \<and> mt_row_count mt = row_count) \<and>
     leafs \<le> len \<and> length trees * len + 1 < usize_limit \<and> row_count + 1 < usize_limit"

definition layer_over ::
  "('w, 's, 'e, 'a) merkle_types \<Rightarrow> ('s, ('s, 'e) merkle_tree) merkle_data \<Rightarrow> nat \<Rightarrow> nat \<Rightarrow> nat \<Rightarrow>
     ('s, 'e) merkle_tree list \<Rightarrow> ('s, 'e) merkle_tree" where
  "layer_over C data leafs len row_count trees =
     MerkleTree data (length trees * leafs) (length trees * len + 1) (row_count + 1)
       (node_hash (mt_A C) 1 (map mt_root trees))"

lemma uniform_trees_checks:
  assumes "uniform_trees C leafs len row_count trees"
  shows "same_row_counts trees" and "same_lengths C trees"
proof -
  have "mt_row_count mt = mt_row_count (trees ! 0) \<and> mt_len C mt = mt_len C (trees ! 0)" if mt: "mt \<in> set trees" for mt
  proof -
    have "trees ! 0 \<in> set trees" using mt by (cases trees) auto
    then show ?thesis using assms mt by (simp add: uniform_trees_def)
  qed
  then show "same_row_counts trees" and "same_lengths C trees"
    by (simp_all add: same_row_counts_def same_lengths_def list_all_iff)
qed

lemma combine_trees_Ok:
  assumes "uniform_trees C leafs len row_count trees" and "trees \<noteq> []"
  shows "combine_trees C trees =
    Ok (length trees * leafs, length trees * len + 1, row_count + 1, node_hash (mt_A C) 1 (map mt_root trees))"
proof -
  have all: "\<forall>mt \<in> set trees. mt_leafs mt = leafs \<and> mt_len C mt = len \<and> mt_row_count mt = row_count"
    and le: "leafs \<le> len" and word: "length trees * len + 1 < usize_limit" "row_count + 1 < usize_limit"
    using assms(1) by (simp_all add: uniform_trees_def)
  have l: "sum_list (map mt_leafs trees) = length trees * leafs"
    and n: "sum_list (map (mt_len C) trees) = length trees * len"
    using all by (auto intro: sum_list_const)
  have "length trees * leafs \<le> length trees * len" using le by simp
  then have "length trees * leafs < usize_limit" using word(1) by linarith
  moreover have "length trees * len < usize_limit" using word(1) by linarith
  ultimately have "sum_usize (map mt_leafs trees) = Ok (length trees * leafs)"
    "sum_usize (map (mt_len C) trees) = Ok (length trees * len)"
    using sum_usize_Ok l n by metis+
  moreover have "mt_row_count (trees ! 0) = row_count" using all assms(2) by (simp add: nth_mem)
  ultimately show ?thesis using assms(2) word by (simp add: combine_trees_def Let_def)
qed

lemma from_trees_Ok:
  assumes "uniform_trees C leafs len row_count trees" and "length trees = n" and "0 < n"
  shows "from_trees C n trees = Ok (layer_over C (SubTree trees) leafs len row_count trees)"
  using combine_trees_Ok [OF assms(1)] uniform_trees_checks [OF assms(1)] assms(2,3)
  by (auto simp: from_trees_def layer_over_def)

lemma from_sub_trees_Ok:
  assumes "uniform_trees C leafs len row_count trees" and "length trees = t" and "0 < t"
  shows "from_sub_trees C t trees = Ok (layer_over C (TopTree trees) leafs len row_count trees)"
  using combine_trees_Ok [OF assms(1)] uniform_trees_checks [OF assms(1)] assms(2,3)
  by (auto simp: from_sub_trees_def layer_over_def)

lemma layer_over_fields [simp]:
  "mt_leafs (layer_over C data leafs len row_count trees) = length trees * leafs"
  "tree_leafs (layer_over C data leafs len row_count trees) = length trees * leafs"
  "tree_data (layer_over C data leafs len row_count trees) = data"
  "mt_row_count (layer_over C data leafs len row_count trees) = row_count + 1"
  "mt_root (layer_over C data leafs len row_count trees) = node_hash (mt_A C) 1 (map mt_root trees)"
  "mt_len C (layer_over C (SubTree trees) leafs len row_count trees) = length trees * len + 1"
  "mt_len C (layer_over C (TopTree trees) leafs len row_count trees) = length trees * len + 1"
  by (simp_all add: layer_over_def mt_leafs_def mt_row_count_def mt_root_def mt_len_def)


section \<open>Grouping\<close>

text \<open>With two top nodes over at least two trees each the grouping is the halves \dots\<close>

lemma group_trees_two:
  assumes "length trees = 2 * n" and "2 \<le> n"
  shows "group_trees 2 trees = Ok [take n trees, drop n trees]"
proof -
  have "step_range 0 2 n = [0]"
    using assms(2) by (subst step_range.simps) (simp add: step_range.simps)
  then show ?thesis using assms by (simp add: group_trees_def)
qed

text \<open>
  \dots and otherwise some group has the wrong size. In the first round all but \<open>n\<close> trees are
  cut off, from the second round on the cut is at 0.
\<close>

lemma group_trees_other:
  assumes "length trees = t * n" and "0 < t" and "0 < n" and "\<not> (t = 2 \<and> 2 \<le> n)"
  shows "\<exists>groups. group_trees t trees = Ok groups \<and> (\<exists>g \<in> set groups. length g \<noteq> n)"
proof -
  let ?f = "\<lambda>_ (trees, grouped).
           and_then (usize_div (length trees) t) (\<lambda>at.
           Ok (take at trees, grouped @ [drop at trees]))"
  have div: "length trees div t = n" using assms(1,2) by simp
  have empty: "\<exists>more. for_each ?f xs ([], gs) = Ok ([], gs @ more)" for xs :: "nat list" and gs
  proof (induction xs arbitrary: gs)
    case (Cons x xs)
    from Cons.IH [of "gs @ [[]]"] show ?case using assms(2) by auto
  qed simp
  have first: "?f 0 (trees, []) = Ok (take n trees, [drop n trees])" using div assms(2) by simp
  have range: "step_range 0 t n = 0 # step_range n t n"
    using assms(2,3) by (subst step_range.simps) simp
  show ?thesis
  proof (cases "t \<le> n")
    case True
    then have "t \<noteq> 2" using assms(4) by auto
    have "step_range n t n = []" using True by simp
    then have "group_trees t trees = Ok [take n trees, drop n trees]"
      using range first div assms(2,3) by (simp add: group_trees_def)
    moreover have "length (drop n trees) \<noteq> n"
    proof -
      have "length (drop n trees) = (t - 1) * n" using assms(1) by (simp add: diff_mult_distrib)
      then show ?thesis using \<open>t \<noteq> 2\<close> assms(2,3) by (cases t) auto
    qed
    ultimately show ?thesis by auto
  next
    case False
    then have range2: "step_range n t n = n # step_range (n + n) t n"
      using assms(3) by (subst step_range.simps) simp
    have "length (take n trees) div t = 0" using False assms(1,2) by simp
    then have second: "?f n (take n trees, [drop n trees]) = Ok ([], [drop n trees, take n trees])"
      using assms(2) by simp
    from empty [of "step_range (n + n) t n" "[drop n trees, take n trees]"]
    obtain more where "for_each ?f (step_range (n + n) t n) ([], [drop n trees, take n trees]) =
        Ok ([], [drop n trees, take n trees] @ more)" by auto
    then have loop: "for_each ?f (step_range 0 t n) (trees, []) = Ok ([], [drop n trees, take n trees] @ more)"
      by (simp only: range range2 for_each.simps first second and_then.simps)
    have "usize_div (length trees) t = Ok n" using div assms(2) by simp
    with loop have "group_trees t trees = Ok ([] # [drop n trees, take n trees] @ more)"
      using assms(3) by (simp add: group_trees_def del: usize_div_Ok)
    then show ?thesis using assms(3) by (intro exI [of _ "[] # [drop n trees, take n trees] @ more"]) auto
  qed
qed

end
