(* ===== verification/Build_Correct.thy ===== *)
theory Build_Correct
  imports Build
begin

text \<open>
  Correctness of the constructors of \<open>Build\<close>, for every store that keeps the contract
  \<open>tree_store\<close> and every algorithm whose \<open>reset\<close> gives a fresh hasher.
\<close>

text \<open>
  What a correct base tree over the leaf hashes \<open>xs\<close> is: the rows of the complete tree in the
  store, and their number, length and root in the fields.
\<close>

definition built_tree ::
  "('w, 's, 'e, 'a) merkle_types \<Rightarrow> ('s \<Rightarrow> 'w \<Rightarrow> bool) \<Rightarrow> ('s \<Rightarrow> 'w \<Rightarrow> 'e list) \<Rightarrow> nat \<Rightarrow> nat \<Rightarrow> 'e list \<Rightarrow>
     ('s, 'e) merkle_tree \<Rightarrow> 'w \<Rightarrow> bool" where
  "built_tree C valid elems b k xs tree w \<longleftrightarrow>
     (\<exists>s. tree = MerkleTree (BaseTree s) (b ^ k) (tree_len b k) (Suc k)
            (tree_root (node_hash (mt_A C)) b k xs) \<and>
          valid s w \<and> elems s w = tree_nodes (node_hash (mt_A C)) b k xs)"

text \<open>The size of the tree in bytes, for which the stores allocate.\<close>

definition tree_fits :: "('w, 's, 'e, 'a) merkle_types \<Rightarrow> nat \<Rightarrow> nat \<Rightarrow> bool" where
  "tree_fits C m k \<longleftrightarrow>
     tree_shape m k \<and> m \<le> 12 \<and> rows_exact (mt_flog C) m k \<and>
     tree_len (2 ^ m) k * el_byte_len (mt_E C) < isize_limit"

lemma tree_fits_size_valid:
  assumes "tree_shape m k"
  shows "is_merkle_tree_size_valid ((2 ^ m) ^ k) (2 ^ m) = Ok True"
proof -
  have "(2 ^ m :: nat) ^ k < 2 ^ 63" using assms by (simp add: tree_shape_def)
  then show ?thesis
    using size_valid_iff [of m "(2 ^ m) ^ k"] assms tree_shape_arity(1) [OF assms] by (auto simp: tree_shape_def)
qed

lemma tree_fits_facts:
  assumes "tree_fits C m k"
  shows "1 < (2 ^ m :: nat) ^ k" and "next_pow2 ((2 ^ m) ^ k) = Ok ((2 ^ m) ^ k)"
    and "next_pow2 (2 ^ m) = Ok (2 ^ m)" and "get_merkle_tree_len ((2 ^ m) ^ k) (2 ^ m) = Ok (tree_len (2 ^ m) k)"
    and "get_merkle_tree_row_count (mt_flog C) ((2 ^ m) ^ k) (2 ^ m) = Ok (Suc k)"
    and "is_merkle_tree_size_valid ((2 ^ m) ^ k) (2 ^ m) = Ok True"
  using assms tree_fits_size_valid [of m k] tree_len_ok [of m k] row_count_power [of m k "mt_flog C"] tree_shape_facts [of m k]
  by (auto simp: tree_fits_def tree_shape_def intro: one_less_power)

locale merkle_build =
  tree_store "mt_E C" "mt_S C" inv elems capacity world fresh + algorithm_contract "mt_A C"
  for C :: "('w, 's, 'e, 'a) merkle_types" and inv elems capacity world fresh
begin

abbreviation leaf_hashes :: "'e list \<Rightarrow> 'e list" where
  "leaf_hashes xs \<equiv> map (leaf_hash (mt_A C)) xs"

abbreviation encode :: "'e list \<Rightarrow> byte list" where
  "encode es \<equiv> concat (map (el_as_ref (mt_E C)) es)"

lemma block_word: "BUILD_DATA_BLOCK_SIZE * el_byte_len (mt_E C) < usize_limit"
  using byte_len_small by (simp add: BUILD_DATA_BLOCK_SIZE_def BUILD_CHUNK_NODES_def)


section \<open>populate_data\<close>

lemma populate_loop:
  assumes "inv s w" and "length (elems s w) + length dec + length xs \<le> capacity s w"
  shows "\<exists>a' dec' s' w'. for_each
      (\<lambda>item (a, buf, data, w).
        and_then item (\<lambda>item.
        let a = alg_reset (mt_A C) a;
            (leaf, a) = alg_leaf (mt_A C) item a;
            buf = buf @ el_as_ref (mt_E C) leaf in
        if length buf \<ge> block
        then
          and_then (st_copy_from_slice (mt_S C) buf (st_len (mt_S C) data) data w) (\<lambda>(data, w).
          Ok (a, [], data, w))
        else Ok (a, buf, data, w)))
      (map Ok xs) (a, encode dec, s, w) = Ok (a', encode dec', s', w')
    \<and> inv s' w' \<and> capacity s' w' = capacity s w
    \<and> elems s' w' @ dec' = elems s w @ dec @ leaf_hashes xs"
  using assms
proof (induction xs arbitrary: a dec s w)
  case Nil
  then show ?case by auto
next
  case (Cons x xs)
  obtain a1 where leaf: "alg_leaf (mt_A C) x (alg_reset (mt_A C) a) = (leaf_hash (mt_A C) x, a1)"
    using leaf_after_reset [of x a] by (metis prod.collapse)
  let ?dec = "dec @ [leaf_hash (mt_A C) x]"
  have enc: "encode dec @ el_as_ref (mt_E C) (leaf_hash (mt_A C) x) = encode ?dec" by simp
  show ?case
  proof (cases "length (encode ?dec) \<ge> block")
    case True
    obtain s1 w1 where copy: "st_copy_from_slice (mt_S C) (encode ?dec) (length (elems s w)) s w = Ok (s1, w1)"
      and 1: "inv s1 w1" "capacity s1 w1 = capacity s w" "elems s1 w1 = elems s w @ ?dec"
      using copy_at_end [OF Cons.prems(1), of ?dec] Cons.prems(2) by auto
    have "length (elems s1 w1) + length [] + length xs \<le> capacity s1 w1"
      using 1 Cons.prems(2) by simp
    from Cons.IH [OF 1(1) this, of a1] show ?thesis
      using True leaf copy 1 len_elems [OF Cons.prems(1)] by (simp add: Let_def)
  next
    case False
    have "length (elems s w) + length ?dec + length xs \<le> capacity s w" using Cons.prems(2) by simp
    from Cons.IH [OF Cons.prems(1) this, of a1] show ?thesis
      using False leaf by (simp add: Let_def)
  qed
qed

lemma populate_data_Ok:
  assumes "inv s w" and "elems s w = []" and "length xs \<le> capacity s w"
  shows "\<exists>s' w'. populate_data C s (map Ok xs) w = Ok (s', w') \<and> inv s' w' \<and>
    capacity s' w' = capacity s w \<and> elems s' w' = leaf_hashes xs"
proof -
  obtain a1 dec s1 w1 where loop: "for_each
      (\<lambda>item (a, buf, data, w).
        and_then item (\<lambda>item.
        let a = alg_reset (mt_A C) a;
            (leaf, a) = alg_leaf (mt_A C) item a;
            buf = buf @ el_as_ref (mt_E C) leaf in
        if length buf \<ge> BUILD_DATA_BLOCK_SIZE * el_byte_len (mt_E C)
        then
          and_then (st_copy_from_slice (mt_S C) buf (st_len (mt_S C) data) data w) (\<lambda>(data, w).
          Ok (a, [], data, w))
        else Ok (a, buf, data, w)))
      (map Ok xs) (alg_default (mt_A C), [], s, w) = Ok (a1, encode dec, s1, w1)"
    and 1: "inv s1 w1" "capacity s1 w1 = capacity s w" "elems s1 w1 @ dec = leaf_hashes xs"
    using populate_loop [OF assms(1), of "[]" xs "BUILD_DATA_BLOCK_SIZE * el_byte_len (mt_E C)"
        "alg_default (mt_A C)"] assms(2,3) by auto
  have "length (elems s1 w1) + length dec \<le> capacity s1 w1"
    using 1 assms(3) by (metis length_append length_map)
  then obtain s2 w2 where "st_copy_from_slice (mt_S C) (encode dec) (st_len (mt_S C) s1) s1 w1 = Ok (s2, w2)"
    "inv s2 w2" "capacity s2 w2 = capacity s w" "elems s2 w2 = leaf_hashes xs"
    using copy_at_end [OF 1(1), of dec] 1 len_elems [OF 1(1)] by auto
  then show ?thesis
    using loop block_word is_empty_elems [OF assms(1)] assms(2)
    by (simp add: populate_data_def sync_Ok)
qed

text \<open>An error of the iterator stops the loop and is returned.\<close>

lemma populate_data_Err:
  assumes "inv s w" and "elems s w = []" and "length xs \<le> capacity s w"
  shows "populate_data C s (map Ok xs @ Err e # rest) w = Err e"
proof -
  from populate_loop [OF assms(1), of "[]" xs "BUILD_DATA_BLOCK_SIZE * el_byte_len (mt_E C)"
        "alg_default (mt_A C)"] assms(2,3)
  show ?thesis
    using block_word is_empty_elems [OF assms(1)]
    by (auto simp: populate_data_def for_each_append)
qed


section \<open>populate_data_par\<close>

lemma leaf_block_encode: "leaf_block C chunk = encode (leaf_hashes chunk)"
proof -
  have "snd (fold (\<lambda>item (a, buf).
         let a = alg_reset (mt_A C) a;
             (leaf, a) = alg_leaf (mt_A C) item a in
         (a, buf @ el_as_ref (mt_E C) leaf)) chunk (a, buf)) = buf @ encode (leaf_hashes chunk)" for a buf
  proof (induction chunk arbitrary: a buf)
    case (Cons x chunk)
    obtain a1 where "alg_leaf (mt_A C) x (alg_reset (mt_A C) a) = (leaf_hash (mt_A C) x, a1)"
      using leaf_after_reset [of x a] by (metis prod.collapse)
    with Cons show ?case by (simp add: Let_def)
  qed simp
  then show ?thesis by (simp add: leaf_block_def)
qed

lemma write_leaf_block_Ok:
  assumes "inv s w" and "BUILD_DATA_BLOCK_SIZE * i + length chunk \<le> capacity s w"
  shows "\<exists>s' w'. write_leaf_block C (i, chunk) (s, w) = Ok (s', w') \<and> inv s' w' \<and>
    capacity s' w' = capacity s w \<and>
    written (BUILD_DATA_BLOCK_SIZE * i) (leaf_hashes chunk) (elems s w) (elems s' w')"
proof -
  have "BUILD_DATA_BLOCK_SIZE * i < usize_limit"
    using assms(2) capacity_word [OF assms(1)] by linarith
  then show ?thesis
    using copy_from_slice_Ok [OF assms(1), of "BUILD_DATA_BLOCK_SIZE * i" "leaf_hashes chunk"] assms(2)
    by (simp add: write_leaf_block_def leaf_block_encode)
qed

lemma write_leaf_blocks:
  assumes "inv s w" and "elems s w = pre" and "length pre = BUILD_DATA_BLOCK_SIZE * i"
    and "length pre + length xs \<le> capacity s w"
  shows "\<exists>s' w'. for_each (write_leaf_block C) (enumerate i (chunks BUILD_DATA_BLOCK_SIZE xs)) (s, w) = Ok (s', w')
    \<and> inv s' w' \<and> capacity s' w' = capacity s w \<and> elems s' w' = pre @ leaf_hashes xs"
  using assms
proof (induction "length xs" arbitrary: xs i pre s w rule: less_induct)
  case less
  have B: "0 < BUILD_DATA_BLOCK_SIZE" by (simp add: BUILD_DATA_BLOCK_SIZE_def BUILD_CHUNK_NODES_def)
  show ?case
  proof (cases "xs = []")
    case True
    then show ?thesis using less.prems by simp
  next
    case False
    let ?c = "take BUILD_DATA_BLOCK_SIZE xs" and ?r = "drop BUILD_DATA_BLOCK_SIZE xs"
    have step: "chunks BUILD_DATA_BLOCK_SIZE xs = ?c # chunks BUILD_DATA_BLOCK_SIZE ?r"
      using False B by (simp add: chunks_step)
    have "BUILD_DATA_BLOCK_SIZE * i + length ?c \<le> capacity s w" using less.prems(3,4) by simp
    then obtain s1 w1 where wr: "write_leaf_block C (i, ?c) (s, w) = Ok (s1, w1)"
      and 1: "inv s1 w1" "capacity s1 w1 = capacity s w" "elems s1 w1 = pre @ leaf_hashes ?c"
      using write_leaf_block_Ok [OF less.prems(1), of i ?c] less.prems(2,3) written_end [of "elems s w"] by auto
    show ?thesis
    proof (cases "?r = []")
      case True
      then have "?c = xs" by simp
      then show ?thesis using step wr 1 True by simp
    next
      case False
      then have c: "length ?c = BUILD_DATA_BLOCK_SIZE" by simp
      have "length ?r < length xs" using B \<open>xs \<noteq> []\<close> by simp
      moreover have "length (pre @ leaf_hashes ?c) = BUILD_DATA_BLOCK_SIZE * Suc i"
        using c less.prems(3) by simp
      moreover have "length (pre @ leaf_hashes ?c) + length ?r \<le> capacity s1 w1"
        using less.prems(4) 1(2) c by simp
      moreover have "leaf_hashes ?c @ leaf_hashes ?r = leaf_hashes xs"
        by (simp flip: map_append)
      ultimately show ?thesis
        using less.hyps [of ?r s1 w1 "pre @ leaf_hashes ?c" "Suc i"] 1 step wr by simp
    qed
  qed
qed

lemma populate_data_par_Ok:
  assumes "inv s w" and "elems s w = []" and "length xs \<le> capacity s w"
  shows "\<exists>s' w'. populate_data_par C s xs w = Ok (s', w') \<and> inv s' w' \<and>
    capacity s' w' = capacity s w \<and> elems s' w' = leaf_hashes xs"
  using write_leaf_blocks [OF assms(1), of "[]" 0 xs] assms is_empty_elems [OF assms(1)]
  by (auto simp: populate_data_par_def sync_Ok)


section \<open>The constructors\<close>

lemma build_tree:
  assumes "tree_fits C m k" and "inv s w" and "elems s w = xs" and "length xs = (2 ^ m) ^ k"
    and "tree_len (2 ^ m) k \<le> capacity s w"
  shows "\<exists>root s' w'. st_build (mt_S C) (mt_A C) (2 ^ m) ((2 ^ m) ^ k) (Suc k) config s w = Ok (root, s', w')
    \<and> built_tree C inv elems (2 ^ m) k xs
        (base_tree s' ((2 ^ m) ^ k) (tree_len (2 ^ m) k) (Suc k) root) w'"
  using build_Ok [OF assms(2-4), of "mt_A C" "Suc k" config] assms(1,5)
  by (auto simp: build_result_def built_tree_def base_tree_def tree_fits_def)

lemma try_from_iter_built:
  assumes "tree_fits C m k" and "world w" and "length xs = (2 ^ m) ^ k"
  shows "\<exists>tree w'. try_from_iter C (2 ^ m) (Some ((2 ^ m) ^ k)) (map Ok xs) w = Ok (tree, w')
    \<and> built_tree C inv elems (2 ^ m) k (leaf_hashes xs) tree w'"
proof -
  have fits: "tree_len (2 ^ m) k * el_byte_len (mt_E C) < isize_limit"
    using assms(1) by (simp add: tree_fits_def)
  obtain s1 w1 where new: "st_new (mt_S C) (tree_len (2 ^ m) k) w = Ok (s1, w1)"
    and 1: "inv s1 w1" "elems s1 w1 = []" "tree_len (2 ^ m) k \<le> capacity s1 w1"
    using new_Ok [OF assms(2) tree_len_pos fits] by blast
  have "length xs \<le> capacity s1 w1"
    using 1(3) tree_len_ge [of "2 ^ m" k] assms(3) by simp
  then obtain s2 w2 where pop: "populate_data C s1 (map Ok xs) w1 = Ok (s2, w2)"
    and 2: "inv s2 w2" "elems s2 w2 = leaf_hashes xs" "tree_len (2 ^ m) k \<le> capacity s2 w2"
    using populate_data_Ok [OF 1(1,2)] 1(3) by metis
  obtain root s3 w3 where
    "st_build (mt_S C) (mt_A C) (2 ^ m) ((2 ^ m) ^ k) (Suc k) None s2 w2 = Ok (root, s3, w3)"
    "built_tree C inv elems (2 ^ m) k (leaf_hashes xs)
       (base_tree s3 ((2 ^ m) ^ k) (tree_len (2 ^ m) k) (Suc k) root) w3"
    using build_tree [OF assms(1) 2(1,2) _ 2(3), of None] assms(3) by auto
  then show ?thesis
    using tree_fits_facts [OF assms(1)] new pop by (simp add: try_from_iter_def)
qed

lemma populated_store:
  assumes "inv s w" and "elems s w = []" and "tree_len (2 ^ m) k \<le> capacity s w" and "length xs = (2 ^ m) ^ k"
  shows "\<exists>s' w'. populate_data C s (map Ok xs) w = Ok (s', w') \<and> inv s' w' \<and>
      elems s' w' = leaf_hashes xs \<and> tree_len (2 ^ m) k \<le> capacity s' w'"
    and "\<exists>s' w'. populate_data_par C s xs w = Ok (s', w') \<and> inv s' w' \<and>
      elems s' w' = leaf_hashes xs \<and> tree_len (2 ^ m) k \<le> capacity s' w'"
proof -
  have "length xs \<le> capacity s w" using assms(3,4) tree_len_ge [of "2 ^ m" k] by simp
  then show "\<exists>s' w'. populate_data C s (map Ok xs) w = Ok (s', w') \<and> inv s' w' \<and>
      elems s' w' = leaf_hashes xs \<and> tree_len (2 ^ m) k \<le> capacity s' w'"
    and "\<exists>s' w'. populate_data_par C s xs w = Ok (s', w') \<and> inv s' w' \<and>
      elems s' w' = leaf_hashes xs \<and> tree_len (2 ^ m) k \<le> capacity s' w'"
    using populate_data_Ok [OF assms(1,2)] populate_data_par_Ok [OF assms(1,2)] assms(3) by metis+
qed

lemma try_from_iter_with_config_built:
  assumes "tree_fits C m k" and "world w" and "fresh config w" and "length xs = (2 ^ m) ^ k"
  shows "\<exists>tree w'. try_from_iter_with_config C (2 ^ m) (Some ((2 ^ m) ^ k)) (map Ok xs) config w = Ok (tree, w')
    \<and> built_tree C inv elems (2 ^ m) k (leaf_hashes xs) tree w'"
proof -
  have fits: "tree_len (2 ^ m) k * el_byte_len (mt_E C) < isize_limit"
    using assms(1) by (simp add: tree_fits_def)
  obtain s1 w1 where new: "st_new_with_config (mt_S C) (tree_len (2 ^ m) k) (2 ^ m) config w = Ok (s1, w1)"
    "\<not> st_loaded_from_disk (mt_S C) s1"
    and 1: "inv s1 w1" "elems s1 w1 = []" "tree_len (2 ^ m) k \<le> capacity s1 w1"
    using new_with_config_Ok [OF assms(2,3) tree_len_pos fits] by blast
  obtain s2 w2 where pop: "populate_data C s1 (map Ok xs) w1 = Ok (s2, w2)"
    and 2: "inv s2 w2" "elems s2 w2 = leaf_hashes xs" "tree_len (2 ^ m) k \<le> capacity s2 w2"
    using populated_store(1) [OF 1 assms(4)] by blast
  obtain root s3 w3 where
    "st_build (mt_S C) (mt_A C) (2 ^ m) ((2 ^ m) ^ k) (Suc k) (Some config) s2 w2 = Ok (root, s3, w3)"
    "built_tree C inv elems (2 ^ m) k (leaf_hashes xs)
       (base_tree s3 ((2 ^ m) ^ k) (tree_len (2 ^ m) k) (Suc k) root) w3"
    using build_tree [OF assms(1) 2(1,2) _ 2(3), of "Some config"] assms(4) by auto
  then show ?thesis
    using tree_fits_facts [OF assms(1)] new pop by (simp add: try_from_iter_with_config_def)
qed

lemma from_par_iter_built:
  assumes "tree_fits C m k" and "world w" and "length xs = (2 ^ m) ^ k"
  shows "\<exists>tree w'. from_par_iter C (2 ^ m) xs w = Ok (tree, w')
    \<and> built_tree C inv elems (2 ^ m) k (leaf_hashes xs) tree w'"
proof -
  have fits: "tree_len (2 ^ m) k * el_byte_len (mt_E C) < isize_limit"
    using assms(1) by (simp add: tree_fits_def)
  obtain s1 w1 where new: "st_new (mt_S C) (tree_len (2 ^ m) k) w = Ok (s1, w1)"
    and 1: "inv s1 w1" "elems s1 w1 = []" "tree_len (2 ^ m) k \<le> capacity s1 w1"
    using new_Ok [OF assms(2) tree_len_pos fits] by blast
  obtain s2 w2 where pop: "populate_data_par C s1 xs w1 = Ok (s2, w2)"
    and 2: "inv s2 w2" "elems s2 w2 = leaf_hashes xs" "tree_len (2 ^ m) k \<le> capacity s2 w2"
    using populated_store(2) [OF 1 assms(3)] by blast
  obtain root s3 w3 where
    "st_build (mt_S C) (mt_A C) (2 ^ m) ((2 ^ m) ^ k) (Suc k) None s2 w2 = Ok (root, s3, w3)"
    "built_tree C inv elems (2 ^ m) k (leaf_hashes xs)
       (base_tree s3 ((2 ^ m) ^ k) (tree_len (2 ^ m) k) (Suc k) root) w3"
    using build_tree [OF assms(1) 2(1,2) _ 2(3), of None] assms(3) by auto
  then show ?thesis
    using tree_fits_facts [OF assms(1)] new pop assms(3) by (simp add: from_par_iter_def)
qed

lemma from_par_iter_with_config_built:
  assumes "tree_fits C m k" and "world w" and "fresh config w" and "length xs = (2 ^ m) ^ k"
  shows "\<exists>tree w'. from_par_iter_with_config C (2 ^ m) xs config w = Ok (tree, w')
    \<and> built_tree C inv elems (2 ^ m) k (leaf_hashes xs) tree w'"
proof -
  have fits: "tree_len (2 ^ m) k * el_byte_len (mt_E C) < isize_limit"
    using assms(1) by (simp add: tree_fits_def)
  obtain s1 w1 where new: "st_new_with_config (mt_S C) (tree_len (2 ^ m) k) (2 ^ m) config w = Ok (s1, w1)"
    "\<not> st_loaded_from_disk (mt_S C) s1"
    and 1: "inv s1 w1" "elems s1 w1 = []" "tree_len (2 ^ m) k \<le> capacity s1 w1"
    using new_with_config_Ok [OF assms(2,3) tree_len_pos fits] by blast
  obtain s2 w2 where pop: "populate_data_par C s1 xs w1 = Ok (s2, w2)"
    and 2: "inv s2 w2" "elems s2 w2 = leaf_hashes xs" "tree_len (2 ^ m) k \<le> capacity s2 w2"
    using populated_store(2) [OF 1 assms(4)] by blast
  obtain root s3 w3 where
    "st_build (mt_S C) (mt_A C) (2 ^ m) ((2 ^ m) ^ k) (Suc k) (Some config) s2 w2 = Ok (root, s3, w3)"
    "built_tree C inv elems (2 ^ m) k (leaf_hashes xs)
       (base_tree s3 ((2 ^ m) ^ k) (tree_len (2 ^ m) k) (Suc k) root) w3"
    using build_tree [OF assms(1) 2(1,2) _ 2(3), of "Some config"] assms(4) by auto
  then show ?thesis
    using tree_fits_facts [OF assms(1)] new pop assms(4) by (simp add: from_par_iter_with_config_def)
qed

text \<open>The byte slice constructors take the leaves as they are.\<close>

lemma from_byte_slice_built:
  assumes "tree_fits C m k" and "world w" and "length xs = (2 ^ m) ^ k"
  shows "\<exists>tree w'. from_byte_slice C (2 ^ m) (encode xs) w = Ok (tree, w')
    \<and> built_tree C inv elems (2 ^ m) k xs tree w'"
proof -
  have fits: "tree_len (2 ^ m) k * el_byte_len (mt_E C) < isize_limit"
    using assms(1) by (simp add: tree_fits_def)
  have len: "length xs \<le> tree_len (2 ^ m) k" using assms(3) tree_len_ge [of "2 ^ m" k] by simp
  obtain s1 w1 where new: "st_new_from_slice (mt_S C) (tree_len (2 ^ m) k) (encode xs) w = Ok (s1, w1)"
    and 1: "inv s1 w1" "elems s1 w1 = xs" "tree_len (2 ^ m) k \<le> capacity s1 w1"
    using new_from_slice_Ok [OF assms(2) tree_len_pos fits len] by blast
  obtain root s3 w3 where
    "st_build (mt_S C) (mt_A C) (2 ^ m) ((2 ^ m) ^ k) (Suc k) None s1 w1 = Ok (root, s3, w3)"
    "built_tree C inv elems (2 ^ m) k xs
       (base_tree s3 ((2 ^ m) ^ k) (tree_len (2 ^ m) k) (Suc k) root) w3"
    using build_tree [OF assms(1) 1(1,2) assms(3) 1(3), of None] by auto
  then show ?thesis
    using tree_fits_facts [OF assms(1)] new assms(3) byte_len_pos length_concat_mod [of xs] length_concat_div [of xs]
    by (simp add: from_byte_slice_def Let_def)
qed

lemma from_byte_slice_with_config_built:
  assumes "tree_fits C m k" and "world w" and "fresh config w" and "length xs = (2 ^ m) ^ k"
  shows "\<exists>tree w'. from_byte_slice_with_config C (2 ^ m) (encode xs) config w = Ok (tree, w')
    \<and> built_tree C inv elems (2 ^ m) k xs tree w'"
proof -
  have fits: "tree_len (2 ^ m) k * el_byte_len (mt_E C) < isize_limit"
    using assms(1) by (simp add: tree_fits_def)
  have len: "length xs \<le> tree_len (2 ^ m) k" using assms(4) tree_len_ge [of "2 ^ m" k] by simp
  obtain s1 w1 where new:
    "st_new_from_slice_with_config (mt_S C) (tree_len (2 ^ m) k) (2 ^ m) (encode xs) config w = Ok (s1, w1)"
    and 1: "inv s1 w1" "elems s1 w1 = xs" "tree_len (2 ^ m) k \<le> capacity s1 w1"
    using new_from_slice_with_config_Ok [OF assms(2,3) tree_len_pos fits len] by blast
  obtain root s3 w3 where
    "st_build (mt_S C) (mt_A C) (2 ^ m) ((2 ^ m) ^ k) (Suc k) (Some config) s1 w1 = Ok (root, s3, w3)"
    "built_tree C inv elems (2 ^ m) k xs
       (base_tree s3 ((2 ^ m) ^ k) (tree_len (2 ^ m) k) (Suc k) root) w3"
    using build_tree [OF assms(1) 1(1,2) assms(4) 1(3), of "Some config"] by auto
  then show ?thesis
    using tree_fits_facts [OF assms(1)] new assms(4) byte_len_pos length_concat_mod [of xs] length_concat_div [of xs]
    by (simp add: from_byte_slice_with_config_def Let_def)
qed

text \<open>A tree's store, loaded again, gives the same tree.\<close>

lemma from_data_store_built:
  assumes "tree_fits C m k" and "built_tree C inv elems (2 ^ m) k xs tree w" and "length xs = (2 ^ m) ^ k"
    and "tree_data tree = BaseTree s"
  shows "from_data_store C (2 ^ m) 0 0 s ((2 ^ m) ^ k) w = Ok tree"
proof -
  have s: "inv s w" "elems s w = tree_nodes (node_hash (mt_A C)) (2 ^ m) k xs"
    and tree: "tree = base_tree s ((2 ^ m) ^ k) (tree_len (2 ^ m) k) (Suc k) (tree_root (node_hash (mt_A C)) (2 ^ m) k xs)"
    using assms(2,4) by (auto simp: built_tree_def base_tree_def)
  have len: "st_len (mt_S C) s = tree_len (2 ^ m) k"
    using len_elems [OF s(1)] s(2) length_tree_nodes [of "2 ^ m" xs k] assms(3) by simp
  have rd: "st_read_at (mt_S C) (tree_len (2 ^ m) k - 1) s w = Ok (tree_root (node_hash (mt_A C)) (2 ^ m) k xs)"
    using read_at_Ok [OF s(1), of "tree_len (2 ^ m) k - 1"] s(2) len len_elems [OF s(1)]
      nth_tree_nodes_root [of "2 ^ m" xs k "node_hash (mt_A C)"] assms(3) tree_len_pos [of "2 ^ m" k] by simp
  show ?thesis
    using tree_fits_facts [OF assms(1)] rd len tree_len_pos [of "2 ^ m" k] tree
    by (simp add: from_data_store_def Suc_le_eq)
qed


section \<open>Failure\<close>

text \<open>
  An iterator that yields an error makes \<open>try_from_iter\<close> return it (inside the context) and
  \<open>try_from_iter_with_config\<close> panic.
\<close>

lemma try_from_iter_item_error:
  assumes "tree_fits C m k" and "world w" and "length xs \<le> tree_len (2 ^ m) k"
  shows "try_from_iter C (2 ^ m) (Some ((2 ^ m) ^ k)) (map Ok xs @ Err e # rest) w = Err (FailedToPopulate e)"
proof -
  have fits: "tree_len (2 ^ m) k * el_byte_len (mt_E C) < isize_limit"
    using assms(1) by (simp add: tree_fits_def)
  obtain s1 w1 where new: "st_new (mt_S C) (tree_len (2 ^ m) k) w = Ok (s1, w1)"
    and 1: "inv s1 w1" "elems s1 w1 = []" "tree_len (2 ^ m) k \<le> capacity s1 w1"
    using new_Ok [OF assms(2) tree_len_pos fits] by blast
  have "populate_data C s1 (map Ok xs @ Err e # rest) w1 = Err e"
    using populate_data_Err [OF 1(1,2)] 1(3) assms(3) by simp
  then show ?thesis
    using tree_fits_facts [OF assms(1)] new by (simp add: try_from_iter_def)
qed

lemma try_from_iter_with_config_item_error:
  assumes "tree_fits C m k" and "world w" and "fresh config w" and "length xs \<le> tree_len (2 ^ m) k"
  shows "try_from_iter_with_config C (2 ^ m) (Some ((2 ^ m) ^ k)) (map Ok xs @ Err e # rest) config w
    = Panic ExpectFailed"
proof -
  have fits: "tree_len (2 ^ m) k * el_byte_len (mt_E C) < isize_limit"
    using assms(1) by (simp add: tree_fits_def)
  obtain s1 w1 where new: "st_new_with_config (mt_S C) (tree_len (2 ^ m) k) (2 ^ m) config w = Ok (s1, w1)"
    "\<not> st_loaded_from_disk (mt_S C) s1"
    and 1: "inv s1 w1" "elems s1 w1 = []" "tree_len (2 ^ m) k \<le> capacity s1 w1"
    using new_with_config_Ok [OF assms(2,3) tree_len_pos fits] by blast
  have "populate_data C s1 (map Ok xs @ Err e # rest) w1 = Err e"
    using populate_data_Err [OF 1(1,2)] 1(3) assms(4) by simp
  then show ?thesis
    using tree_fits_facts [OF assms(1)] new by (simp add: try_from_iter_with_config_def)
qed

text \<open>A size hint that is not the number of items is detected by \<open>build\<close>.\<close>

lemma try_from_iter_wrong_hint:
  assumes "tree_fits C m k" and "world w" and "length xs \<noteq> (2 ^ m) ^ k" and "length xs \<le> tree_len (2 ^ m) k"
  shows "try_from_iter C (2 ^ m) (Some ((2 ^ m) ^ k)) (map Ok xs) w = Err InconsistentData"
proof -
  have fits: "tree_len (2 ^ m) k * el_byte_len (mt_E C) < isize_limit" and m: "m < 64"
    using assms(1) by (simp_all add: tree_fits_def)
  obtain s1 w1 where new: "st_new (mt_S C) (tree_len (2 ^ m) k) w = Ok (s1, w1)"
    and 1: "inv s1 w1" "elems s1 w1 = []" "tree_len (2 ^ m) k \<le> capacity s1 w1"
    using new_Ok [OF assms(2) tree_len_pos fits] by blast
  obtain s2 w2 where pop: "populate_data C s1 (map Ok xs) w1 = Ok (s2, w2)"
    and 2: "inv s2 w2" "elems s2 w2 = leaf_hashes xs"
    using populate_data_Ok [OF 1(1,2), of xs] 1(3) assms(4) by (metis le_trans)
  have "st_build (mt_S C) (mt_A C) (2 ^ m) ((2 ^ m) ^ k) (Suc k) None s2 w2 = Err InconsistentData"
    using 2 assms(3) m by (intro build_inconsistent) simp_all
  then show ?thesis
    using tree_fits_facts [OF assms(1)] new pop by (simp add: try_from_iter_def)
qed

text \<open>A wrong logarithm of the row count cannot give a wrong tree: the build refuses it.\<close>

lemma try_from_iter_wrong_rows:
  assumes "tree_shape m k" and "m \<le> 12" and "tree_len (2 ^ m) k * el_byte_len (mt_E C) < isize_limit"
    and "m \<noteq> 1" and "mt_flog C (2 ^ m) ((2 ^ m) ^ k) \<noteq> Suc k" and "world w" and "length xs = (2 ^ m) ^ k"
  shows "try_from_iter C (2 ^ m) (Some ((2 ^ m) ^ k)) (map Ok xs) w = Err InvalidRowCount"
proof -
  let ?r = "mt_flog C (2 ^ m) ((2 ^ m) ^ k)"
  have b2: "(2 ^ m :: nat) \<noteq> 2" using assms(4) power_inject_exp [of "2 :: nat" m 1] by auto
  have one: "1 < (2 ^ m :: nat) ^ k" using tree_shape_arity(2,3) [OF assms(1)] by linarith
  obtain s1 w1 where new: "st_new (mt_S C) (tree_len (2 ^ m) k) w = Ok (s1, w1)"
    and 1: "inv s1 w1" "elems s1 w1 = []" "tree_len (2 ^ m) k \<le> capacity s1 w1"
    using new_Ok [OF assms(6) tree_len_pos assms(3)] by blast
  obtain s2 w2 where pop: "populate_data C s1 (map Ok xs) w1 = Ok (s2, w2)"
    and 2: "inv s2 w2" "elems s2 w2 = leaf_hashes xs" "tree_len (2 ^ m) k \<le> capacity s2 w2"
    using populated_store(1) [OF 1 assms(7)] by blast
  have "st_build (mt_S C) (mt_A C) (2 ^ m) ((2 ^ m) ^ k) ?r None s2 w2 = Err InvalidRowCount"
    using build_Ok [OF 2(1,2) _ assms(1,2) 2(3), of "mt_A C" ?r None] assms(5,7)
    by (simp add: build_result_def)
  then show ?thesis
    using one tree_len_ok [OF assms(1)] tree_shape_facts [OF assms(1)] new pop b2
    by (simp add: try_from_iter_def get_merkle_tree_row_count_def)
qed

text \<open>
  The constructors over a slice of a whole tree look for the root behind the end of the store.
\<close>

lemma tree_slice_refused:
  assumes "tree_fits C m k" and "world w" and "fresh config w" and "length es = tree_len (2 ^ m) k"
    and "2 \<le> el_byte_len (mt_E C)"
  shows "\<not> is_ok (from_tree_slice C (2 ^ m) 0 0 (encode es) ((2 ^ m) ^ k) w)
    \<and> \<not> is_ok (from_tree_slice_with_config C (2 ^ m) 0 0 (encode es) ((2 ^ m) ^ k) config w)"
proof -
  have fits: "tree_len (2 ^ m) k * el_byte_len (mt_E C) < isize_limit"
    using assms(1) by (simp add: tree_fits_def)
  have le: "length es \<le> tree_len (2 ^ m) k" using assms(4) by simp
  have "length es * 2 \<le> length es * el_byte_len (mt_E C)" using assms(5) by (intro mult_le_mono2)
  moreover have "0 < length es" using assms(4) by simp
  ultimately have out: "length es \<le> length (encode es) - 1" "0 < length (encode es)"
    unfolding length_concat_as_ref by linarith+
  obtain s1 w1 where new1: "st_new_from_slice (mt_S C) (tree_len (2 ^ m) k) (encode es) w = Ok (s1, w1)"
    and 1: "inv s1 w1" "elems s1 w1 = es"
    using new_from_slice_Ok [OF assms(2) tree_len_pos fits le] by blast
  obtain s2 w2 where new2:
    "st_new_from_slice_with_config (mt_S C) (tree_len (2 ^ m) k) (2 ^ m) (encode es) config w = Ok (s2, w2)"
    and 2: "inv s2 w2" "elems s2 w2 = es"
    using new_from_slice_with_config_Ok [OF assms(2,3) tree_len_pos fits le] by blast
  have r1: "\<not> is_ok (st_read_at (mt_S C) (length (encode es) - 1) s1 w1)"
    by (rule read_at_outside [OF 1(1)]) (simp only: 1(2) out(1))
  have r2: "\<not> is_ok (st_read_at (mt_S C) (length (encode es) - 1) s2 w2)"
    by (rule read_at_outside [OF 2(1)]) (simp only: 2(2) out(1))
  obtain bytes where bytes: "encode es = bytes" by simp
  have len: "length bytes div el_byte_len (mt_E C) = tree_len (2 ^ m) k" "1 \<le> length bytes"
    using length_concat_div [of es] assms(4) out(2) unfolding bytes by (simp_all add: Suc_le_eq)
  note new1 = new1 [unfolded bytes] and new2 = new2 [unfolded bytes]
  have "from_tree_slice C (2 ^ m) 0 0 bytes ((2 ^ m) ^ k) w =
      and_then (st_read_at (mt_S C) (length bytes - 1) s1 w1) (\<lambda>root.
        Ok (base_tree s1 ((2 ^ m) ^ k) (tree_len (2 ^ m) k) (Suc k) root, w1))"
    using tree_fits_facts [OF assms(1)] new1 len byte_len_pos by (simp add: from_tree_slice_def)
  moreover have "from_tree_slice_with_config C (2 ^ m) 0 0 bytes ((2 ^ m) ^ k) config w =
      and_then (st_read_at (mt_S C) (length bytes - 1) s2 w2) (\<lambda>root.
        Ok (base_tree s2 ((2 ^ m) ^ k) (tree_len (2 ^ m) k) (Suc k) root, w2))"
    using tree_fits_facts [OF assms(1)] new2 len byte_len_pos by (simp add: from_tree_slice_with_config_def)
  moreover have "is_ok (and_then r g) \<Longrightarrow> is_ok r" for r :: "'e outcome" and g :: "'e \<Rightarrow> 'y outcome"
    by (cases r) simp_all
  ultimately show ?thesis using r1 r2 unfolding bytes by metis
qed

end

end
