(* ===== verification/Gen_Proof_Correct.thy ===== *)
theory Gen_Proof_Correct
  imports Gen_Proof Build_Correct
begin

text \<open>
  \<open>gen_proof\<close> on a built base tree: it returns the honest proof of the leaf, which
  validates.
\<close>

text \<open>
  A base proof hashes level \<open>j\<close> with the height \<open>j * (b - 1)\<close> (the offset in the lemma),
  the build with the height \<open>j\<close>. They agree for arity 2, and for every arity when the
  algorithm ignores the height, as the trait's default \<open>multi_node\<close> does.
\<close>

definition heights_agree :: "('a, 'e) algorithm \<Rightarrow> nat \<Rightarrow> bool" where
  "heights_agree A b \<longleftrightarrow> (\<forall>j ns. node_hash A (j * (b - 1)) ns = node_hash A j ns)"

lemma heights_agree_binary: "heights_agree A 2"
  by (simp add: heights_agree_def)

lemma heights_agree_height_free: "height_free_algorithm A \<Longrightarrow> heights_agree A b"
  unfolding heights_agree_def by (metis height_free_algorithm.node_hash_height)

lemma heights_agree_proof_height: "heights_agree A b \<Longrightarrow> proof_height A b = node_hash A"
  by (simp add: heights_agree_def proof_height_def fun_eq_iff)

context merkle_build
begin

lemma built_tree_read:
  assumes "built_tree C inv elems b k xs tree w" and "length xs = b ^ k" and "0 < b" and "p < tree_len b k"
  shows "mt_read_at C b n t tree p w = Ok (tree_nodes (node_hash (mt_A C)) b k xs ! p)"
proof -
  obtain s where s: "tree_data tree = BaseTree s" "inv s w" "elems s w = tree_nodes (node_hash (mt_A C)) b k xs"
    using assms(1) by (auto simp: built_tree_def)
  have "p < length (elems s w)" using s(3) assms by (simp add: length_tree_nodes)
  then show ?thesis using s read_at_Ok [OF s(2)] by (simp add: mt_read_at.simps)
qed

lemma built_tree_row:
  assumes "built_tree C inv elems b k xs tree w" and "length xs = b ^ k" and "0 < b" and "r \<le> k"
    and "q < length (tree_row (node_hash (mt_A C)) b xs r)"
  shows "mt_read_at C b n t tree (row_start b k r + q) w = Ok (tree_row (node_hash (mt_A C)) b xs r ! q)"
proof -
  have q: "q < b ^ (k - r)" using assms by (simp add: length_tree_row)
  then have "row_start b k r + q < tree_len b k" using row_end_le [OF assms(4), of b] by linarith
  then show ?thesis
    using built_tree_read [OF assms(1-3)] nth_tree_rows [OF assms(3,2), of r "Suc k" q] assms(4) q
    by (simp only: tree_nodes_def)
qed

lemma built_tree_fields:
  assumes "built_tree C inv elems b k xs tree w" and "length xs = b ^ k" and "0 < b"
  shows "tree_leafs tree = b ^ k" and "tree_row_count tree = Suc k" and "mt_len C tree = tree_len b k"
    and "mt_root tree = tree_root (node_hash (mt_A C)) b k xs" and "\<exists>s. tree_data tree = BaseTree s"
  using assms len_elems by (auto simp: built_tree_def mt_len_def mt_root_def length_tree_nodes)

text \<open>The loop of the base layer: row by row, one group of siblings and one index each.\<close>

lemma gen_base_loop:
  fixes tree w
  assumes "built_tree C inv elems (2 ^ m) k xs tree w" and xs: "length xs = (2 ^ m) ^ k" and sh: "tree_shape m k"
    and i: "i < (2 ^ m) ^ k"
  defines "S \<equiv> tree_steps (node_hash (mt_A C)) (2 ^ m) xs k i"
  shows "while_loop
      (\<lambda>(lem, path, base, width, j). base + 1 < mt_len C tree)
      (\<lambda>(lem, path, base, width, j).
        and_then (push_siblings (\<lambda>pos. mt_read_at C (2 ^ m) n t tree pos w) (2 ^ m) base j lem) (\<lambda>lem.
        let path = path @ [j mod 2 ^ m] in
        and_then (usize_add base width) (\<lambda>base.
        and_then (usize_shr width m) (\<lambda>width.
        and_then (usize_shr j m) (\<lambda>j.
        Ok (lem, path, base, width, j))))))
      ([x], [], 0, (2 ^ m) ^ k, i)
    = Ok (x # concat (map snd S), map fst S, row_start (2 ^ m) k k, 1, 0)"
    (is "while_loop ?b ?c _ = _")
proof -
  let ?B = "2 ^ m :: nat" and ?row = "tree_row (node_hash (mt_A C)) (2 ^ m) xs"
  let ?f = "\<lambda>r. (x # concat (map snd (take r S)), map fst (take r S), row_start ?B k r, ?B ^ (k - r), row_index ?B i r)"
  have len: "mt_len C tree = tree_len ?B k" using built_tree_fields(3) [OF assms(1) xs] by simp
  have m: "m < 64" using tree_shape_arity(1) [OF sh] by simp
  have step: "?b (?f r) \<and> ?c (?f r) = Ok (?f (Suc r))" if r: "r < k" for r
  proof
    have "row_start ?B k r + ?B ^ (k - r) \<le> row_start ?B k k"
      using row_start_mono [of "Suc r" k ?B k] r by simp
    moreover have "1 < ?B ^ (k - r)" using r sh by (intro one_less_power) (auto simp: tree_shape_def)
    ultimately show "?b (?f r)" using row_start_last [of ?B k] len by simp
    have exp: "k - r = Suc (k - Suc r)" using r by simp
    have rowlen: "length (?row r) = ?B ^ (k - Suc r) * ?B"
      using length_tree_row [of ?B xs k r] xs r exp by simp
    have j: "row_index ?B i r < length (?row r)"
      using row_index_less [of ?B i k r] i r rowlen exp by (simp add: mult.commute)
    have le: "row_start ?B k r + length (?row r) \<le> tree_len ?B k"
      using row_end_le [of r k ?B] r rowlen exp by (simp add: mult.commute)
    then have word: "row_start ?B k r + length (?row r) < usize_limit"
      using tree_shape_tree_len [OF sh] by linarith
    have push: "push_siblings (\<lambda>pos. mt_read_at C ?B n t tree pos w) ?B (row_start ?B k r) (row_index ?B i r) lem =
        Ok (lem @ siblings ?B (?row r) (row_index ?B i r))" for lem
      using push_siblings_Ok [OF _ rowlen j _ word] built_tree_row [OF assms(1) xs] r by simp
    have "usize_add (row_start ?B k r) (?B ^ (k - r)) = Ok (row_start ?B k (Suc r))"
      using word rowlen exp by (simp add: mult.commute)
    moreover have "usize_shr (?B ^ (k - r)) m = Ok (?B ^ (k - Suc r))"
      using m arity_div [OF r, of m] by simp
    moreover have "usize_shr (row_index ?B i r) m = Ok (row_index ?B i (Suc r))"
      using m by (simp add: row_index_Suc)
    moreover have "take (Suc r) S = take r S @ [(row_index ?B i r mod ?B, siblings ?B (?row r) (row_index ?B i r))]"
      using r by (simp add: S_def take_Suc_conv_app_nth tree_steps_def)
    ultimately show "?c (?f r) = Ok (?f (Suc r))" by (simp add: push Let_def)
  qed
  have "\<not> ?b (?f k)" using row_start_last [of ?B k] len by simp
  with step have "while_loop ?b ?c (?f 0) = Ok (?f k)" by (rule while_loop_sequence)
  moreover have "?f 0 = ([x], [], 0, ?B ^ k, i)" by (simp add: row_index_def)
  moreover have "?f k = (x # concat (map snd S), map fst S, row_start ?B k k, 1, 0)"
    using i by (simp add: S_def row_index_def)
  ultimately show ?thesis by simp
qed

lemma gen_base_proof_honest:
  assumes "built_tree C inv elems (2 ^ m) k xs tree w" and xs: "length xs = (2 ^ m) ^ k" and fits: "tree_fits C m k"
    and i: "i < (2 ^ m) ^ k"
  shows "gen_proof C (2 ^ m) 0 0 tree i w = Ok (honest_proof (node_hash (mt_A C)) (2 ^ m) k xs i)"
proof -
  let ?B = "2 ^ m :: nat"
  have sh: "tree_shape m k" using fits by (simp add: tree_fits_def)
  note f = built_tree_fields [OF assms(1) xs, simplified]
  note shape = honest_proof_shape [of ?B xs k i "node_hash (mt_A C)", simplified, OF xs i]
  have k: "0 < k" using sh by (simp add: tree_shape_def)
  have small: "2 + k * (?B - 1) < usize_limit"
  proof -
    have "?B \<le> 2 ^ 12" using fits by (intro power_increasing) (simp_all add: tree_fits_def)
    then have "k * (?B - 1) \<le> 64 * 2 ^ 12"
      using tree_shape_rows [OF sh] by (intro mult_le_mono) simp_all
    then show ?thesis by simp
  qed
  have lem: "get_merkle_proof_lemma_len (Suc k) ?B = Ok (2 + k * (?B - 1))"
    using small by (simp add: get_merkle_proof_lemma_len_def mult.commute)
  have rd: "mt_read_at C ?B 0 0 tree i w = Ok (xs ! i)"
    using built_tree_row [OF assms(1) xs, of 0 i] i xs by simp
  have new: "proof_new ?B 0 0 None (pf_lemma (honest_proof (node_hash (mt_A C)) ?B k xs i))
      (pf_path (honest_proof (node_hash (mt_A C)) ?B k xs i)) = Ok (honest_proof (node_hash (mt_A C)) ?B k xs i)"
  proof -
    have "2 < 2 + k * (?B - 1)" using k tree_shape_arity(2) [OF sh] by simp
    moreover have "k + 1 < usize_limit" using tree_shape_rows [OF sh] by simp
    ultimately show ?thesis
      using shape(3) lem by (simp add: proof_new_def) (simp add: honest_proof_def)
  qed
  have "gen_base_proof C ?B 0 0 tree i w = Ok (honest_proof (node_hash (mt_A C)) ?B k xs i)"
    using tree_shape_facts [OF sh] f i lem rd new shape(3) gen_base_loop [OF assms(1) xs sh i, of 0 0 "xs ! i"]
    by (simp add: gen_base_proof_def Let_def honest_proof_def)
  then show ?thesis using f(5) by (auto simp: gen_proof.simps)
qed

lemma honest_proof_validates:
  assumes "length xs = b ^ k" and "2 \<le> b" and "i < b ^ k" and "heights_agree (mt_A C) b"
  shows "validate (mt_A C) b (honest_proof (node_hash (mt_A C)) b k xs i) = Ok True"
proof -
  have b: "0 < b" using assms(2) by simp
  show ?thesis
    using validate_base_climb [OF assms(2) honest_proof_shape(1) [OF b assms(1,3)], of "node_hash (mt_A C)"]
      honest_proof_shape(2) [OF b assms(1,3), of "node_hash (mt_A C)"] climb_tree [OF b assms(1,3)]
    by (simp add: heights_agree_proof_height [OF assms(4)]) (simp add: honest_proof_def)
qed

end

end
