(* ===== verification/Compound_Correct.thy ===== *)
theory Compound_Correct
  imports Compound Gen_Proof_Correct
begin

text \<open>
  Compound trees: every leaf of a tree with a sub-tree layer, or with a sub-tree layer and a
  top layer, can be read and has a proof that validates against the root.
\<close>

section \<open>What a tree promises\<close>

text \<open>The leaf a proof is about: the item of the innermost proof.\<close>

fun leaf_item :: "'e inclusion_proof \<Rightarrow> 'e outcome" where
  "leaf_item (Proof None top_nodes sub_nodes lem path) = first_unwrap lem"
| "leaf_item (Proof (Some p) top_nodes sub_nodes lem path) = leaf_item p"

definition proves ::
  "('w, 's, 'e, 'a) merkle_types \<Rightarrow> nat \<Rightarrow> nat \<Rightarrow> nat \<Rightarrow> ('s, 'e) merkle_tree \<Rightarrow> 'w \<Rightarrow> 'e list \<Rightarrow> bool" where
  "proves C b n t tree w leaves \<longleftrightarrow>
     tree_leafs tree = length leaves \<and>
     (\<forall>i < length leaves.
        mt_read_at C b n t tree i w = Ok (leaves ! i) \<and>
        (\<exists>p. gen_proof C b n t tree i w = Ok p \<and> validate (mt_A C) b p = Ok True \<and>
             leaf_item p = Ok (leaves ! i) \<and> proof_root p = Ok (mt_root tree)))"

lemma provesD:
  assumes "proves C b n t tree w leaves" and "i < length leaves"
  shows "mt_read_at C b n t tree i w = Ok (leaves ! i)"
    and "\<exists>p. gen_proof C b n t tree i w = Ok p \<and> validate (mt_A C) b p = Ok True \<and>
      leaf_item p = Ok (leaves ! i) \<and> proof_root p = Ok (mt_root tree)"
  using assms by (simp_all add: proves_def)

context merkle_build
begin

lemma built_tree_proves:
  assumes "built_tree C inv elems (2 ^ m) k xs tree w" and "length xs = (2 ^ m) ^ k" and "tree_fits C m k"
    and "heights_agree (mt_A C) (2 ^ m)"
  shows "proves C (2 ^ m) 0 0 tree w xs"
  unfolding proves_def
proof (intro conjI allI impI)
  note f = built_tree_fields [OF assms(1,2), simplified]
  have sh: "tree_shape m k" using assms(3) by (simp add: tree_fits_def)
  show "tree_leafs tree = length xs" using f assms(2) by simp
  fix i
  assume "i < length xs"
  then have i: "i < (2 ^ m) ^ k" using assms(2) by simp
  show "mt_read_at C (2 ^ m) 0 0 tree i w = Ok (xs ! i)"
    using built_tree_row [OF assms(1,2), of 0 i] i assms(2) by simp
  show "\<exists>p. gen_proof C (2 ^ m) 0 0 tree i w = Ok p \<and> validate (mt_A C) (2 ^ m) p = Ok True \<and>
      leaf_item p = Ok (xs ! i) \<and> proof_root p = Ok (mt_root tree)"
    using gen_base_proof_honest [OF assms(1-3) i]
      honest_proof_validates [OF assms(2) tree_shape_arity(2) [OF sh] i assms(4)] f(4)
    by (auto simp: honest_proof_def proof_root_def)
qed

end


section \<open>One layer\<close>

lemma layer_lemma_Ok:
  assumes "j < length trees"
  shows "layer_lemma trees (length trees) j root =
    Ok (take j (map mt_root trees) @ drop (Suc j) (map mt_root trees) @ [root])"
proof -
  let ?f = "\<lambda>i lem.
           if i \<noteq> j then and_then (index_at trees i) (\<lambda>tree. Ok (lem @ [mt_root tree]))
           else Ok lem"
  have "for_each ?f is lem = Ok (lem @ map (\<lambda>i. mt_root (trees ! i)) (filter (\<lambda>i. i \<noteq> j) is))"
    if "\<forall>i \<in> set is. i < length trees" for "is" lem
    using that by (induction "is" arbitrary: lem) simp_all
  then have "for_each ?f [0..<length trees] [] =
      Ok (map (\<lambda>i. mt_root (trees ! i)) (filter (\<lambda>i. i \<noteq> j) [0..<length trees]))" by simp
  moreover have "filter (\<lambda>i. i \<noteq> j) [0..<length trees] = [0..<j] @ [Suc j..<length trees]"
  proof -
    have "[0..<j + (length trees - j)] = [0..<j] @ [j..<j + (length trees - j)]"
      by (rule upt_add_eq_append) simp
    then have "[0..<length trees] = [0..<j] @ j # [Suc j..<length trees]"
      using assms by (simp add: upt_conv_Cons)
    then show ?thesis by (simp add: filter_id_conv)
  qed
  moreover have "map (\<lambda>i. mt_root (trees ! i)) [0..<j] = take j (map mt_root trees)"
    using assms by (intro nth_equalityI) simp_all
  moreover have "map (\<lambda>i. mt_root (trees ! i)) [Suc j..<length trees] = drop (Suc j) (map mt_root trees)"
    by (intro nth_equalityI) simp_all
  ultimately show ?thesis by (simp add: layer_lemma_def)
qed

text \<open>
  The layer hashes the roots with height 1 when it is built and with height 0 when a proof is
  validated.
\<close>

definition layer_heights_agree :: "('a, 'e) algorithm \<Rightarrow> bool" where
  "layer_heights_agree A \<longleftrightarrow> (\<forall>ns. node_hash A 0 ns = node_hash A 1 ns)"

lemma layer_heights_agree_height_free: "height_free_algorithm A \<Longrightarrow> layer_heights_agree A"
  unfolding layer_heights_agree_def by (metis height_free_algorithm.node_hash_height)

definition layer_proof ::
  "'e inclusion_proof \<Rightarrow> nat \<Rightarrow> nat \<Rightarrow> 'e list \<Rightarrow> 'e \<Rightarrow> nat \<Rightarrow> 'e inclusion_proof" where
  "layer_proof q t n roots root j = Proof (Some q) t n (take j roots @ drop (Suc j) roots @ [root]) [j]"

lemma validate_layer_Ok:
  assumes "algorithm_contract A" and "j < length roots" and "proof_root q = Ok (roots ! j)" and "0 < n"
  shows "validate_layer A (layer_proof q t n roots root j) (length roots) = Ok (node_hash A 0 roots = root)"
proof -
  let ?lem = "take j roots @ drop (Suc j) roots @ [root]"
  have "gather_children (Ok j) (Ok (roots ! j)) ?lem 0 (length roots) =
      Ok (insert_child j (roots ! j) (take (length roots - 1) (drop 0 ?lem)), length roots - 1)"
    using assms(2) by (intro gather_children_Ok) auto
  moreover have "take (length roots - 1) (drop 0 ?lem) = take j roots @ drop (Suc j) roots"
    using assms(2) by simp
  ultimately have "gather_children (Ok j) (Ok (roots ! j)) ?lem 0 (length roots) = Ok (roots, length roots - 1)"
    using insert_child_of_list [OF assms(2)] by simp
  then show ?thesis
    using assms algorithm_contract.node_after_reset [OF assms(1), of roots 0 "alg_default A"]
    by (simp add: validate_layer_def layer_proof_def proof_sub_tree_root_def proof_root_def)
qed

lemma validate_layered_proof:
  assumes "algorithm_contract A" and "j < length roots" and "proof_root q = Ok (roots ! j)" and "0 < n"
    and "validate A b q = Ok True" and "t = length roots \<or> t = 0 \<and> n = length roots"
  shows "validate A b (layer_proof q t n roots root j) = Ok (node_hash A 0 roots = root)"
proof -
  have "sub_tree_proof (layer_proof q t n roots root j) = Some q"
    "top_layer_nodes (layer_proof q t n roots root j) = t"
    "sub_tree_layer_nodes (layer_proof q t n roots root j) = n"
    by (simp_all add: layer_proof_def)
  then show ?thesis
    using assms(2,4,5,6) validate_layer_Ok [OF assms(1-4), of t root]
    by (auto simp: validate.simps [of A b "layer_proof q t n roots root j"] validate_sub_tree_proof.simps)
qed

lemma proof_new_layer:
  "0 < n \<Longrightarrow> proof_new b t n (Some q) (take j roots @ drop (Suc j) roots @ [root]) [j] =
     Ok (layer_proof q t n roots root j)"
  by (simp add: proof_new_def layer_proof_def)

lemma nth_concat_equal:
  assumes "\<And>xs. xs \<in> set xss \<Longrightarrow> length xs = L" and "i < length xss * L"
  shows "concat xss ! i = xss ! (i div L) ! (i mod L)" and "i div L < length xss" and "i mod L < L"
proof -
  have L: "0 < L" using assms(2) by (cases L) simp_all
  then show d: "i div L < length xss" and "i mod L < L"
    using assms(2) by (simp_all add: less_mult_imp_div_less)
  have "take L (drop ((i div L) * L) (concat xss @ [])) = xss ! (i div L)"
    using assms(1) d by (intro take_drop_concat)
  moreover have "take L (drop ((i div L) * L) (concat xss)) ! (i mod L) = concat xss ! i"
  proof -
    have "Suc (i div L) * L \<le> length xss * L" using d by (intro mult_le_mono1) simp
    then have "(i div L) * L + L \<le> length (concat xss)" using assms(1) by (simp add: length_concat_equal)
    then show ?thesis using L by simp
  qed
  ultimately show "concat xss ! i = xss ! (i div L) ! (i mod L)" by simp
qed

text \<open>
  A layer over trees that prove their leaves: \<open>trees\<close> with \<open>L\<close> leaves each, the arity
  \<open>n'\<close> of the layer below them, and the tree that is put over them.
\<close>

definition layer_ok ::
  "('w, 's, 'e, 'a) merkle_types \<Rightarrow> nat \<Rightarrow> nat \<Rightarrow> nat \<Rightarrow> ('s, 'e) merkle_tree list \<Rightarrow> 'e list list \<Rightarrow>
     ('s, 'e) merkle_tree \<Rightarrow> 'w \<Rightarrow> bool" where
  "layer_ok C b n' L trees leaves tree w \<longleftrightarrow>
     algorithm_contract (mt_A C) \<and> layer_heights_agree (mt_A C) \<and>
     trees \<noteq> [] \<and> length leaves = length trees \<and> 0 < L \<and>
     (\<forall>j < length trees. length (leaves ! j) = L \<and> proves C b n' 0 (trees ! j) w (leaves ! j)) \<and>
     tree_leafs tree = length trees * L \<and> mt_root tree = node_hash (mt_A C) 1 (map mt_root trees)"

lemma layer_okD:
  assumes "layer_ok C b n' L trees leaves tree w"
  shows "algorithm_contract (mt_A C)" "layer_heights_agree (mt_A C)"
    and "trees \<noteq> []" "length leaves = length trees" "0 < L"
    and "\<And>j. j < length trees \<Longrightarrow> length (leaves ! j) = L \<and> proves C b n' 0 (trees ! j) w (leaves ! j)"
    and "tree_leafs tree = length trees * L" "mt_root tree = node_hash (mt_A C) 1 (map mt_root trees)"
  using assms by (auto simp: layer_ok_def)

lemma layer_leaves_length:
  assumes "layer_ok C b n' L trees leaves tree w" and "xs \<in> set leaves"
  shows "length xs = L"
  using layer_okD(4,6) [OF assms(1)] assms(2) by (auto simp: in_set_conv_nth)

lemma layer_total:
  assumes "layer_ok C b n' L trees leaves tree w"
  shows "length (concat leaves) = length trees * L"
  using layer_leaves_length [OF assms] layer_okD(4) [OF assms] by (simp add: length_concat_equal)

lemma layer_arities:
  assumes "layer_ok C b n' L trees leaves tree w"
  shows "usize_div (tree_leafs tree) (length trees) = Ok L" and "usize_div i L = Ok (i div L)"
  using layer_okD [OF assms] by simp_all

lemma layer_at:
  assumes ok: "layer_ok C b n' L trees leaves tree w" and "i < length (concat leaves)"
  shows "i div L < length trees" and "index_at trees (i div L) = Ok (trees ! (i div L))"
    and "usize_rem i (mt_leafs (trees ! (i div L))) = Ok (i mod L)"
    and "concat leaves ! i = leaves ! (i div L) ! (i mod L)" and "i mod L < L"
proof -
  note trees = layer_okD(3-5) [OF ok] and below = layer_okD(6) [OF ok]
  have i: "i < length leaves * L" using assms(2) layer_total [OF ok] trees(2) by simp
  note nth = nth_concat_equal [OF layer_leaves_length [OF ok] i]
  show j: "i div L < length trees" using nth(2) trees(2) by simp
  then show "index_at trees (i div L) = Ok (trees ! (i div L))" by simp
  show "usize_rem i (mt_leafs (trees ! (i div L))) = Ok (i mod L)"
    using below [OF j] trees(3) by (simp add: proves_def mt_leafs_def)
  show "concat leaves ! i = leaves ! (i div L) ! (i mod L)" "i mod L < L" using nth by blast+
qed

lemma layer_proof_at:
  assumes ok: "layer_ok C b n' L trees leaves tree w" and "i < length (concat leaves)" and "0 < n" and "t = length trees \<or> t = 0 \<and> n = length trees"
  obtains q where "gen_proof C b n' 0 (trees ! (i div L)) (i mod L) w = Ok q"
    and "validate (mt_A C) b (layer_proof q t n (map mt_root trees) (mt_root tree) (i div L)) = Ok True"
    and "leaf_item (layer_proof q t n (map mt_root trees) (mt_root tree) (i div L)) = Ok (concat leaves ! i)"
    and "proof_root (layer_proof q t n (map mt_root trees) (mt_root tree) (i div L)) = Ok (mt_root tree)"
proof -
  note alg = layer_okD(1,2) [OF ok] and below = layer_okD(6) [OF ok] and tree = layer_okD(7,8) [OF ok]
  note at = layer_at [OF ok assms(2)]
  obtain q where q: "gen_proof C b n' 0 (trees ! (i div L)) (i mod L) w = Ok q"
    "validate (mt_A C) b q = Ok True" "leaf_item q = Ok (leaves ! (i div L) ! (i mod L))"
    "proof_root q = Ok (mt_root (trees ! (i div L)))"
    using below [OF at(1)] at(5) by (auto simp: proves_def)
  have "validate (mt_A C) b (layer_proof q t n (map mt_root trees) (mt_root tree) (i div L)) =
      Ok (node_hash (mt_A C) 0 (map mt_root trees) = mt_root tree)"
    using at(1) q assms(3,4) by (intro validate_layered_proof [OF alg(1)]) auto
  then have "validate (mt_A C) b (layer_proof q t n (map mt_root trees) (mt_root tree) (i div L)) = Ok True"
    using alg(2) tree(2) by (simp add: layer_heights_agree_def)
  with q at(4) that show ?thesis by (simp add: layer_proof_def proof_root_def)
qed

lemma sub_layer_proves:
  assumes ok: "layer_ok C b n' L trees leaves tree w" and "tree_data tree = SubTree trees" and "n' = 0"
  shows "proves C b (length trees) 0 tree w (concat leaves)"
  unfolding proves_def
proof (intro conjI allI impI)
  note trees = layer_okD(3-5) [OF ok] and below = layer_okD(6) [OF ok] and tree = layer_okD(7,8) [OF ok]
  note arities = layer_arities [OF ok]
  show "tree_leafs tree = length (concat leaves)" using tree(1) layer_total [OF ok] by simp
  fix i
  assume i: "i < length (concat leaves)"
  note at = layer_at [OF ok i]
  have pos: "0 < length trees" using trees(1) by simp
  have "mt_read_at C b 0 0 (trees ! (i div L)) (i mod L) w = Ok (concat leaves ! i)"
    using below [OF at(1)] at(4,5) assms(3) by (simp add: proves_def)
  then show "mt_read_at C b (length trees) 0 tree i w = Ok (concat leaves ! i)"
    using arities at assms(2) by (simp add: mt_read_at.simps [of C b "length trees" 0 tree])
  obtain q where "gen_proof C b 0 0 (trees ! (i div L)) (i mod L) w = Ok q"
    and q: "validate (mt_A C) b (layer_proof q 0 (length trees) (map mt_root trees) (mt_root tree) (i div L)) = Ok True"
      "leaf_item (layer_proof q 0 (length trees) (map mt_root trees) (mt_root tree) (i div L)) = Ok (concat leaves ! i)"
      "proof_root (layer_proof q 0 (length trees) (map mt_root trees) (mt_root tree) (i div L)) = Ok (mt_root tree)"
    using layer_proof_at [OF ok i pos, of 0] assms(3) by metis
  then have "gen_proof C b (length trees) 0 tree i w =
      Ok (layer_proof q 0 (length trees) (map mt_root trees) (mt_root tree) (i div L))"
    using arities at assms(2) layer_lemma_Ok [OF at(1), of "mt_root tree"] pos
      proof_new_layer [of "length trees" b 0 q "i div L" "map mt_root trees" "mt_root tree"]
    by (simp add: gen_proof.simps [of C b "length trees" 0 tree] gen_sub_tree_proof.simps)
  with q show "\<exists>p. gen_proof C b (length trees) 0 tree i w = Ok p \<and> validate (mt_A C) b p = Ok True \<and>
      leaf_item p = Ok (concat leaves ! i) \<and> proof_root p = Ok (mt_root tree)" by blast
qed

lemma top_layer_proves:
  assumes ok: "layer_ok C b n' L trees leaves tree w" and "tree_data tree = TopTree trees" and "0 < n'"
  shows "proves C b n' (length trees) tree w (concat leaves)"
  unfolding proves_def
proof (intro conjI allI impI)
  note trees = layer_okD(3-5) [OF ok] and below = layer_okD(6) [OF ok] and tree = layer_okD(7,8) [OF ok]
  note arities = layer_arities [OF ok]
  show "tree_leafs tree = length (concat leaves)" using tree(1) layer_total [OF ok] by simp
  fix i
  assume i: "i < length (concat leaves)"
  note at = layer_at [OF ok i]
  have pos: "0 < length trees" using trees(1) by simp
  have "mt_read_at C b n' 0 (trees ! (i div L)) (i mod L) w = Ok (concat leaves ! i)"
    using below [OF at(1)] at(4,5) by (simp add: proves_def)
  then show "mt_read_at C b n' (length trees) tree i w = Ok (concat leaves ! i)"
    using arities at assms(2) by (simp add: mt_read_at.simps [of C b n' "length trees" tree])
  obtain q where "gen_proof C b n' 0 (trees ! (i div L)) (i mod L) w = Ok q"
    and q: "validate (mt_A C) b (layer_proof q (length trees) n' (map mt_root trees) (mt_root tree) (i div L)) = Ok True"
      "leaf_item (layer_proof q (length trees) n' (map mt_root trees) (mt_root tree) (i div L)) = Ok (concat leaves ! i)"
      "proof_root (layer_proof q (length trees) n' (map mt_root trees) (mt_root tree) (i div L)) = Ok (mt_root tree)"
    using layer_proof_at [OF ok i assms(3), of "length trees"] by metis
  then have "gen_proof C b n' (length trees) tree i w =
      Ok (layer_proof q (length trees) n' (map mt_root trees) (mt_root tree) (i div L))"
    using arities at assms(2) layer_lemma_Ok [OF at(1), of "mt_root tree"] pos
      proof_new_layer [OF assms(3), of b "length trees" q "i div L" "map mt_root trees" "mt_root tree"]
    by (simp add: gen_proof.simps [of C b n' "length trees" tree] gen_sub_tree_proof.simps)
  with q show "\<exists>p. gen_proof C b n' (length trees) tree i w = Ok p \<and> validate (mt_A C) b p = Ok True \<and>
      leaf_item p = Ok (concat leaves ! i) \<and> proof_root p = Ok (mt_root tree)" by blast
qed

end
