(* ===== verification/Compound_Trees.thy ===== *)
theory Compound_Trees
  imports Compound_Correct
begin

text \<open>
  Compound trees made by the constructors: the laws of one layer (\<open>Compound_Correct\<close>)
  instantiated at what \<open>from_trees\<close>, \<open>from_sub_trees\<close> and \<open>from_sub_trees_as_trees\<close> return.
\<close>

section \<open>Trees of one shape\<close>

text \<open>\<open>base_trees\<close> are built over the lists of \<open>leaves\<close>, which have \<open>b ^ k\<close> elements each.\<close>

definition built_trees ::
  "('w, 's, 'e, 'a) merkle_types \<Rightarrow> ('s \<Rightarrow> 'w \<Rightarrow> bool) \<Rightarrow> ('s \<Rightarrow> 'w \<Rightarrow> 'e list) \<Rightarrow> nat \<Rightarrow> nat \<Rightarrow> 'e list list \<Rightarrow>
     ('s, 'e) merkle_tree list \<Rightarrow> 'w \<Rightarrow> bool" where
  "built_trees C valid elems b k leaves trees w \<longleftrightarrow>
     list_all2 (\<lambda>xs tree. length xs = b ^ k \<and> built_tree C valid elems b k xs tree w) leaves trees"

lemma built_treesD:
  assumes "built_trees C valid elems b k leaves trees w"
  shows "length leaves = length trees"
    and "j < length trees \<Longrightarrow> length (leaves ! j) = b ^ k"
    and "j < length trees \<Longrightarrow> built_tree C valid elems b k (leaves ! j) (trees ! j) w"
  using assms by (auto simp: built_trees_def list_all2_conv_all_nth)

definition tree_layer_fits :: "nat \<Rightarrow> nat \<Rightarrow> nat \<Rightarrow> bool" where
  "tree_layer_fits n len row_count \<longleftrightarrow> n * len + 1 < usize_limit \<and> row_count + 1 < usize_limit"

context merkle_build
begin

lemma built_trees_uniform:
  assumes "built_trees C inv elems (2 ^ m) k leaves trees w" and "tree_layer_fits (length trees) (tree_len (2 ^ m) k) (Suc k)"
  shows "uniform_trees C ((2 ^ m) ^ k) (tree_len (2 ^ m) k) (Suc k) trees"
proof -
  have "mt_leafs mt = (2 ^ m) ^ k \<and> mt_len C mt = tree_len (2 ^ m) k \<and> mt_row_count mt = Suc k" if "mt \<in> set trees" for mt
  proof -
    from that obtain j where j: "j < length trees" "mt = trees ! j" by (auto simp: in_set_conv_nth)
    note f = built_tree_fields [OF built_treesD(3) [OF assms(1) j(1)] built_treesD(2) [OF assms(1) j(1)], simplified]
    show ?thesis using f j(2) by (simp add: mt_leafs_def mt_row_count_def)
  qed
  then show ?thesis
    using assms(2) tree_len_ge [of "2 ^ m" k] by (simp add: uniform_trees_def tree_layer_fits_def)
qed

lemma from_trees_layer_ok:
  assumes "built_trees C inv elems (2 ^ m) k leaves trees w" and "tree_fits C m k"
    and "tree_layer_fits (length trees) (tree_len (2 ^ m) k) (Suc k)" and "trees \<noteq> []"
    and "heights_agree (mt_A C) (2 ^ m)" and "layer_heights_agree (mt_A C)"
  defines "tree \<equiv> layer_over C (SubTree trees) ((2 ^ m) ^ k) (tree_len (2 ^ m) k) (Suc k) trees"
  shows "from_trees C (length trees) trees = Ok tree" and "layer_ok C (2 ^ m) 0 ((2 ^ m) ^ k) trees leaves tree w"
proof -
  show "from_trees C (length trees) trees = Ok tree"
    using from_trees_Ok [OF built_trees_uniform [OF assms(1,3)]] assms(4) by (simp add: tree_def)
  have "proves C (2 ^ m) 0 0 (trees ! j) w (leaves ! j)" if "j < length trees" for j
    using built_tree_proves [OF built_treesD(3) [OF assms(1) that] built_treesD(2) [OF assms(1) that] assms(2,5)] .
  then show "layer_ok C (2 ^ m) 0 ((2 ^ m) ^ k) trees leaves tree w"
    using built_treesD(1,2) [OF assms(1)] assms(4,6) algorithm_contract_axioms
    by (simp add: layer_ok_def tree_def)
qed

lemma from_trees_proves:
  assumes "built_trees C inv elems (2 ^ m) k leaves trees w" and "tree_fits C m k"
    and "tree_layer_fits (length trees) (tree_len (2 ^ m) k) (Suc k)" and "trees \<noteq> []"
    and "heights_agree (mt_A C) (2 ^ m)" and "layer_heights_agree (mt_A C)"
  defines "tree \<equiv> layer_over C (SubTree trees) ((2 ^ m) ^ k) (tree_len (2 ^ m) k) (Suc k) trees"
  shows "from_trees C (length trees) trees = Ok tree" and "proves C (2 ^ m) (length trees) 0 tree w (concat leaves)"
  using from_trees_layer_ok [OF assms(1-6)] sub_layer_proves
  unfolding tree_def by (simp, fastforce)

text \<open>Two layers: \<open>t\<close> groups of \<open>n\<close> base trees.\<close>

lemma from_sub_trees_proves:
  assumes groups: "list_all2 (\<lambda>leaves trees. built_trees C inv elems (2 ^ m) k leaves trees w \<and> length trees = n) leavess treess"
    and subs: "map_outcome (from_trees C n) treess = Ok sub_trees"
    and fits: "tree_fits C m k" "tree_layer_fits n (tree_len (2 ^ m) k) (Suc k)"
      "tree_layer_fits (length treess) (n * tree_len (2 ^ m) k + 1) (Suc (Suc k))"
    and "treess \<noteq> []" and n: "0 < n"
    and heights: "heights_agree (mt_A C) (2 ^ m)" "layer_heights_agree (mt_A C)"
  defines "tree \<equiv> layer_over C (TopTree sub_trees) (n * (2 ^ m) ^ k) (n * tree_len (2 ^ m) k + 1) (Suc (Suc k)) sub_trees"
  shows "from_sub_trees C (length treess) sub_trees = Ok tree"
    and "proves C (2 ^ m) n (length treess) tree w (concat (map concat leavess))"
    and "combine_trees C sub_trees = Ok (tree_leafs tree, tree_len_field tree, tree_row_count tree, tree_root_field tree)"
proof -
  note len = list_all2_lengthD [OF groups]
  have lens: "length sub_trees = length treess" and
    at: "\<And>j. j < length treess \<Longrightarrow> from_trees C n (treess ! j) = Ok (sub_trees ! j)"
    using map_outcome_OkD [OF subs] by simp_all
  have each: "sub_trees ! j = layer_over C (SubTree (treess ! j)) ((2 ^ m) ^ k) (tree_len (2 ^ m) k) (Suc k) (treess ! j) \<and>
      proves C (2 ^ m) n 0 (sub_trees ! j) w (concat (leavess ! j)) \<and> length (treess ! j) = n \<and>
      length (concat (leavess ! j)) = n * (2 ^ m) ^ k" if j: "j < length treess" for j
  proof -
    have b: "built_trees C inv elems (2 ^ m) k (leavess ! j) (treess ! j) w" "length (treess ! j) = n"
      using list_all2_nthD2 [OF groups j] by simp_all
    then have ne: "treess ! j \<noteq> []" using n by auto
    note p = from_trees_proves [OF b(1) fits(1) _ ne heights, unfolded b(2), OF fits(2)]
    have eq: "sub_trees ! j = layer_over C (SubTree (treess ! j)) ((2 ^ m) ^ k) (tree_len (2 ^ m) k) (Suc k) (treess ! j)"
      using p(1) at [OF j] by simp
    have "length (concat (leavess ! j)) = tree_leafs (sub_trees ! j)"
      using p(2) eq by (simp add: proves_def)
    then show ?thesis using p(2) eq b(2) by simp
  qed
  have fields: "mt_leafs mt = n * (2 ^ m) ^ k \<and> mt_len C mt = n * tree_len (2 ^ m) k + 1 \<and> mt_row_count mt = Suc (Suc k)"
    if "mt \<in> set sub_trees" for mt
    using that each lens by (fastforce simp: in_set_conv_nth)
  have "n * (2 ^ m) ^ k \<le> n * tree_len (2 ^ m) k + 1"
    by (rule trans_le_add1 [OF mult_le_mono2 [OF tree_len_ge]])
  then have uni: "uniform_trees C (n * (2 ^ m) ^ k) (n * tree_len (2 ^ m) k + 1) (Suc (Suc k)) sub_trees"
    using fields fits(3) lens by (simp add: uniform_trees_def tree_layer_fits_def)
  show "from_sub_trees C (length treess) sub_trees = Ok tree"
    using from_sub_trees_Ok [OF uni] lens \<open>treess \<noteq> []\<close> by (simp add: tree_def)
  have ne: "sub_trees \<noteq> []" using lens \<open>treess \<noteq> []\<close> by auto
  then show "combine_trees C sub_trees = Ok (tree_leafs tree, tree_len_field tree, tree_row_count tree, tree_root_field tree)"
    using combine_trees_Ok [OF uni] by (simp add: tree_def layer_over_def)
  have "layer_ok C (2 ^ m) n (n * (2 ^ m) ^ k) sub_trees (map concat leavess) tree w"
    unfolding layer_ok_def
  proof (intro conjI allI impI algorithm_contract_axioms heights(2) ne)
    fix j
    assume "j < length sub_trees"
    then have j: "j < length treess" using lens by simp
    then show "length (map concat leavess ! j) = n * (2 ^ m) ^ k" using each [OF j] len by simp
    show "proves C (2 ^ m) n 0 (sub_trees ! j) w (map concat leavess ! j)"
      using each [OF j] j len by (metis nth_map)
  qed (use lens len n in \<open>simp_all add: tree_def\<close>)
  from top_layer_proves [OF this _ n] show "proves C (2 ^ m) n (length treess) tree w (concat (map concat leavess))"
    using lens by (simp add: tree_def)
qed

end


section \<open>Base trees under two layers at once\<close>

text \<open>With two top nodes \<open>from_sub_trees_as_trees\<close> is \<open>from_sub_trees\<close> over the halves.\<close>

lemma as_trees_two:
  assumes "same_row_counts trees" and "same_lengths C trees" and "length trees = 2 * n" and "2 \<le> n"
    and "2 * n < usize_limit"
    and subs: "map_outcome (from_trees C n) [take n trees, drop n trees] = Ok sub_trees"
    and comb: "combine_trees C sub_trees = Ok (leafs, len, row_count, root)"
  shows "from_sub_trees_as_trees C n 2 trees = Ok (MerkleTree (TopTree sub_trees) leafs len row_count root)"
  using assms(1-5) subs comb group_trees_two [OF assms(3,4)]
  by (simp add: from_sub_trees_as_trees_def cong del: and_then_weak_cong)

text \<open>Every other pair of arities is refused: some group does not have \<open>n\<close> trees.\<close>

lemma from_trees_length: "from_trees C n trees = Ok tree \<Longrightarrow> 0 < n \<and> length trees = n"
  by (auto simp: from_trees_def split: if_splits)

lemma as_trees_arities:
  assumes "from_sub_trees_as_trees C n t trees = Ok tree"
  shows "t = 2 \<and> 2 \<le> n"
proof (rule ccontr)
  assume other: "\<not> (t = 2 \<and> 2 \<le> n)"
  obtain groups sub_trees where t: "0 < t" and len: "length trees = t * n"
    and g: "group_trees t trees = Ok groups" and subs: "map_outcome (from_trees C n) groups = Ok sub_trees"
    using assms
    by (auto simp: from_sub_trees_as_trees_def usize_mul_def split: if_splits elim!: and_then_OkE)
  have all: "0 < n \<and> length x = n" if "x \<in> set groups" for x
  proof -
    from that obtain j where "j < length groups" "x = groups ! j" by (auto simp: in_set_conv_nth)
    then show ?thesis using map_outcome_OkD(2) [OF subs] from_trees_length by metis
  qed
  have "0 < n" using g t len by (cases n) (auto simp: group_trees_def)
  from group_trees_other [OF len t this other] g all show False by auto
qed


section \<open>Indices outside, and the item of a compound proof\<close>

lemma layer_index_out:
  assumes ok: "layer_ok C b n' L trees leaves tree w" and "length trees * L \<le> i"
  shows "index_at trees (i div L) = Panic IndexOutOfBounds"
proof -
  have "length trees * L div L \<le> i div L" using assms(2) by (rule div_le_mono)
  then show ?thesis using layer_okD(5) [OF ok] by simp
qed

lemma sub_layer_out_of_bounds:
  assumes ok: "layer_ok C b 0 L trees leaves tree w" and "tree_data tree = SubTree trees" and "length trees * L \<le> i"
  shows "gen_proof C b (length trees) 0 tree i w = Panic IndexOutOfBounds"
    and "mt_read_at C b (length trees) 0 tree i w = Panic IndexOutOfBounds"
  using layer_okD(3) [OF ok] layer_arities [OF ok] layer_index_out [OF ok assms(3)] assms(2)
  by (simp_all add: gen_proof.simps [of C b "length trees" 0 tree] gen_sub_tree_proof.simps
      mt_read_at.simps [of C b "length trees" 0 tree])

lemma sub_tree_proof_shape:
  assumes "gen_proof C b n t tree i w = Ok p" and "tree_data tree = SubTree trees"
  defines "j \<equiv> i div (tree_leafs tree div length trees)"
  shows "j < length trees \<and> (\<exists>q. p = layer_proof q t n (map mt_root trees) (mt_root tree) j)"
proof -
  have n: "length trees = n" and j: "j < length trees"
    using assms(1,2)
    by (auto simp: gen_proof.simps gen_sub_tree_proof.simps usize_div_def index_at_def j_def
        split: if_splits elim!: and_then_OkE)
  then show ?thesis
    using assms(1,2) layer_lemma_Ok [OF j, of "mt_root tree"]
    by (auto simp: gen_proof.simps gen_sub_tree_proof.simps usize_div_def j_def proof_new_def layer_proof_def
        split: if_splits elim!: and_then_OkE)
qed

text \<open>The leaf \<open>validate_with_data\<close> computes from the data.\<close>

definition data_leaf :: "('a, 'e) algorithm \<Rightarrow> ('d, 'a) hashable \<Rightarrow> 'd \<Rightarrow> 'e" where
  "data_leaf A hash d = leaf_hash A (fst (alg_hash A (hash d (alg_default A))))"

lemma validate_with_data_item:
  assumes "algorithm_contract A" and "proof_item p = Ok x" and "validate A b p = Ok True"
  shows "validate_with_data A b hash d p = Ok (data_leaf A hash d = x)"
  using assms algorithm_contract.leaf_after_reset [OF assms(1)]
  by (simp add: validate_with_data_def data_leaf_def split_beta Let_def)

lemma layer_proof_item:
  assumes "j < length roots" and "2 \<le> length roots"
  shows "proof_item (layer_proof q t n roots root j) = Ok (roots ! (if j = 0 then 1 else 0))"
proof (cases "j = 0")
  case True
  have "drop (Suc 0) roots = roots ! 1 # drop 2 roots"
    using assms(2) by (metis Cons_nth_drop_Suc One_nat_def Suc_1 Suc_le_lessD)
  then show ?thesis using True by (simp add: proof_item_def layer_proof_def)
next
  case False
  then obtain x xs where "roots = x # xs" "0 < j" using assms(1) by (cases roots) auto
  then show ?thesis by (cases j) (simp_all add: proof_item_def layer_proof_def)
qed

end
