(* ===== verification/Binding.thy ===== *)
theory Binding
  imports Gen_Proof_Correct
begin

text \<open>
  What a proof binds its root to: from a valid proof for a value that is not the leaf of the
  tree, a collision of the node hash can be computed; and the constructors that read the stored
  nodes back.
\<close>

section \<open>A valid proof against the leaf of a tree\<close>

lemma same_pathI:
  assumes "length steps = length steps'"
    and "\<And>r. r < length steps \<Longrightarrow> fst (steps ! r) = fst (steps' ! r) \<and> fst (steps ! r) \<le> length (snd (steps ! r))
      \<and> length (snd (steps ! r)) = length (snd (steps' ! r))"
  shows "same_path steps steps'"
  unfolding same_path_def list_all2_conv_all_nth
proof (intro conjI allI impI assms(1))
  fix r
  assume "r < length steps"
  from assms(2) [OF this] show "(case steps ! r of (p, sibs) \<Rightarrow>
      \<lambda>(p', sibs'). p = p' \<and> length sibs = length sibs' \<and> p \<le> length sibs) (steps' ! r)"
    by (simp add: split_beta)
qed

lemma proof_steps_nth:
  assumes "length (pf_lemma p) = 2 + length (pf_path p) * (b - 1)" and "r < length (pf_path p)"
  shows "fst (proof_steps b p ! r) = pf_path p ! r" and "length (snd (proof_steps b p ! r)) = b - 1"
proof -
  show "fst (proof_steps b p ! r) = pf_path p ! r" using assms(2) by (simp add: proof_steps_def)
  have "Suc r * (b - 1) \<le> length (pf_path p) * (b - 1)" using assms(2) by (intro mult_le_mono1) simp
  then show "length (snd (proof_steps b p ! r)) = b - 1" using assms by (simp add: proof_steps_def)
qed

lemma base_proof_valid_iff:
  assumes "algorithm_contract A" and "2 \<le> b" and "proof_new b 0 0 None lem path = Ok p"
  shows "validate A b p = Ok ((\<forall>x \<in> set path. x < b) \<and>
    climb (proof_height A b) 0 (hd lem) (proof_steps b p) = last lem)"
  using algorithm_contract.validate_base_total [OF assms(1,2), of p] proof_new_base [OF assms(3)]
  by simp

lemma two_valid_proofs:
  assumes "algorithm_contract A" and "2 \<le> b"
    and p: "proof_new b 0 0 None lem path = Ok p" and q: "proof_new b 0 0 None lem' path = Ok q"
    and "validate A b p = Ok True" and "validate A b q = Ok True" and "last lem = last lem'"
    and "hd lem \<noteq> hd lem'"
  shows "\<exists>j ns ns'. find_collision (proof_height A b) 0 (hd lem) (proof_steps b p) (hd lem') (proof_steps b q)
      = Some (j, ns, ns') \<and> ns \<noteq> ns' \<and> proof_height A b j ns = proof_height A b j ns'"
proof (rule climb_binding)
  note pn = proof_new_base [OF p] and qn = proof_new_base [OF q]
  have v: "\<forall>x \<in> set path. x < b" "climb (proof_height A b) 0 (hd lem) (proof_steps b p) = last lem"
    "climb (proof_height A b) 0 (hd lem') (proof_steps b q) = last lem'"
    using base_proof_valid_iff [OF assms(1,2) p] base_proof_valid_iff [OF assms(1,2) q] assms(5,6) by simp_all
  then show "climb (proof_height A b) 0 (hd lem) (proof_steps b p) =
      climb (proof_height A b) 0 (hd lem') (proof_steps b q)" using assms(7) by simp
  show "(hd lem, proof_steps b p) \<noteq> (hd lem', proof_steps b q)" using assms(8) by simp
  show "same_path (proof_steps b p) (proof_steps b q)"
  proof (rule same_pathI)
    show "length (proof_steps b p) = length (proof_steps b q)" using pn qn by (simp add: proof_steps_def)
    fix r
    assume "r < length (proof_steps b p)"
    then have r: "r < length path" using pn by (simp add: proof_steps_def)
    then have "path ! r < b" using v(1) by simp
    then have "path ! r \<le> b - 1" by simp
    then show "fst (proof_steps b p ! r) = fst (proof_steps b q ! r) \<and>
        fst (proof_steps b p ! r) \<le> length (snd (proof_steps b p ! r)) \<and>
        length (snd (proof_steps b p ! r)) = length (snd (proof_steps b q ! r))"
      using proof_steps_nth [of p b r] proof_steps_nth [of q b r] pn qn r by simp
  qed
qed

text \<open>The digits of a leaf index are the path of its proof.\<close>

definition leaf_path :: "nat \<Rightarrow> nat \<Rightarrow> nat \<Rightarrow> nat list" where
  "leaf_path b k i = map (\<lambda>r. i div b ^ r mod b) [0..<k]"

lemma leaf_path_tree_steps: "leaf_path b k i = map fst (tree_steps h b xs k i)"
  by (simp add: leaf_path_def tree_steps_def row_index_def)

lemma valid_proof_binds_leaf:
  assumes "algorithm_contract A" and "2 \<le> b" and "heights_agree A b"
    and xs: "length xs = b ^ k" "i < b ^ k"
    and p: "proof_new b 0 0 None lem (leaf_path b k i) = Ok p"
    and "validate A b p = Ok True" and "last lem = tree_root (node_hash A) b k xs" and "hd lem \<noteq> xs ! i"
  shows "\<exists>j ns ns'. find_collision (node_hash A) 0 (hd lem) (proof_steps b p)
      (xs ! i) (tree_steps (node_hash A) b xs k i)
      = Some (j, ns, ns') \<and> ns \<noteq> ns' \<and> node_hash A j ns = node_hash A j ns'"
proof (rule climb_binding)
  note pn = proof_new_base [OF p]
  have b: "0 < b" using assms(2) by simp
  have ph: "proof_height A b = node_hash A" using assms(3) by (rule heights_agree_proof_height)
  have "climb (node_hash A) 0 (hd lem) (proof_steps b p) = last lem"
    using base_proof_valid_iff [OF assms(1,2) p] assms(7) ph by simp
  then show "climb (node_hash A) 0 (hd lem) (proof_steps b p) =
      climb (node_hash A) 0 (xs ! i) (tree_steps (node_hash A) b xs k i)"
    using climb_tree [OF b xs] assms(8) by simp
  show "(hd lem, proof_steps b p) \<noteq> (xs ! i, tree_steps (node_hash A) b xs k i)" using assms(9) by simp
  show "same_path (proof_steps b p) (tree_steps (node_hash A) b xs k i)"
  proof (rule same_pathI)
    show len: "length (proof_steps b p) = length (tree_steps (node_hash A) b xs k i)"
      using pn by (simp add: proof_steps_def leaf_path_def)
    fix r
    assume "r < length (proof_steps b p)"
    then have r: "r < k" using len by simp
    have "fst (tree_steps (node_hash A) b xs k i ! r) < b" "length (snd (tree_steps (node_hash A) b xs k i ! r)) = b - 1"
      using tree_steps_siblings [OF b xs r] by blast+
    moreover have "fst (proof_steps b p ! r) = fst (tree_steps (node_hash A) b xs k i ! r)"
      using proof_steps_nth(1) [of p b r] pn r by (simp add: leaf_path_tree_steps [of b k i "node_hash A" xs])
    moreover have "length (snd (proof_steps b p ! r)) = b - 1"
      using proof_steps_nth(2) [of p b r] pn r by (simp add: leaf_path_def)
    ultimately show "fst (proof_steps b p ! r) = fst (tree_steps (node_hash A) b xs k i ! r) \<and>
        fst (proof_steps b p ! r) \<le> length (snd (proof_steps b p ! r)) \<and>
        length (snd (proof_steps b p ! r)) = length (snd (tree_steps (node_hash A) b xs k i ! r))"
      by simp
  qed
qed


section \<open>Hashing objects\<close>

context algorithm_contract
begin

lemma hash_objects_map:
  "hash_objects A hash xs a = map (\<lambda>x. fst (alg_hash A (hash x (alg_default A)))) xs"
  by (induction xs arbitrary: a) (simp_all add: reset_default split_beta Let_def)

end

end
