(* ===== verification/Test_Tree.thy ===== *)
theory Test_Tree
  imports Test_Common Hash_Impl Vec_Store Compound_Trees
begin

text \<open>
  The trees of the crate's tests: \<open>XOR128\<close> over \<open>[u8; 16]\<close> in a \<open>VecStore\<close>. They
  interpret the contract of a tree, \<open>merkle_build\<close>, and the witnesses run on them.
\<close>

text \<open>A logarithm that is exact, as the row count needs it.\<close>

fun floor_log :: "nat \<Rightarrow> nat \<Rightarrow> nat" where
  "floor_log b x = (if b < 2 \<or> x < b then 0 else Suc (floor_log b (x div b)))"

declare floor_log.simps [simp del]

definition exact_flog :: "nat \<Rightarrow> nat \<Rightarrow> nat" where
  "exact_flog b l = floor_log b (b * l)"

lemma floor_log_power: "2 \<le> b \<Longrightarrow> floor_log b (b ^ k) = k"
proof (induction k)
  case 0
  then show ?case by (subst floor_log.simps) simp
next
  case (Suc k)
  then show ?case by (subst floor_log.simps) simp
qed

lemma exact_flog_rows: "0 < m \<Longrightarrow> rows_exact exact_flog m k"
proof -
  assume "0 < m"
  then have "2 \<le> (2 ^ m :: nat)" by (cases m) simp_all
  then show ?thesis using floor_log_power [of "2 ^ m" "Suc k"] by (simp add: rows_exact_def exact_flog_def)
qed

definition xor128_types :: "('w, item vec_store, item, xor128) merkle_types" where
  "xor128_types =
     \<lparr>mt_E = item_element, mt_A = xor128_algorithm, mt_S = vec_store item_element, mt_flog = exact_flog\<rparr>"

lemma xor128_types_simps [simp]:
  "mt_E xor128_types = item_element" "mt_A xor128_types = xor128_algorithm"
  "mt_S xor128_types = vec_store item_element" "mt_flog xor128_types = exact_flog"
  by (simp_all add: xor128_types_def)

abbreviation item_vec_inv :: "item vec_store \<Rightarrow> 'w \<Rightarrow> bool" where
  "item_vec_inv \<equiv> \<lambda>s w. vec_inv item_element s"

abbreviation item_vec_elems :: "item vec_store \<Rightarrow> 'w \<Rightarrow> item list" where
  "item_vec_elems \<equiv> \<lambda>s w. s"

lemma xor128_merkle_build:
  "merkle_build (xor128_types :: ('w, item vec_store, item, xor128) merkle_types)
     item_vec_inv item_vec_elems (\<lambda>s w. vec_capacity item_element) (\<lambda>w. True) (\<lambda>config w. True)"
  unfolding merkle_build_def xor128_types_simps
  using element_contract.vec_tree_store [OF item.element_contract_axioms] xor128_alg.algorithm_contract_axioms by blast

interpretation xor128_tree: merkle_build
  "xor128_types :: (unit, item vec_store, item, xor128) merkle_types"
  item_vec_inv item_vec_elems "\<lambda>s w. vec_capacity item_element" "\<lambda>w. True" "\<lambda>config w. True"
  by (rule xor128_merkle_build)

lemma xor128_fits:
  assumes "tree_shape m k" and "m \<le> 12" and "tree_len (2 ^ m) k * 16 < isize_limit"
  shows "tree_fits xor128_types m k"
  using assms exact_flog_rows [of m k] by (simp add: tree_fits_def item_element_def tree_shape_def)

lemma xor128_heights: "heights_agree xor128_algorithm b"
  by (rule heights_agree_height_free) unfold_locales

text \<open>\<open>get_vec_tree_from_slice\<close>\<close>

definition get_vec_tree_from_slice ::
  "nat \<Rightarrow> nat \<Rightarrow> 'w \<Rightarrow> ((item vec_store, item) merkle_tree \<times> 'w) outcome" where
  "get_vec_tree_from_slice branches leafs w =
     and_then (map_outcome (\<lambda>i. usize_mul i 93) [0..<leafs]) (\<lambda>x.
     expect (from_data xor128_types branches (Some leafs) (hash_ref (hash_usize xor128_algorithm))
       (map word_of_nat x) w))"


text \<open>The instances the witnesses use: four leaves under arity 2, sixteen under arity 4.\<close>

abbreviation test_types :: "(unit, item vec_store, item, xor128) merkle_types" where
  "test_types \<equiv> xor128_types"

lemma test_build:
  "merkle_build test_types item_vec_inv item_vec_elems (\<lambda>s w. vec_capacity item_element) (\<lambda>w. True) (\<lambda>config w. True)"
  by (rule xor128_merkle_build)

lemma test_fits:
  "tree_fits test_types 1 2" "tree_fits test_types 2 2"
  by (rule xor128_fits; simp add: tree_shape_def tree_len_sum numeral_2_eq_2)+

lemma test_tree_len [simp]: "tree_len 2 2 = 7" "tree_len 4 2 = 21"
  by (simp_all add: tree_len_sum numeral_2_eq_2)

lemma test_heights: "heights_agree (mt_A test_types) b" "layer_heights_agree (mt_A test_types)"
  using xor128_heights layer_heights_agree_height_free [OF xor128_alg.height_free_algorithm_axioms] by auto

abbreviation test_leaves :: "item list" where
  "test_leaves \<equiv> map (leaf_hash xor128_algorithm) (replicate 4 item_zero)"

text \<open>Twice, three times \dots the tree over four equal leaves: what the compound trees are made of.\<close>

lemma test_tree:
  obtains tree where
    "try_from_iter test_types 2 (Some 4) (map Ok (replicate 4 item_zero)) () = Ok (tree, ())"
    "built_tree test_types item_vec_inv item_vec_elems (2 ^ 1) 2 test_leaves tree ()"
    "\<And>n. built_trees test_types item_vec_inv item_vec_elems (2 ^ 1) 2 (replicate n test_leaves) (replicate n tree) ()"
proof -
  obtain tree where t: "try_from_iter test_types 2 (Some 4) (map Ok (replicate 4 item_zero)) () = Ok (tree, ())"
    "built_tree test_types item_vec_inv item_vec_elems (2 ^ 1) 2 test_leaves tree ()"
    using xor128_tree.try_from_iter_built
      [where w = "()" and xs = "replicate 4 item_zero", OF test_fits(1)] by auto
  moreover have "built_trees test_types item_vec_inv item_vec_elems (2 ^ 1) 2 (replicate n test_leaves) (replicate n tree) ()" for n
    using t(2) by (simp add: built_trees_def list_all2_conv_all_nth)
  ultimately show ?thesis using that by blast
qed

lemma test_layer_fits:
  "n < 1000 \<Longrightarrow> tree_layer_fits n (tree_len (2 ^ 1) 2) (Suc 2)"
  "t * (n * 7 + 1) < 1000 \<Longrightarrow> tree_layer_fits t (n * tree_len (2 ^ 1) 2 + 1) (Suc (Suc 2))"
  by (simp_all add: tree_layer_fits_def)

lemma test_sub_tree:
  assumes "\<And>n. built_trees test_types item_vec_inv item_vec_elems (2 ^ 1) 2 (replicate n test_leaves) (replicate n base) ()"
    and "0 < n" "n < 1000"
  obtains sub where "from_trees test_types n (replicate n base) = Ok sub"
proof -
  have "from_trees test_types (length (replicate n base)) (replicate n base) =
      Ok (layer_over test_types (SubTree (replicate n base)) ((2 ^ 1) ^ 2) (tree_len (2 ^ 1) 2) (Suc 2) (replicate n base))"
    by (rule xor128_tree.from_trees_layer_ok(1) [OF assms(1) test_fits(1) _ _ test_heights])
      (use assms(2,3) test_layer_fits(1) [of n] in simp_all)
  then show ?thesis using that by simp
qed

end
