(* ===== verification/File_System.thy ===== *)
theory File_System
  imports Store_Config Element
begin

text \<open>
  The files the stores live in. What the crate uses of \<open>std::fs\<close> and \<open>std::io\<close> is modelled
  here: a file system maps paths to files and files to their bytes; a file stays readable
  through an open handle after its name is gone. There is no limit on the space. What it
  uses of the crates \<open>positioned_io\<close>, \<open>memmap\<close> and \<open>tempfile\<close> is a parameter, the record
  \<open>file_io\<close>, and the locale \<open>file_io_contract\<close> states their documented behaviour.
\<close>

section \<open>The file system\<close>

text \<open>
  A \<open>File\<close> is the number of a file. The position of a handle is an argument of
  \<open>fs_copy\<close>, the only operation that depends on it. \<open>fs_creatable path\<close> says that the
  directory of the path exists and may be written.
\<close>

type_synonym fs_file = nat

record fs =
  fs_dir :: "(path_buf \<times> fs_file) list"
  fs_data :: "fs_file \<Rightarrow> byte list"
  fs_next :: fs_file
  fs_creatable :: "path_buf \<Rightarrow> bool"

definition fs_names :: "fs \<Rightarrow> path_buf \<Rightarrow> fs_file option" where
  "fs_names w = map_of (fs_dir w)"

definition fs_put :: "fs_file \<Rightarrow> byte list \<Rightarrow> fs \<Rightarrow> fs" where
  "fs_put f bs w = w\<lparr>fs_data := (fs_data w)(f := bs)\<rparr>"

definition fs_alloc :: "fs \<Rightarrow> fs_file \<times> fs" where
  "fs_alloc w = (fs_next w, w\<lparr>fs_data := (fs_data w)(fs_next w := []), fs_next := Suc (fs_next w)\<rparr>)"

definition fs_link :: "path_buf \<Rightarrow> fs_file \<Rightarrow> fs \<Rightarrow> fs" where
  "fs_link path f w = w\<lparr>fs_dir := (path, f) # fs_dir w\<rparr>"

text \<open>\<open>Path::exists\<close>, \<open>OpenOptions::open\<close>, \<open>File::open\<close>, and \<open>open\<close> with \<open>create_new\<close>\<close>

definition fs_exists :: "path_buf \<Rightarrow> fs \<Rightarrow> bool" where
  "fs_exists path w \<longleftrightarrow> fs_names w path \<noteq> None"

definition fs_open :: "path_buf \<Rightarrow> fs \<Rightarrow> fs_file outcome" where
  "fs_open path w = (case fs_names w path of None \<Rightarrow> Err FileNotFound | Some f \<Rightarrow> Ok f)"

definition fs_create_new :: "path_buf \<Rightarrow> fs \<Rightarrow> (fs_file \<times> fs) outcome" where
  "fs_create_new path w =
     ensure (\<not> fs_exists path w) FileExists (
     ensure (fs_creatable w path) CannotCreateFile (
     let (f, w) = fs_alloc w in Ok (f, fs_link path f w)))"

text \<open>\<open>File::set_len\<close> (new bytes are zero), \<open>metadata().len()\<close>, \<open>remove_file\<close>, \<open>sync_all\<close>\<close>

definition fs_set_len :: "fs_file \<Rightarrow> nat \<Rightarrow> fs \<Rightarrow> fs outcome" where
  "fs_set_len f n w =
     ensure (n < isize_limit) FileTooLarge (
     let bs = fs_data w f in Ok (fs_put f (take n bs @ replicate (n - length bs) 0) w))"

definition fs_metadata_len :: "fs_file \<Rightarrow> fs \<Rightarrow> nat" where
  "fs_metadata_len f w = length (fs_data w f)"

definition fs_remove_file :: "path_buf \<Rightarrow> fs \<Rightarrow> fs outcome" where
  "fs_remove_file path w =
     ensure (fs_exists path w) FileNotFound (Ok (w\<lparr>fs_dir := filter (\<lambda>(p, f). p \<noteq> path) (fs_dir w)\<rparr>))"

definition fs_sync_all :: "fs_file \<Rightarrow> fs \<Rightarrow> unit outcome" where
  "fs_sync_all f w = Ok ()"

text \<open>
  \<open>std::io::copy\<close> from a reader at \<open>r\<close> to a writer at \<open>p\<close>: a loop over a buffer that ends
  when a read returns nothing. A write behind the end of a file fills the gap with zeros. The
  reader and the writer may be the same file, and then the loop reads what it has written.
\<close>

definition COPY_BUFFER :: nat where
  "COPY_BUFFER = 8192"

definition write_bytes :: "nat \<Rightarrow> byte list \<Rightarrow> byte list \<Rightarrow> byte list" where
  "write_bytes p bs data = overwrite p bs (data @ replicate (p - length data) 0)"

definition fs_copy :: "fs_file \<Rightarrow> nat \<Rightarrow> fs_file \<Rightarrow> nat \<Rightarrow> fs \<Rightarrow> (nat \<times> fs) outcome" where
  "fs_copy reader r writer p w =
     and_then
       (while_loop
         (\<lambda>(r, p, written, w). r < length (fs_data w reader))
         (\<lambda>(r, p, written, w).
           let bs = take COPY_BUFFER (drop r (fs_data w reader)) in
           Ok (r + length bs, p + length bs, written + length bs,
               fs_put writer (write_bytes p bs (fs_data w writer)) w))
         (r, p, 0, w))
       (\<lambda>(r, p, written, w). Ok (written, w))"

lemma fs_put_simps [simp]:
  "fs_data (fs_put f bs w) = (fs_data w)(f := bs)" "fs_names (fs_put f bs w) = fs_names w"
  "fs_next (fs_put f bs w) = fs_next w" "fs_creatable (fs_put f bs w) = fs_creatable w"
  "fs_put f bs' (fs_put f bs w) = fs_put f bs' w" "fs_put f (fs_data w f) w = w"
  by (simp_all add: fs_put_def fs_names_def)

lemma fs_alloc_simps [simp]:
  "fst (fs_alloc w) = fs_next w" "fs_data (snd (fs_alloc w)) = (fs_data w)(fs_next w := [])"
  "fs_names (snd (fs_alloc w)) = fs_names w" "fs_next (snd (fs_alloc w)) = Suc (fs_next w)"
  "fs_creatable (snd (fs_alloc w)) = fs_creatable w"
  by (simp_all add: fs_alloc_def fs_names_def)

lemma fs_link_simps [simp]:
  "fs_data (fs_link path f w) = fs_data w" "fs_names (fs_link path f w) = (fs_names w)(path := Some f)"
  "fs_next (fs_link path f w) = fs_next w" "fs_creatable (fs_link path f w) = fs_creatable w"
  by (simp_all add: fs_link_def fs_names_def fun_upd_def)

lemma write_bytes_inside: "p \<le> length data \<Longrightarrow> write_bytes p bs data = overwrite p bs data"
  by (simp add: write_bytes_def)

lemma length_write_bytes: "length (write_bytes p bs data) = max (length data) (p + length bs)"
  by (simp add: write_bytes_def length_overwrite)

text \<open>A copy to the front within one file moves the bytes and keeps the length.\<close>

lemma fs_copy_down:
  assumes "p \<le> r" and "r \<le> length (fs_data w f)"
  shows "fs_copy f r f p w =
    Ok (length (fs_data w f) - r, fs_put f (overwrite p (drop r (fs_data w f)) (fs_data w f)) w)"
proof -
  let ?d = "fs_data w f"
  let ?b = "\<lambda>(r :: nat, p :: nat, written :: nat, w :: fs). r < length (fs_data w f)"
  let ?c = "\<lambda>(r :: nat, p :: nat, written :: nat, w :: fs).
    let bs = take COPY_BUFFER (drop r (fs_data w f)) in
    Ok (r + length bs, p + length bs, written + length bs, fs_put f (write_bytes p bs (fs_data w f)) w)"
  let ?I = "\<lambda>t. \<exists>n \<le> length ?d - r. t = (r + n, p + n, n, fs_put f (overwrite p (take n (drop r ?d)) ?d) w)"
  have "\<exists>t. while_loop ?b ?c (r, p, 0, w) = Ok t \<and> ?I t \<and> \<not> ?b t"
  proof (rule while_loop_total [where m = "\<lambda>t. length ?d - fst t"])
    show "?I (r, p, 0, w)" using assms by (intro exI [of _ 0]) simp
    fix t
    assume "?I t" and b: "?b t"
    then obtain n where n: "n \<le> length ?d - r"
      and t: "t = (r + n, p + n, n, fs_put f (overwrite p (take n (drop r ?d)) ?d) w)" by auto
    let ?e = "overwrite p (take n (drop r ?d)) ?d" and ?bs = "take COPY_BUFFER (drop (r + n) ?d)"
    have len: "length ?e = length ?d" using n assms by (simp add: length_overwrite)
    have lt: "r + n < length ?d" using b t len by simp
    have "drop (r + n) ?e = drop (r + n) ?d" using n assms by (simp add: overwrite_def)
    moreover have "write_bytes (p + n) ?bs ?e = overwrite p (take (n + length ?bs) (drop r ?d)) ?d"
    proof -
      have "p + n \<le> length ?e" using len assms n by simp
      then have "write_bytes (p + n) ?bs ?e = overwrite (p + length (take n (drop r ?d))) ?bs ?e"
        using n by (simp add: write_bytes_inside min_absorb2)
      also have "\<dots> = overwrite p (take n (drop r ?d) @ ?bs) ?d" using assms by (intro overwrite_adjacent) simp
      also have "take n (drop r ?d) @ ?bs = take (n + length ?bs) (drop r ?d)"
        using take_add [of n "length ?bs" "drop r ?d"] by (simp add: add.commute min_def)
      finally show ?thesis .
    qed
    ultimately have step: "?c t = Ok (r + (n + length ?bs), p + (n + length ?bs), n + length ?bs,
        fs_put f (overwrite p (take (n + length ?bs) (drop r ?d)) ?d) w)"
      using t len by (simp add: Let_def add.assoc)
    moreover have "0 < length ?bs" "n + length ?bs \<le> length ?d - r"
      using lt by (simp_all add: COPY_BUFFER_def)
    ultimately show "\<exists>u. ?c t = Ok u \<and> ?I u \<and> length ?d - fst u < length ?d - fst t"
      using t lt by (auto simp: diff_less_mono2)
  qed
  then obtain n where loop: "while_loop ?b ?c (r, p, 0, w) =
      Ok (r + n, p + n, n, fs_put f (overwrite p (take n (drop r ?d)) ?d) w)"
    and n: "n \<le> length ?d - r" and "\<not> r + n < length (overwrite p (take n (drop r ?d)) ?d)" by auto
  then have "n = length ?d - r" using assms by (simp add: length_overwrite)
  then show ?thesis using loop by (simp add: fs_copy_def)
qed

text \<open>A copy to the back of the same file never ends: it keeps reading what it has appended.\<close>

lemma fs_copy_up_diverges:
  assumes "r < p" and "r < length (fs_data w f)"
  shows "fs_copy f r f p w = Diverge"
proof -
  let ?b = "\<lambda>(r :: nat, p :: nat, written :: nat, w :: fs). r < length (fs_data w f)"
  let ?c = "\<lambda>(r :: nat, p :: nat, written :: nat, w :: fs).
    let bs = take COPY_BUFFER (drop r (fs_data w f)) in
    Ok (r + length bs, p + length bs, written + length bs, fs_put f (write_bytes p bs (fs_data w f)) w)"
  have "while_loop ?b ?c (r, p, 0, w) = Diverge"
  proof (rule while_loop_diverges [where I = "\<lambda>(r, p, written :: nat, w :: fs). r < p \<and> r < length (fs_data w f)"])
    show "case (r, p, 0, w) of (r, p, written, w) \<Rightarrow> r < p \<and> r < length (fs_data w f)" using assms by simp
    fix t :: "nat \<times> nat \<times> nat \<times> fs"
    assume "case t of (r, p, written, w) \<Rightarrow> r < p \<and> r < length (fs_data w f)"
    then show "?b t \<and> (\<exists>u. ?c t = Ok u \<and> (case u of (r, p, written, w) \<Rightarrow> r < p \<and> r < length (fs_data w f)))"
      by (cases t) (auto simp: Let_def length_write_bytes COPY_BUFFER_def)
  qed
  then show ?thesis by (simp add: fs_copy_def)
qed


section \<open>Positioned reads and writes, maps, temporary files\<close>

text \<open>
  \<open>io_read_exact_at io p n data\<close> fills a buffer of \<open>n\<close> bytes from the file contents
  \<open>data\<close> at \<open>p\<close>; \<open>io_write_all_at io p bs data\<close> is the new contents of the file.
  \<open>io_map_mut io p n data\<close> says whether \<open>n\<close> bytes at offset \<open>p\<close> can be mapped; a
  mapping shares its bytes with the file: \<open>io_map_read\<close> is the slice it gives and
  \<open>io_map_write io m q bs data\<close> the file after \<open>bs\<close> is copied into the slice at \<open>q\<close>.
\<close>

record mapping =
  mm_file :: fs_file
  mm_offset :: nat
  mm_len :: nat

record file_io =
  io_read_exact_at :: "nat \<Rightarrow> nat \<Rightarrow> byte list \<Rightarrow> byte list outcome"
  io_write_all_at :: "nat \<Rightarrow> byte list \<Rightarrow> byte list \<Rightarrow> byte list outcome"
  io_map_mut :: "nat \<Rightarrow> nat \<Rightarrow> byte list \<Rightarrow> unit outcome"
  io_map_read :: "mapping \<Rightarrow> byte list \<Rightarrow> byte list"
  io_map_write :: "mapping \<Rightarrow> nat \<Rightarrow> byte list \<Rightarrow> byte list \<Rightarrow> byte list"
  io_tempfile :: "fs \<Rightarrow> (fs_file \<times> fs) outcome"
  io_named_tempfile :: "fs \<Rightarrow> (path_buf \<times> fs_file \<times> fs) outcome"

locale file_io_contract =
  fixes io :: file_io
  assumes read_exact_at_Ok: "p + n \<le> length data \<Longrightarrow> io_read_exact_at io p n data = Ok (take n (drop p data))"
    and read_exact_at_eof: "0 < n \<Longrightarrow> length data < p + n \<Longrightarrow> io_read_exact_at io p n data = Err UnexpectedEof"
    and write_all_at_Ok: "p + length bs \<le> length data \<Longrightarrow> io_write_all_at io p bs data = Ok (overwrite p bs data)"
    and map_mut_Ok: "0 < n \<Longrightarrow> io_map_mut io p n data = Ok ()"
    and map_read_Ok:
      "mm_offset m + mm_len m \<le> length data \<Longrightarrow> io_map_read io m data = take (mm_len m) (drop (mm_offset m) data)"
    and map_write_Ok:
      "q + length bs \<le> mm_len m \<Longrightarrow> mm_offset m + q + length bs \<le> length data \<Longrightarrow>
         io_map_write io m q bs data = overwrite (mm_offset m + q) bs data"
    and tempfile_Ok: "io_tempfile io w = Ok (fs_alloc w)"
    and named_tempfile_Ok:
      "\<exists>path. fs_names w path = None \<and>
         io_named_tempfile io w = Ok (path, fst (fs_alloc w), fs_link path (fst (fs_alloc w)) (snd (fs_alloc w)))"

text \<open>An implementation of the contract on the model's files.\<close>

definition unused_path :: "fs \<Rightarrow> path_buf" where
  "unused_path w = replicate (Suc (sum_list (map (length \<circ> fst) (fs_dir w)))) CHR ''t''"

definition model_io :: file_io where
  "model_io =
     \<lparr>io_read_exact_at = (\<lambda>p n data. if n = 0 \<or> p + n \<le> length data then Ok (take n (drop p data)) else Err UnexpectedEof),
      io_write_all_at = (\<lambda>p bs data. Ok (write_bytes p bs data)),
      io_map_mut = (\<lambda>p n data. if n = 0 then Err InvalidInput else Ok ()),
      io_map_read = (\<lambda>m data. take (mm_len m) (drop (mm_offset m) data)),
      io_map_write = (\<lambda>m q bs data. overwrite (mm_offset m + q) bs data),
      io_tempfile = (\<lambda>w. Ok (fs_alloc w)),
      io_named_tempfile = (\<lambda>w. let path = unused_path w; (f, w') = fs_alloc w in Ok (path, f, fs_link path f w'))\<rparr>"

lemma fs_names_remove: "fs_names (w\<lparr>fs_dir := filter (\<lambda>(p, f). p \<noteq> path) (fs_dir w)\<rparr>) = (fs_names w)(path := None)"
proof -
  have "map_of (filter (\<lambda>(p, f). p \<noteq> path) xs) = (map_of xs)(path := None)" for xs :: "(path_buf \<times> fs_file) list"
    by (induction xs) auto
  then show ?thesis by (simp add: fs_names_def)
qed

lemma unused_path_free: "fs_names w (unused_path w) = None"
proof -
  have "length (fst e) \<le> sum_list (map (length \<circ> fst) (fs_dir w))" if "e \<in> set (fs_dir w)" for e
    using that by (intro member_le_sum_list) auto
  then have "unused_path w \<notin> fst ` set (fs_dir w)"
    by (fastforce simp: unused_path_def)
  then show ?thesis by (simp add: fs_names_def map_of_eq_None_iff)
qed

interpretation model_io: file_io_contract model_io
proof
  fix w
  show "\<exists>path. fs_names w path = None \<and>
      io_named_tempfile model_io w = Ok (path, fst (fs_alloc w), fs_link path (fst (fs_alloc w)) (snd (fs_alloc w)))"
    using unused_path_free [of w] by (intro exI [of _ "unused_path w"]) (simp add: model_io_def Let_def split_beta)
qed (auto simp: model_io_def write_bytes_inside)

end
