(* ===== verification/Mapped_Layer.thy ===== *)
theory Mapped_Layer
  imports File_System Store_Contract
begin

text \<open>
  \<open>process_layer\<close> of \<open>src/store/disk.rs\<close> and \<open>src/store/level_cache.rs\<close>: the next row is
  written through a mapping of the file, piece by piece, while the row below is read through
  the store. The two differ in the read they use (\<open>read_range\<close> and \<open>read_range_internal\<close>), which
  is an argument here. The pieces run in the order of their indices; \<open>zip\<close> pairs them with the
  pieces of the mapping that \<open>par_chunks_mut\<close> gives.
\<close>

definition mapped_write ::
  "file_io \<Rightarrow> mapping \<Rightarrow> nat \<Rightarrow> nat \<Rightarrow> byte list \<Rightarrow> fs \<Rightarrow> fs outcome" where
  "mapped_write io m write_chunk_width pos bytes w =
     panic_unless (length bytes \<le> min write_chunk_width (mm_len m - pos)) IndexOutOfBounds (
     Ok (fs_put (mm_file m) (io_map_write io m pos bytes (fs_data w (mm_file m))) w))"

definition mapped_process_layer ::
  "file_io \<Rightarrow> 'e element \<Rightarrow> (fs, 's, 'e, 'z) store_ops_scheme \<Rightarrow> fs_file \<Rightarrow> ('a, 'e) algorithm \<Rightarrow> nat \<Rightarrow>
     nat \<Rightarrow> nat \<Rightarrow> nat \<Rightarrow> nat \<Rightarrow> 's \<Rightarrow> fs \<Rightarrow> fs outcome" where
  "mapped_process_layer io el S f A branches width level read_start write_start s w =
     and_then (usize_mul write_start (el_byte_len el)) (\<lambda>offset.
     and_then (usize_mul width (el_byte_len el)) (\<lambda>len.
     and_then (io_map_mut io offset len (fs_data w f)) (\<lambda>_.
     let m = \<lparr>mm_file = f, mm_offset = offset, mm_len = len\<rparr>; shift = log2_pow2 branches in
     and_then (usize_shr BUILD_CHUNK_NODES shift) (\<lambda>n.
     and_then (usize_mul n (el_byte_len el)) (\<lambda>write_chunk_width.
     and_then (usize_rem BUILD_CHUNK_NODES branches) (\<lambda>r.
     ensure (r = 0) InvalidChunkSize (
     and_then (usize_add read_start width) (\<lambda>read_end.
     panic_unless (write_chunk_width \<noteq> 0) AssertFailed (
     for_each
       (\<lambda>(chunk_index, pos) w.
         and_then (layer_read_chunk el S A branches width level read_start chunk_index s w) (\<lambda>bytes.
         mapped_write io m write_chunk_width pos bytes w))
       (zip (step_range read_start read_end BUILD_CHUNK_NODES) (step_range 0 len write_chunk_width)) w)))))))))"


section \<open>What it leaves in the file\<close>

text \<open>
  The read must give the row from any file that still has its first \<open>write_start\<close> elements.
\<close>

definition reads_row ::
  "'e element \<Rightarrow> (fs, 's, 'e, 'z) store_ops_scheme \<Rightarrow> fs_file \<Rightarrow> nat \<Rightarrow> nat \<Rightarrow> 'e list \<Rightarrow> 's \<Rightarrow> fs \<Rightarrow> bool" where
  "reads_row el S f read_start write_start row s w \<longleftrightarrow>
     (\<forall>p c data. 0 < c \<longrightarrow> p + c \<le> length row \<longrightarrow> length data = length (fs_data w f) \<longrightarrow>
        take (write_start * el_byte_len el) data = take (write_start * el_byte_len el) (fs_data w f) \<longrightarrow>
        st_read_range S (read_start + p) (read_start + p + c) s (fs_put f data w) = Ok (take c (drop p row)))"

lemma chunk_bytes_word: "n \<le> BUILD_CHUNK_NODES \<Longrightarrow> bl \<le> 1048576 \<Longrightarrow> n * bl < usize_limit"
proof -
  assume "n \<le> BUILD_CHUNK_NODES" "bl \<le> 1048576"
  then have "n * bl \<le> BUILD_CHUNK_NODES * 1048576" by (intro mult_le_mono)
  then show ?thesis by (simp add: BUILD_CHUNK_NODES_def)
qed

locale mapped_layer = file_io_contract io + element_contract el
  for io :: file_io and el :: "'e element"
begin

lemma mapped_layer_Ok:
  fixes S :: "(fs, 's, 'e, 'z) store_ops_scheme" and A :: "('a, 'e) algorithm"
  assumes m: "m \<le> 12" and row: "length row = q * 2 ^ m" "row \<noteq> []"
    and reads: "reads_row el S f rs ws row s w"
    and fits: "(ws + q) * el_byte_len el \<le> length (fs_data w f)"
    and word: "ws * el_byte_len el < usize_limit" "length row * el_byte_len el < usize_limit" "rs + length row < usize_limit"
  shows "mapped_process_layer io el S f A (2 ^ m) (length row) level rs ws s w =
    Ok (fs_put f (overwrite (ws * el_byte_len el)
      (concat (map (el_as_ref el) (next_row (node_hash A level) (2 ^ m) row))) (fs_data w f)) w)"
proof -
  let ?b = "2 ^ m :: nat" and ?bl = "el_byte_len el" and ?h = "node_hash A level" and ?D = "fs_data w f"
  let ?enc = "\<lambda>es. concat (map (el_as_ref el) es)"
  let ?n = "BUILD_CHUNK_NODES div ?b" and ?len = "length row * ?bl"
  let ?m = "\<lparr>mm_file = f, mm_offset = ws * ?bl, mm_len = ?len\<rparr>"
  have mod: "BUILD_CHUNK_NODES mod ?b = 0" by (rule chunk_nodes_mod [OF m])
  then have nb: "?n * ?b = BUILD_CHUNK_NODES" by (simp add: dvd_eq_mod_eq_0 [symmetric])
  have n0: "0 < ?n"
  proof (rule ccontr)
    assume "\<not> 0 < ?n"
    then have "?n * ?b = 0" by simp
    then show False unfolding nb by (simp add: BUILD_CHUNK_NODES_def)
  qed
  have bl: "0 < ?bl" by (rule byte_len_pos)
  have "0 < length row" using row(2) by simp
  then have len0: "0 < ?len" using bl by (rule mult_pos_pos)
  let ?idx = "step_range rs (rs + length row) BUILD_CHUNK_NODES" and ?pos = "step_range 0 ?len (?n * ?bl)"
  have B0: "0 < BUILD_CHUNK_NODES" by (simp add: BUILD_CHUNK_NODES_def)
  have idx: "j < length ?idx \<longleftrightarrow> j * BUILD_CHUNK_NODES < length row" for j
    using step_range_nth(1) [OF B0, of j rs "rs + length row"] by simp
  have nbl: "0 < ?n * ?bl" using n0 bl by (rule mult_pos_pos)
  have pos: "j < length ?pos" if "j < length ?idx" for j
  proof -
    have "j * (?n * ?bl) \<le> j * BUILD_CHUNK_NODES * ?bl" using div_le_dividend [of BUILD_CHUNK_NODES ?b] by simp
    also have "\<dots> < ?len" using that idx bl by simp
    finally show ?thesis using step_range_nth(1) [OF nbl, of j 0 ?len] by simp
  qed
  then have "length ?idx \<le> length ?pos" by (metis not_le nless_le)
  then have lens: "length (zip ?idx ?pos) = length ?idx" by simp
  let ?P = "\<lambda>j. min (j * BUILD_CHUNK_NODES) (length row)"
  let ?g = "\<lambda>j. fs_put f (overwrite (ws * ?bl) (?enc (next_row ?h ?b (take (?P j) row))) ?D) w"
  let ?body = "\<lambda>(chunk_index, pos) w.
    and_then (layer_read_chunk el S A ?b (length row) level rs chunk_index s w) (\<lambda>bytes.
    mapped_write io ?m (?n * ?bl) pos bytes w)"
  have "for_each ?body (zip ?idx ?pos) (?g 0) = Ok (?g (length (zip ?idx ?pos)))"
  proof (rule for_each_sequence)
    fix j
    assume "j < length (zip ?idx ?pos)"
    then have j: "j < length ?idx" using lens by simp
    define p where "p = j * BUILD_CHUNK_NODES"
    let ?r = "j * ?n"
    have p: "p < length row" "p = ?r * ?b" using j idx nb by (simp_all add: p_def)
    let ?c = "min BUILD_CHUNK_NODES (length row - p)"
    let ?new = "next_row ?h ?b (take ?c (drop p row))"
    have b0: "0 < ?b" by simp
    note whole = layer_chunk_whole [OF row(1) b0 mod p(2,1)]
    have cb: "?c div ?b * ?b = ?c" using whole(1,3) by simp
    have len_p: "length (take p row) = ?r * ?b" using p by (simp only: length_take min_absorb2 less_imp_le)
    then have len_old: "length (next_row ?h ?b (take p row)) = ?r" by (intro length_next_row) simp_all
    have len_new: "length ?new = ?c div ?b" using whole(1) by (intro length_next_row) simp_all
    have c: "?c div ?b \<le> ?n" by (intro div_le_mono) simp
    have "(?r + ?c div ?b) * ?b = p + ?c" unfolding distrib_right cb p(2) [symmetric] ..
    then have "(?r + ?c div ?b) * ?b \<le> q * ?b" using whole(3) row(1) by simp
    then have rq: "?r + ?c div ?b \<le> q" by simp
    let ?data = "overwrite (ws * ?bl) (?enc (next_row ?h ?b (take p row))) ?D"
    have rbl: "ws * ?bl + ?r * ?bl + ?c div ?b * ?bl \<le> length ?D"
    proof -
      have "(ws + (?r + ?c div ?b)) * ?bl \<le> (ws + q) * ?bl" using rq by (intro mult_le_mono1) simp
      then show ?thesis using fits by (simp add: distrib_right)
    qed
    have gj: "?g j = fs_put f ?data w" using p(1) by (simp add: p_def)
    have len_data: "length ?data = length ?D"
      using rbl len_old by (simp add: length_overwrite length_concat_as_ref)
    have "st_read_range S (rs + p) (rs + p + ?c) s (fs_put f ?data w) = Ok (take ?c (drop p row))"
      using reads whole len_data rbl unfolding reads_row_def by (simp add: overwrite_def)
    then have rd: "layer_read_chunk el S A ?b (length row) level rs (rs + p) s (fs_put f ?data w) = Ok (?enc ?new)"
      by (rule layer_chunk_bytes [OF row(1) b0 mod p(2,1)])
    have r_eq: "?r * ?bl = length (?enc (next_row ?h ?b (take p row)))"
      using len_old by (simp add: length_concat_as_ref)
    have qlen: "q \<le> length row" using row(1) by simp
    have "(?r + ?c div ?b) * ?bl \<le> ?len" using rq qlen by (intro mult_le_mono1) simp
    then have in_map: "?r * ?bl + ?c div ?b * ?bl \<le> ?len" by (simp add: distrib_right)
    then have "?c div ?b * ?bl \<le> ?len - ?r * ?bl" by linarith
    moreover
    have "?c div ?b * ?bl \<le> ?n * ?bl" using c by (rule mult_le_mono1)
    ultimately have "mapped_write io ?m (?n * ?bl) (?r * ?bl) (?enc ?new) (fs_put f ?data w) =
        Ok (fs_put f (overwrite (ws * ?bl + ?r * ?bl) (?enc ?new) ?data) w)"
      using in_map rbl len_data len_new map_write_Ok [of "?r * ?bl" "?enc ?new" ?m ?data]
      by (simp add: mapped_write_def length_concat_as_ref)
    moreover have "overwrite (ws * ?bl + ?r * ?bl) (?enc ?new) ?data =
        overwrite (ws * ?bl) (?enc (next_row ?h ?b (take p row) @ ?new)) ?D"
      unfolding r_eq using rbl by (subst overwrite_adjacent) simp_all
    moreover have "next_row ?h ?b (take p row) @ ?new = next_row ?h ?b (take (?P (Suc j)) row)"
    proof -
      have "?P (Suc j) = p + ?c" using p(1) unfolding p_def mult_Suc by linarith
      then have "take (?P (Suc j)) row = take p row @ take ?c (drop p row)" by (simp only: take_add)
      then show ?thesis
        using chunks_append_mult [OF b0 len_p, of "take ?c (drop p row)"] by (simp add: next_row_def)
    qed
    ultimately have "?body (rs + p, ?r * ?bl) (?g j) = Ok (?g (Suc j))"
      using rd gj by simp
    moreover have "zip ?idx ?pos ! j = (rs + p, ?r * ?bl)"
      using j pos [OF j] idx step_range_nth(1) [OF nbl, of j 0 ?len]
        step_range_nth(2) [OF B0, where j = j and a = rs and b = "rs + length row"]
        step_range_nth(2) [OF nbl, where j = j and a = 0 and b = ?len]
      by (simp add: mult.assoc p_def)
    ultimately show "?body (zip ?idx ?pos ! j) (?g j) = Ok (?g (Suc j))" by simp
  qed
  moreover have "?P (length (zip ?idx ?pos)) = length row"
    using idx [of "length ?idx"] lens by simp
  moreover have "?g 0 = w"
  proof -
    have "ws * ?bl \<le> length ?D" using fits by (simp add: distrib_right)
    then show ?thesis by (simp add: next_row_def)
  qed
  ultimately have loop: "for_each ?body (zip ?idx ?pos) w = Ok (fs_put f (overwrite (ws * ?bl) (?enc (next_row ?h ?b row)) ?D) w)"
    by simp
  have "?n \<le> BUILD_CHUNK_NODES" by (rule div_le_dividend)
  then have wcw: "usize_mul ?n ?bl = Ok (?n * ?bl)"
    using byte_len_small by (intro usize_mul_Ok chunk_bytes_word)
  show ?thesis
    using loop wcw nbl mod m word len0 map_mut_Ok [of ?len "ws * ?bl" ?D]
    by (simp add: mapped_process_layer_def Let_def)
qed

end

end
