(* ===== verification/Disk_Store.thy ===== *)
theory Disk_Store
  imports Mapped_Layer
begin

text \<open>
  \<open>DiskStore\<close> of \<open>src/store/disk.rs\<close>: elements in a file. The world is the file system; the
  record keeps the handle of the file and what the code caches of its size.
\<close>

record disk_store =
  ds_len :: nat
  ds_elem_len :: nat
  ds_file :: fs_file
  ds_loaded_from_disk :: bool
  ds_store_size :: nat

section \<open>Access to the file\<close>

definition ds_store_read_range :: "file_io \<Rightarrow> nat \<Rightarrow> nat \<Rightarrow> disk_store \<Rightarrow> fs \<Rightarrow> byte list outcome" where
  "ds_store_read_range io start end' s w =
     and_then (usize_sub end' start) (\<lambda>read_len.
     and_then (map_err FailedToRead (io_read_exact_at io start read_len (fs_data w (ds_file s)))) (\<lambda>read_data.
     ensure (length read_data = read_len) (FailedToRead OutOfRange) (Ok read_data)))"

text \<open>The buffer decides how much \<open>store_read_into\<close> reads; \<open>end - start\<close> is computed for the message only.\<close>

definition ds_store_read_into ::
  "file_io \<Rightarrow> nat \<Rightarrow> nat \<Rightarrow> byte list \<Rightarrow> disk_store \<Rightarrow> fs \<Rightarrow> byte list outcome" where
  "ds_store_read_into io start end' buf s w =
     map_err FailedToRead (io_read_exact_at io start (length buf) (fs_data w (ds_file s)))"

definition ds_store_copy_from_slice ::
  "file_io \<Rightarrow> nat \<Rightarrow> byte list \<Rightarrow> disk_store \<Rightarrow> fs \<Rightarrow> (disk_store \<times> fs) outcome" where
  "ds_store_copy_from_slice io start bytes s w =
     and_then (usize_add start (length bytes)) (\<lambda>end'.
     ensure (end' \<le> ds_store_size s) SliceTooLarge (
     and_then (io_write_all_at io start bytes (fs_data w (ds_file s))) (\<lambda>data.
     Ok (s, fs_put (ds_file s) data w))))"

definition ds_set_len :: "nat \<Rightarrow> disk_store \<Rightarrow> disk_store" where
  "ds_set_len n s = s\<lparr>ds_len := n\<rparr>"

definition ds_is_consistent :: "'e element \<Rightarrow> nat \<Rightarrow> nat \<Rightarrow> store_config \<Rightarrow> fs \<Rightarrow> bool outcome" where
  "ds_is_consistent el store_range branches config w =
     and_then (fs_open (data_path (sc_path config) (sc_id config)) w) (\<lambda>f.
     and_then (usize_mul store_range (el_byte_len el)) (\<lambda>bytes.
     Ok (fs_metadata_len f w = bytes)))"


section \<open>Constructors\<close>

definition ds_new_from_disk ::
  "'e element \<Rightarrow> nat \<Rightarrow> nat \<Rightarrow> store_config \<Rightarrow> fs \<Rightarrow> (disk_store \<times> fs) outcome" where
  "ds_new_from_disk el n branches config w =
     and_then (fs_open (data_path (sc_path config) (sc_id config)) w) (\<lambda>f.
     let store_size = fs_metadata_len f w in
     and_then (usize_mul n (el_byte_len el)) (\<lambda>bytes.
     ensure (store_size = bytes) InvalidFormattedFile (
     Ok (\<lparr>ds_len = n, ds_elem_len = el_byte_len el, ds_file = f, ds_loaded_from_disk = True,
          ds_store_size = store_size\<rparr>, w))))"

definition ds_new_with_config ::
  "'e element \<Rightarrow> nat \<Rightarrow> nat \<Rightarrow> store_config \<Rightarrow> fs \<Rightarrow> (disk_store \<times> fs) outcome" where
  "ds_new_with_config el n branches config w =
     (let path = data_path (sc_path config) (sc_id config) in
      if fs_exists path w then ds_new_from_disk el n branches config w
      else
        and_then (fs_create_new path w) (\<lambda>(f, w).
        and_then (usize_mul (el_byte_len el) n) (\<lambda>store_size.
        and_then (fs_set_len f store_size w) (\<lambda>w.
        Ok (\<lparr>ds_len = 0, ds_elem_len = el_byte_len el, ds_file = f, ds_loaded_from_disk = False,
             ds_store_size = store_size\<rparr>, w)))))"

definition ds_new :: "file_io \<Rightarrow> 'e element \<Rightarrow> nat \<Rightarrow> fs \<Rightarrow> (disk_store \<times> fs) outcome" where
  "ds_new io el n w =
     and_then (usize_mul (el_byte_len el) n) (\<lambda>store_size.
     and_then (io_tempfile io w) (\<lambda>(f, w).
     and_then (fs_set_len f store_size w) (\<lambda>w.
     Ok (\<lparr>ds_len = 0, ds_elem_len = el_byte_len el, ds_file = f, ds_loaded_from_disk = False,
          ds_store_size = store_size\<rparr>, w))))"

definition ds_new_from_slice_with_config ::
  "file_io \<Rightarrow> 'e element \<Rightarrow> nat \<Rightarrow> nat \<Rightarrow> byte list \<Rightarrow> store_config \<Rightarrow> fs \<Rightarrow> (disk_store \<times> fs) outcome" where
  "ds_new_from_slice_with_config io el n branches data config w =
     and_then (usize_rem (length data) (el_byte_len el)) (\<lambda>r.
     ensure (r = 0) NotMultipleOfElement (
     and_then (ds_new_with_config el n branches config w) (\<lambda>(s, w).
     if \<not> ds_loaded_from_disk s then
       and_then (ds_store_copy_from_slice io 0 data s w) (\<lambda>(s, w).
       and_then (usize_div (length data) (ds_elem_len s)) (\<lambda>len.
       Ok (s\<lparr>ds_len := len\<rparr>, w)))
     else Ok (s, w))))"

definition ds_new_from_slice ::
  "file_io \<Rightarrow> 'e element \<Rightarrow> nat \<Rightarrow> byte list \<Rightarrow> fs \<Rightarrow> (disk_store \<times> fs) outcome" where
  "ds_new_from_slice io el n data w =
     and_then (usize_rem (length data) (el_byte_len el)) (\<lambda>r.
     ensure (r = 0) NotMultipleOfElement (
     and_then (ds_new io el n w) (\<lambda>(s, w).
     and_then (ds_store_copy_from_slice io 0 data s w) (\<lambda>(s, w).
     and_then (usize_div (length data) (ds_elem_len s)) (\<lambda>len.
     Ok (s\<lparr>ds_len := len\<rparr>, w))))))"


section \<open>Writing and reading\<close>

definition ds_write_at ::
  "file_io \<Rightarrow> 'e element \<Rightarrow> 'e \<Rightarrow> nat \<Rightarrow> disk_store \<Rightarrow> fs \<Rightarrow> (disk_store \<times> fs) outcome" where
  "ds_write_at io el x index s w =
     and_then (usize_mul index (ds_elem_len s)) (\<lambda>start.
     and_then (ds_store_copy_from_slice io start (el_as_ref el x) s w) (\<lambda>(s, w).
     and_then (usize_add index 1) (\<lambda>n.
     Ok (s\<lparr>ds_len := max (ds_len s) n\<rparr>, w))))"

definition ds_copy_from_slice ::
  "file_io \<Rightarrow> byte list \<Rightarrow> nat \<Rightarrow> disk_store \<Rightarrow> fs \<Rightarrow> (disk_store \<times> fs) outcome" where
  "ds_copy_from_slice io buf start s w =
     and_then (usize_rem (length buf) (ds_elem_len s)) (\<lambda>r.
     ensure (r = 0) BufNotMultiple (
     and_then (usize_mul start (ds_elem_len s)) (\<lambda>pos.
     and_then (ds_store_copy_from_slice io pos buf s w) (\<lambda>(s, w).
     and_then (usize_add start (length buf div ds_elem_len s)) (\<lambda>n.
     Ok (s\<lparr>ds_len := max (ds_len s) n\<rparr>, w))))))"

text \<open>The bounds every read checks: \<open>start\<close>, \<open>end\<close> and the length, in bytes.\<close>

definition ds_check_range :: "nat \<Rightarrow> nat \<Rightarrow> disk_store \<Rightarrow> unit outcome" where
  "ds_check_range start end' s =
     and_then (usize_mul (ds_len s) (ds_elem_len s)) (\<lambda>len.
     ensure (start < len) OutOfRange (
     ensure (end' \<le> len) OutOfRange (Ok ())))"

definition ds_read_at :: "file_io \<Rightarrow> 'e element \<Rightarrow> nat \<Rightarrow> disk_store \<Rightarrow> fs \<Rightarrow> 'e outcome" where
  "ds_read_at io el index s w =
     and_then (usize_mul index (ds_elem_len s)) (\<lambda>start.
     and_then (usize_add start (ds_elem_len s)) (\<lambda>end'.
     and_then (ds_check_range start end' s) (\<lambda>_.
     and_then (ds_store_read_range io start end' s w) (\<lambda>bytes. el_from_slice el bytes))))"

definition ds_read_into :: "file_io \<Rightarrow> nat \<Rightarrow> byte list \<Rightarrow> disk_store \<Rightarrow> fs \<Rightarrow> byte list outcome" where
  "ds_read_into io index buf s w =
     and_then (usize_mul index (ds_elem_len s)) (\<lambda>start.
     and_then (usize_add start (ds_elem_len s)) (\<lambda>end'.
     and_then (ds_check_range start end' s) (\<lambda>_.
     ds_store_read_into io start end' buf s w)))"

definition ds_read_range_into ::
  "file_io \<Rightarrow> nat \<Rightarrow> nat \<Rightarrow> byte list \<Rightarrow> disk_store \<Rightarrow> fs \<Rightarrow> byte list outcome" where
  "ds_read_range_into io start end' buf s w =
     and_then (usize_mul start (ds_elem_len s)) (\<lambda>start.
     and_then (usize_mul end' (ds_elem_len s)) (\<lambda>end'.
     and_then (ds_check_range start end' s) (\<lambda>_.
     ds_store_read_into io start end' buf s w)))"

definition ds_read_range :: "file_io \<Rightarrow> 'e element \<Rightarrow> nat \<Rightarrow> nat \<Rightarrow> disk_store \<Rightarrow> fs \<Rightarrow> 'e list outcome" where
  "ds_read_range io el a b s w =
     and_then (usize_mul a (ds_elem_len s)) (\<lambda>start.
     and_then (usize_mul b (ds_elem_len s)) (\<lambda>end'.
     and_then (ds_check_range start end' s) (\<lambda>_.
     and_then (ds_store_read_range io start end' s w) (\<lambda>bytes.
     panic_unless (ds_elem_len s \<noteq> 0) AssertFailed (
     map_outcome (el_from_slice el) (chunks (ds_elem_len s) bytes))))))"

definition ds_is_empty :: "disk_store \<Rightarrow> bool" where
  "ds_is_empty s \<longleftrightarrow> ds_len s = 0"

definition ds_push :: "file_io \<Rightarrow> 'e element \<Rightarrow> 'e \<Rightarrow> disk_store \<Rightarrow> fs \<Rightarrow> (disk_store \<times> fs) outcome" where
  "ds_push io el x s w =
     and_then (usize_add (ds_len s) 1) (\<lambda>n.
     and_then (usize_mul n (ds_elem_len s)) (\<lambda>bytes.
     ensure (bytes \<le> ds_store_size s) NotEnoughSpace (
     ds_write_at io el x (ds_len s) s w)))"

definition ds_sync :: "disk_store \<Rightarrow> fs \<Rightarrow> unit outcome" where
  "ds_sync s w = map_err FailedToSync (fs_sync_all (ds_file s) w)"

definition ds_delete :: "store_config \<Rightarrow> fs \<Rightarrow> fs outcome" where
  "ds_delete config w =
     map_err FailedToDelete (fs_remove_file (data_path (sc_path config) (sc_id config)) w)"


section \<open>Compaction\<close>

text \<open>
  The cached rows are copied to the front of the file (behind the leaves in the data version 1),
  and the file is cut. The new length goes into \<open>len\<close>, while \<open>store_size\<close> keeps the old size.
\<close>

definition ds_compact ::
  "(nat \<Rightarrow> nat \<Rightarrow> nat) \<Rightarrow> nat \<Rightarrow> store_config \<Rightarrow> nat \<Rightarrow> disk_store \<Rightarrow> fs \<Rightarrow> (bool \<times> disk_store \<times> fs) outcome" where
  "ds_compact flog branches config store_version s w =
     and_then (get_merkle_tree_leafs (ds_len s) branches) (\<lambda>leafs.
     and_then (usize_mul leafs (ds_elem_len s)) (\<lambda>data_width.
     and_then (get_merkle_tree_cache_size flog leafs branches (sc_rows_to_discard config)) (\<lambda>n.
     and_then (usize_mul n (ds_elem_len s)) (\<lambda>cache_size.
     and_then (usize_mul (ds_len s) (ds_elem_len s)) (\<lambda>len.
     ensure (cache_size < len \<and> cache_size \<noteq> 0) CannotCompact (
     let v1 = (store_version = data_version_number One);
         start = (if v1 then data_width else 0) in
     and_then (usize_sub (ds_store_size s) cache_size) (\<lambda>cache_start.
     and_then (fs_open (data_path (sc_path config) (sc_id config)) w) (\<lambda>reader.
     and_then (fs_open (data_path (sc_path config) (sc_id config)) w) (\<lambda>f.
     let s = s\<lparr>ds_file := f\<rparr> in
     and_then (fs_copy reader cache_start f start w) (\<lambda>(written, w).
     ensure (written = cache_size) FailedToCopy (
     and_then (if v1 then usize_add data_width cache_size else Ok cache_size) (\<lambda>new_size.
     and_then (fs_set_len f new_size w) (\<lambda>w.
     and_then (usize_div new_size (ds_elem_len s)) (\<lambda>new_len.
     let s = s\<lparr>ds_len := new_len\<rparr> in
     and_then (ds_sync s w) (\<lambda>_.
     and_then (usize_mul (ds_len s) (ds_elem_len s)) (\<lambda>len.
     ensure (len = fs_metadata_len f w) InconsistentMetadata (
     Ok (True, s, w))))))))))))))))))"


section \<open>The store\<close>

definition ds_ops :: "file_io \<Rightarrow> (nat \<Rightarrow> nat \<Rightarrow> nat) \<Rightarrow> 'e element \<Rightarrow> (fs, disk_store, 'e) store_ops" where
  "ds_ops io flog el =
     \<lparr>st_new_with_config = ds_new_with_config el,
      st_new = ds_new io el,
      st_new_from_slice_with_config = ds_new_from_slice_with_config io el,
      st_new_from_slice = ds_new_from_slice io el,
      st_new_from_disk = ds_new_from_disk el,
      st_write_at = ds_write_at io el,
      st_copy_from_slice = ds_copy_from_slice io,
      st_compact = ds_compact flog,
      st_reinit = default_reinit,
      st_delete = ds_delete,
      st_read_at = ds_read_at io el,
      st_read_range = ds_read_range io el,
      st_read_into = ds_read_into io,
      st_read_range_into = ds_read_range_into io,
      st_len = ds_len,
      st_loaded_from_disk = ds_loaded_from_disk,
      st_is_empty = ds_is_empty,
      st_push = ds_push io el,
      st_sync = ds_sync\<rparr>"

definition ds_process_layer ::
  "file_io \<Rightarrow> (nat \<Rightarrow> nat \<Rightarrow> nat) \<Rightarrow> 'e element \<Rightarrow> ('a, 'e) algorithm \<Rightarrow> nat \<Rightarrow>
     nat \<Rightarrow> nat \<Rightarrow> nat \<Rightarrow> nat \<Rightarrow> disk_store \<Rightarrow> fs \<Rightarrow> (disk_store \<times> fs) outcome" where
  "ds_process_layer io flog el A branches width level read_start write_start s w =
     and_then (mapped_process_layer io el (ds_ops io flog el) (ds_file s) A branches width level read_start write_start s w)
       (\<lambda>w. Ok (s, w))"

definition ds_build ::
  "file_io \<Rightarrow> (nat \<Rightarrow> nat \<Rightarrow> nat) \<Rightarrow> 'e element \<Rightarrow> ('a, 'e) algorithm \<Rightarrow> nat \<Rightarrow>
     nat \<Rightarrow> nat \<Rightarrow> store_config option \<Rightarrow> disk_store \<Rightarrow> fs \<Rightarrow> ('e \<times> disk_store \<times> fs) outcome" where
  "ds_build io flog el A branches leafs row_count config s w =
     and_then (next_pow2 branches) (\<lambda>p.
     ensure (p = branches) BranchesNotPow2 (
     ensure (ds_len s = leafs) InconsistentData (
     ensure (leafs mod 2 = 0) LeafsNotEven (
     let shift = log2_pow2 branches in
     and_then
       (while_loop
         (\<lambda>(level, width, level_node_index, s, w). width > 1)
         (\<lambda>(level, width, level_node_index, s, w).
           and_then
             (if level = 0 then Ok (0, ds_len s)
              else and_then (usize_add level_node_index width) (\<lambda>next. Ok (level_node_index, next)))
             (\<lambda>(read_start, write_start).
           and_then (ds_process_layer io flog el A branches width level read_start write_start s w) (\<lambda>(s, w).
           and_then (usize_add level_node_index width) (\<lambda>level_node_index.
           and_then (usize_shr width shift) (\<lambda>width.
           and_then (usize_add (ds_len s) width) (\<lambda>len.
           Ok (level + 1, width, level_node_index, ds_set_len len s, w)))))))
         (0, leafs, 0, s, w))
       (\<lambda>(level, width, level_node_index, s, w).
     and_then (get_merkle_tree_len leafs branches) (\<lambda>len.
     ensure (ds_len s = len) WrongTreeLength (
     ensure (row_count = level + 1) InvalidRowCount (
     and_then (st_last (ds_ops io flog el) s w) (\<lambda>root. Ok (root, s, w))))))))))"

definition disk_store :: "file_io \<Rightarrow> (nat \<Rightarrow> nat \<Rightarrow> nat) \<Rightarrow> 'e element \<Rightarrow> (fs, disk_store, 'e, 'a) store" where
  "disk_store io flog el =
     store_ops.extend (ds_ops io flog el) (store.fields (ds_process_layer io flog el) (ds_build io flog el))"

lemma disk_store_ops [simp]:
  "st_len (disk_store io flog el) = ds_len"
  "st_new (disk_store io flog el) = ds_new io el"
  "st_new_with_config (disk_store io flog el) = ds_new_with_config el"
  "st_new_from_slice (disk_store io flog el) = ds_new_from_slice io el"
  "st_new_from_slice_with_config (disk_store io flog el) = ds_new_from_slice_with_config io el"
  "st_new_from_disk (disk_store io flog el) = ds_new_from_disk el"
  "st_write_at (disk_store io flog el) = ds_write_at io el"
  "st_copy_from_slice (disk_store io flog el) = ds_copy_from_slice io"
  "st_compact (disk_store io flog el) = ds_compact flog"
  "st_reinit (disk_store io flog el) = default_reinit"
  "st_delete (disk_store io flog el) = ds_delete"
  "st_read_at (disk_store io flog el) = ds_read_at io el"
  "st_read_range (disk_store io flog el) = ds_read_range io el"
  "st_read_into (disk_store io flog el) = ds_read_into io"
  "st_read_range_into (disk_store io flog el) = ds_read_range_into io"
  "st_loaded_from_disk (disk_store io flog el) = ds_loaded_from_disk"
  "st_is_empty (disk_store io flog el) = ds_is_empty"
  "st_push (disk_store io flog el) = ds_push io el"
  "st_sync (disk_store io flog el) = ds_sync"
  "st_build (disk_store io flog el) = ds_build io flog el"
  "st_process_layer (disk_store io flog el) = ds_process_layer io flog el"
  by (simp_all add: disk_store_def ds_ops_def store_ops.defs store.defs)

end
