(* ===== verification/Disk_Store_Correct.thy ===== *)
theory Disk_Store_Correct
  imports Disk_Store
begin

text \<open>
  \<open>DiskStore\<close> keeps the contract of a store, and its own \<open>build\<close> leaves the rows of the tree
  in the file: it is a \<open>tree_store\<close>, like \<open>VecStore\<close>.
\<close>

section \<open>The contract\<close>

definition ds_inv :: "'e element \<Rightarrow> disk_store \<Rightarrow> fs \<Rightarrow> bool" where
  "ds_inv el s w \<longleftrightarrow>
     ds_elem_len s = el_byte_len el \<and> ds_store_size s = length (fs_data w (ds_file s)) \<and>
     ds_store_size s < isize_limit \<and> ds_len s \<le> ds_store_size s div el_byte_len el"

definition ds_elems :: "'e element \<Rightarrow> disk_store \<Rightarrow> fs \<Rightarrow> 'e list" where
  "ds_elems el s w = take (ds_len s) (decode_elements el (fs_data w (ds_file s)))"

definition ds_capacity :: "'e element \<Rightarrow> disk_store \<Rightarrow> fs \<Rightarrow> nat" where
  "ds_capacity el s w = ds_store_size s div el_byte_len el"

definition ds_fresh :: "store_config \<Rightarrow> fs \<Rightarrow> bool" where
  "ds_fresh config w \<longleftrightarrow>
     \<not> fs_exists (data_path (sc_path config) (sc_id config)) w \<and>
     fs_creatable w (data_path (sc_path config) (sc_id config))"

lemma written_take:
  assumes "i + length es \<le> length xs" and "n \<le> length xs"
  shows "written i es (take n xs) (take (max n (i + length es)) (overwrite i es xs))"
  using assms by (auto simp: written_def overwrite_def nth_append length_overwrite min_def)

context mapped_layer
begin

abbreviation encode :: "'e list \<Rightarrow> byte list" where
  "encode es \<equiv> concat (map (el_as_ref el) es)"

lemma ds_inv_facts:
  assumes "ds_inv el s w"
  shows "ds_elem_len s = el_byte_len el" "0 < ds_elem_len s" "ds_store_size s = length (fs_data w (ds_file s))"
    and "length (decode_elements el (fs_data w (ds_file s))) = ds_capacity el s w"
    and "ds_capacity el s w * el_byte_len el \<le> length (fs_data w (ds_file s))"
    and "ds_capacity el s w * el_byte_len el < usize_limit" "ds_len s \<le> ds_capacity el s w"
    and "n \<le> ds_capacity el s w \<Longrightarrow> n * el_byte_len el \<le> ds_capacity el s w * el_byte_len el"
    and "n \<le> ds_capacity el s w \<Longrightarrow> usize_mul n (el_byte_len el) = Ok (n * el_byte_len el)"
proof -
  show *: "ds_elem_len s = el_byte_len el" "0 < ds_elem_len s" "ds_store_size s = length (fs_data w (ds_file s))"
    "length (decode_elements el (fs_data w (ds_file s))) = ds_capacity el s w" "ds_len s \<le> ds_capacity el s w"
    using assms byte_len_pos by (auto simp: ds_inv_def ds_capacity_def length_decode)
  show cap: "ds_capacity el s w * el_byte_len el \<le> length (fs_data w (ds_file s))"
    using * by (simp add: ds_capacity_def)
  then show lim: "ds_capacity el s w * el_byte_len el < usize_limit"
    using assms by (simp add: ds_inv_def)
  show le: "n * el_byte_len el \<le> ds_capacity el s w * el_byte_len el" if "n \<le> ds_capacity el s w" for n
    using that by (rule mult_le_mono1)
  show "n \<le> ds_capacity el s w \<Longrightarrow> usize_mul n (el_byte_len el) = Ok (n * el_byte_len el)"
    using le [of n] lim by (intro usize_mul_Ok) linarith
qed

lemma ds_check_range_Ok:
  assumes "ds_inv el s w" and "a < b" and "b \<le> ds_len s"
  shows "ds_check_range (a * el_byte_len el) (b * el_byte_len el) s = Ok ()"
proof -
  note f = ds_inv_facts [OF assms(1)]
  have "b * el_byte_len el \<le> ds_len s * el_byte_len el" using assms(3) by (rule mult_le_mono1)
  moreover have "a * el_byte_len el < b * el_byte_len el" using assms(2) byte_len_pos by simp
  ultimately have "a * el_byte_len el < ds_len s * el_byte_len el" "b * el_byte_len el \<le> ds_len s * el_byte_len el"
    by linarith+
  then show ?thesis using f(9) [OF f(7)] f(1) by (simp add: ds_check_range_def)
qed

lemma ds_read_Ok:
  assumes "ds_inv el s w" and "a \<le> b" and "b \<le> ds_capacity el s w"
  shows "ds_store_read_range io (a * el_byte_len el) (b * el_byte_len el) s w =
    Ok (encode (take (b - a) (drop a (decode_elements el (fs_data w (ds_file s))))))"
proof -
  note f = ds_inv_facts [OF assms(1)]
  let ?bl = "el_byte_len el" and ?D = "fs_data w (ds_file s)"
  have le: "a * ?bl \<le> b * ?bl" using assms(2) by (rule mult_le_mono1)
  have "b * ?bl \<le> length ?D" using f(5) f(8) [OF assms(3)] by linarith
  then have "io_read_exact_at io (a * ?bl) (b * ?bl - a * ?bl) ?D = Ok (take (b * ?bl - a * ?bl) (drop (a * ?bl) ?D))"
    using le by (intro read_exact_at_Ok) simp
  moreover have "b * ?bl - a * ?bl = (b - a) * ?bl" by (simp add: diff_mult_distrib)
  moreover have "take ((b - a) * ?bl) (drop (a * ?bl) ?D) = encode (take (b - a) (drop a (decode_elements el ?D)))"
    using assms(2,3) f(4) by (intro buffer_range) simp
  moreover have "length (take (b - a) (drop a (decode_elements el ?D))) = b - a"
    using assms(2,3) f(4) by simp
  ultimately show ?thesis
    using le by (simp add: ds_store_read_range_def length_concat_as_ref)
qed

lemma ds_write_Ok:
  assumes "ds_inv el s w" and "i + length es \<le> ds_capacity el s w"
  defines "w' \<equiv> fs_put (ds_file s) (overwrite (i * el_byte_len el) (encode es) (fs_data w (ds_file s))) w"
    and "s' \<equiv> s\<lparr>ds_len := max (ds_len s) (i + length es)\<rparr>"
  shows "ds_store_copy_from_slice io (i * el_byte_len el) (encode es) s w = Ok (s, w')"
    and "ds_inv el s' w'" and "ds_capacity el s' w' = ds_capacity el s w"
    and "written i es (ds_elems el s w) (ds_elems el s' w')"
proof -
  note f = ds_inv_facts [OF assms(1)]
  let ?bl = "el_byte_len el" and ?D = "fs_data w (ds_file s)"
  have "(i + length es) * ?bl \<le> length ?D" using f(5) f(8) [OF assms(2)] by linarith
  then have le: "i * ?bl + length (encode es) \<le> length ?D" by (simp add: length_concat_as_ref distrib_right)
  moreover have "length ?D < usize_limit" using assms(1) by (simp add: ds_inv_def)
  ultimately have "usize_add (i * ?bl) (length (encode es)) = Ok (i * ?bl + length (encode es))"
    by (intro usize_add_Ok) linarith
  then show "ds_store_copy_from_slice io (i * ?bl) (encode es) s w = Ok (s, w')"
    using le f(3) write_all_at_Ok [OF le] by (simp add: ds_store_copy_from_slice_def w'_def)
  have len: "length (overwrite (i * ?bl) (encode es) ?D) = length ?D" using le by (simp add: length_overwrite)
  then show "ds_inv el s' w'" "ds_capacity el s' w' = ds_capacity el s w"
    using assms(1,2) by (auto simp: ds_inv_def ds_capacity_def w'_def s'_def)
  have "decode_elements el (overwrite (i * ?bl) (encode es) ?D) = overwrite i es (decode_elements el ?D)"
    using assms(2) f(4) by (intro buffer_overwrite) simp
  then show "written i es (ds_elems el s w) (ds_elems el s' w')"
    using written_take [of i es "decode_elements el ?D" "ds_len s"] assms(2) f(4,7)
    by (simp add: ds_elems_def w'_def s'_def)
qed

lemma ds_length_elems: "ds_inv el s w \<Longrightarrow> length (ds_elems el s w) = ds_len s"
  using ds_inv_facts(4,7) by (simp add: ds_elems_def)

lemma ds_read_range_Ok:
  assumes "ds_inv el s w" and "a < b" and "b \<le> ds_len s"
  shows "ds_read_range io el a b s w = Ok (take (b - a) (drop a (ds_elems el s w)))"
proof -
  note f = ds_inv_facts [OF assms(1)]
  let ?es = "take (b - a) (drop a (decode_elements el (fs_data w (ds_file s))))"
  have "ds_store_read_range io (a * el_byte_len el) (b * el_byte_len el) s w = Ok (encode ?es)"
    using assms f(7) by (intro ds_read_Ok) simp_all
  moreover have "map_outcome (el_from_slice el) (chunks (el_byte_len el) (encode ?es)) = Ok ?es"
    by (simp only: chunks_concat_as_ref map_from_slice_as_ref)
  moreover have "take (b - a) (drop a (ds_elems el s w)) = ?es"
    using assms(2,3) by (simp add: ds_elems_def drop_take min_def)
  moreover have "a \<le> ds_capacity el s w" "b \<le> ds_capacity el s w" using assms f(7) by simp_all
  ultimately show ?thesis
    using ds_check_range_Ok [OF assms] f(1) f(9) byte_len_pos by (simp add: ds_read_range_def)
qed

lemma ds_read_at_Ok:
  assumes "ds_inv el s w" and "i < ds_len s"
  shows "ds_read_at io el i s w = Ok (ds_elems el s w ! i)"
proof -
  note f = ds_inv_facts [OF assms(1)]
  let ?D = "decode_elements el (fs_data w (ds_file s))"
  have i: "i \<le> ds_capacity el s w" "Suc i \<le> ds_capacity el s w" using assms(2) f(7) by simp_all
  have "take 1 (drop i ?D) = [?D ! i]"
    using i f(4) by (simp add: take_Suc_conv_app_nth Cons_nth_drop_Suc [symmetric])
  then have "ds_store_read_range io (i * el_byte_len el) (Suc i * el_byte_len el) s w = Ok (el_as_ref el (?D ! i))"
    using ds_read_Ok [OF assms(1), of i "Suc i"] i by simp
  moreover have "usize_add (i * el_byte_len el) (el_byte_len el) = Ok (Suc i * el_byte_len el)"
    using f(6) f(8) [OF i(2)] by (subst usize_add_Ok) (simp_all add: add.commute)
  moreover have "ds_elems el s w ! i = ?D ! i" using assms(2) by (simp add: ds_elems_def)
  ultimately show ?thesis
    using ds_check_range_Ok [OF assms(1), of i "Suc i"] assms(2) f(1) f(9) [OF i(1)]
    by (simp add: ds_read_at_def from_slice_as_ref)
qed

lemma ds_read_at_outside:
  assumes "ds_inv el s w" and "ds_len s \<le> i"
  shows "\<not> is_ok (ds_read_at io el i s w)"
proof -
  note f = ds_inv_facts [OF assms(1)]
  have "ds_len s * el_byte_len el \<le> i * el_byte_len el" using assms(2) by (rule mult_le_mono1)
  then show ?thesis
    using f(1) f(9) [OF f(7)] by (auto simp: ds_read_at_def ds_check_range_def is_ok_iff elim!: and_then_OkE split: if_splits)
      (auto simp: usize_mul_def split: if_splits)
qed

lemma ds_read_range_into_Ok:
  assumes "ds_inv el s w" and "a < b" and "b \<le> ds_len s" and "length buf = (b - a) * el_byte_len el"
  shows "ds_read_range_into io a b buf s w = Ok (encode (take (b - a) (drop a (ds_elems el s w))))"
proof -
  note f = ds_inv_facts [OF assms(1)]
  let ?bl = "el_byte_len el" and ?D = "fs_data w (ds_file s)"
  have ab: "a \<le> ds_capacity el s w" "b \<le> ds_capacity el s w" using assms(2,3) f(7) by simp_all
  have "a * ?bl + (b - a) * ?bl = b * ?bl" using assms(2) by (simp flip: distrib_right)
  also have "\<dots> \<le> length ?D" using f(5) f(8) [OF ab(2)] by linarith
  finally have "io_read_exact_at io (a * ?bl) (length buf) ?D = Ok (take ((b - a) * ?bl) (drop (a * ?bl) ?D))"
    unfolding assms(4) by (rule read_exact_at_Ok)
  moreover have "take ((b - a) * ?bl) (drop (a * ?bl) ?D) = encode (take (b - a) (drop a (decode_elements el ?D)))"
    using assms(2) ab(2) f(4) by (intro buffer_range) simp
  moreover have "take (b - a) (drop a (ds_elems el s w)) = take (b - a) (drop a (decode_elements el ?D))"
    using assms(2,3) by (simp add: ds_elems_def drop_take min_def)
  ultimately show ?thesis
    using ds_check_range_Ok [OF assms(1-3)] f(1) f(9) [OF ab(1)] f(9) [OF ab(2)]
    by (simp add: ds_read_range_into_def ds_store_read_into_def)
qed

text \<open>A new store: zeros, as many as asked for, and no element.\<close>

lemma ds_empty:
  assumes "n * el_byte_len el < isize_limit"
    and "s = \<lparr>ds_len = 0, ds_elem_len = el_byte_len el, ds_file = f, ds_loaded_from_disk = False,
      ds_store_size = el_byte_len el * n\<rparr>"
    and "fs_data w f = []"
  shows "usize_mul (el_byte_len el) n = Ok (el_byte_len el * n)"
    and "\<exists>w'. fs_set_len f (el_byte_len el * n) w = Ok w' \<and> ds_inv el s w' \<and> ds_elems el s w' = [] \<and>
      ds_capacity el s w' = n"
  using assms byte_len_pos
  by (simp_all add: fs_set_len_def ds_inv_def ds_elems_def ds_capacity_def mult.commute [of n])

lemma ds_new_Ok:
  assumes "n * el_byte_len el < isize_limit"
  shows "\<exists>s w'. ds_new io el n w = Ok (s, w') \<and> ds_inv el s w' \<and> ds_elems el s w' = [] \<and> n \<le> ds_capacity el s w'"
  using ds_empty [OF assms refl, of "snd (fs_alloc w)" "fs_next w"] tempfile_Ok [of w]
  by (auto simp: ds_new_def split_beta cong del: and_then_weak_cong)

lemma ds_new_with_config_Ok:
  assumes "ds_fresh config w" and "n * el_byte_len el < isize_limit"
  shows "\<exists>s w'. ds_new_with_config el n branches config w = Ok (s, w') \<and> ds_inv el s w' \<and>
    ds_elems el s w' = [] \<and> n \<le> ds_capacity el s w' \<and> \<not> ds_loaded_from_disk s \<and>
    fs_names w' (data_path (sc_path config) (sc_id config)) = Some (ds_file s)"
proof -
  let ?w = "fs_link (data_path (sc_path config) (sc_id config)) (fs_next w) (snd (fs_alloc w))"
  let ?s = "\<lparr>ds_len = 0, ds_elem_len = el_byte_len el, ds_file = fs_next w, ds_loaded_from_disk = False,
      ds_store_size = el_byte_len el * n\<rparr>"
  have create: "fs_create_new (data_path (sc_path config) (sc_id config)) w = Ok (fs_next w, ?w)"
    using assms(1) by (simp add: fs_create_new_def ds_fresh_def split_beta)
  obtain w' where w': "fs_set_len (fs_next w) (el_byte_len el * n) ?w = Ok w'" "ds_inv el ?s w'" "ds_elems el ?s w' = []"
    "ds_capacity el ?s w' = n" and mul: "usize_mul (el_byte_len el) n = Ok (el_byte_len el * n)"
    using ds_empty [OF assms(2) refl, of ?w "fs_next w"] by auto
  moreover have "fs_names w' = fs_names ?w"
    using w'(1) by (auto simp: fs_set_len_def Let_def split: if_splits)
  ultimately show ?thesis
    using assms(1) create by (simp add: ds_new_with_config_def Let_def ds_fresh_def)
qed

lemma ds_populate_Ok:
  assumes "ds_inv el s w" and "ds_elems el s w = []" and "length es \<le> ds_capacity el s w"
  shows "\<exists>w'. ds_store_copy_from_slice io 0 (encode es) s w = Ok (s, w') \<and>
    ds_inv el (s\<lparr>ds_len := length es\<rparr>) w' \<and> ds_elems el (s\<lparr>ds_len := length es\<rparr>) w' = es \<and>
    ds_capacity el (s\<lparr>ds_len := length es\<rparr>) w' = ds_capacity el s w"
proof -
  have "ds_len s = 0" using ds_length_elems [OF assms(1)] assms(2) by simp
  then show ?thesis
    using ds_write_Ok [OF assms(1), of 0 es] assms(2,3) written_end [of "[]" es] by auto
qed

lemma ds_new_from_slice_Ok:
  assumes "n * el_byte_len el < isize_limit" and "length es \<le> n"
  shows "\<exists>s w'. ds_new_from_slice io el n (encode es) w = Ok (s, w') \<and> ds_inv el s w' \<and>
    ds_elems el s w' = es \<and> n \<le> ds_capacity el s w'"
proof -
  obtain s w1 where new: "ds_new io el n w = Ok (s, w1)" "ds_inv el s w1" "ds_elems el s w1 = []"
    "n \<le> ds_capacity el s w1"
    using ds_new_Ok [OF assms(1)] by blast
  obtain w2 where "ds_store_copy_from_slice io 0 (encode es) s w1 = Ok (s, w2)"
    "ds_inv el (s\<lparr>ds_len := length es\<rparr>) w2" "ds_elems el (s\<lparr>ds_len := length es\<rparr>) w2 = es"
    "ds_capacity el (s\<lparr>ds_len := length es\<rparr>) w2 = ds_capacity el s w1"
    using ds_populate_Ok [OF new(2,3), of es] assms(2) new(4) by auto
  then show ?thesis
    using new ds_inv_facts(1) [OF new(2)] byte_len_pos
    by (simp add: ds_new_from_slice_def length_concat_mod length_concat_div)
qed

lemma ds_new_from_slice_with_config_Ok:
  assumes "ds_fresh config w" and "n * el_byte_len el < isize_limit" and "length es \<le> n"
  shows "\<exists>s w'. ds_new_from_slice_with_config io el n branches (encode es) config w = Ok (s, w') \<and>
    ds_inv el s w' \<and> ds_elems el s w' = es \<and> n \<le> ds_capacity el s w'"
proof -
  obtain s w1 where new: "ds_new_with_config el n branches config w = Ok (s, w1)" "ds_inv el s w1"
    "ds_elems el s w1 = []" "n \<le> ds_capacity el s w1" "\<not> ds_loaded_from_disk s"
    using ds_new_with_config_Ok [OF assms(1,2)] by blast
  obtain w2 where "ds_store_copy_from_slice io 0 (encode es) s w1 = Ok (s, w2)"
    "ds_inv el (s\<lparr>ds_len := length es\<rparr>) w2" "ds_elems el (s\<lparr>ds_len := length es\<rparr>) w2 = es"
    "ds_capacity el (s\<lparr>ds_len := length es\<rparr>) w2 = ds_capacity el s w1"
    using ds_populate_Ok [OF new(2,3), of es] assms(3) new(4) by auto
  then show ?thesis
    using new ds_inv_facts(1) [OF new(2)] byte_len_pos
    by (simp add: ds_new_from_slice_with_config_def length_concat_mod length_concat_div)
qed

lemma ds_word:
  assumes "ds_inv el s w" and "i \<le> ds_capacity el s w"
  shows "i < isize_limit"
proof -
  have "ds_capacity el s w \<le> ds_store_size s" by (simp add: ds_capacity_def)
  then show ?thesis using assms by (simp add: ds_inv_def)
qed

lemma ds_store_contract:
  "store_contract el (ds_ops io flog el) (ds_inv el) (ds_elems el) (ds_capacity el) (\<lambda>w. True) ds_fresh"
proof
  fix s w i and x :: 'e and es :: "'e list"
  assume inv: "ds_inv el s w"
  note f = ds_inv_facts [OF inv]
  show "ds_capacity el s w * el_byte_len el < usize_limit" by (rule f(6))
  show "length (ds_elems el s w) \<le> ds_capacity el s w" using ds_length_elems [OF inv] f(7) by simp
  show "st_len (ds_ops io flog el) s = length (ds_elems el s w)"
    using ds_length_elems [OF inv] by (simp add: ds_ops_def)
  show "st_is_empty (ds_ops io flog el) s \<longleftrightarrow> ds_elems el s w = []"
    using ds_length_elems [OF inv] by (auto simp: ds_ops_def ds_is_empty_def)
  show "st_sync (ds_ops io flog el) s w = Ok ()"
    by (simp add: ds_ops_def ds_sync_def fs_sync_all_def)
  {
    assume i: "i < ds_capacity el s w"
    then have "ds_write_at io el x i s w = Ok (s\<lparr>ds_len := max (ds_len s) (i + 1)\<rparr>,
        fs_put (ds_file s) (overwrite (i * el_byte_len el) (encode [x]) (fs_data w (ds_file s))) w)"
      using ds_write_Ok(1) [OF inv, of i "[x]"] f(1) f(9) [of i] ds_word [OF inv, of "i + 1"]
      by (simp add: ds_write_at_def)
    then show "\<exists>s' w'. st_write_at (ds_ops io flog el) x i s w = Ok (s', w') \<and> ds_inv el s' w' \<and>
        ds_capacity el s' w' = ds_capacity el s w \<and> written i [x] (ds_elems el s w) (ds_elems el s' w')"
      using ds_write_Ok(2-4) [OF inv, of i "[x]"] i by (simp add: ds_ops_def)
  }
  {
    assume i: "i + length es \<le> ds_capacity el s w"
    then have "ds_copy_from_slice io (encode es) i s w = Ok (s\<lparr>ds_len := max (ds_len s) (i + length es)\<rparr>,
        fs_put (ds_file s) (overwrite (i * el_byte_len el) (encode es) (fs_data w (ds_file s))) w)"
      using ds_write_Ok(1) [OF inv i] f(1,2) f(9) [of i] ds_word [OF inv i]
      by (simp add: ds_copy_from_slice_def length_concat_mod length_concat_div)
    then show "\<exists>s' w'. st_copy_from_slice (ds_ops io flog el) (encode es) i s w = Ok (s', w') \<and> ds_inv el s' w' \<and>
        ds_capacity el s' w' = ds_capacity el s w \<and> written i es (ds_elems el s w) (ds_elems el s' w')"
      using ds_write_Ok(2-4) [OF inv i] by (simp add: ds_ops_def)
  }
next
  fix config w n branches
  assume "ds_fresh config w" and "n * el_byte_len el < isize_limit"
  from ds_new_with_config_Ok [OF this, of branches]
  show "\<exists>s w'. st_new_with_config (ds_ops io flog el) n branches config w = Ok (s, w') \<and> ds_inv el s w' \<and>
      ds_elems el s w' = [] \<and> n \<le> ds_capacity el s w' \<and> \<not> st_loaded_from_disk (ds_ops io flog el) s"
    by (auto simp: ds_ops_def)
qed (simp_all add: ds_ops_def ds_length_elems ds_read_at_Ok ds_read_at_outside ds_read_range_Ok ds_new_Ok
    ds_new_from_slice_Ok ds_new_from_slice_with_config_Ok del: Product_Type.split_paired_Ex)


section \<open>build\<close>

lemma decode_front:
  assumes "take (n * el_byte_len el) bs = take (n * el_byte_len el) bs'"
    and "n \<le> length (decode_elements el bs)" and "n \<le> length (decode_elements el bs')"
  shows "take n (decode_elements el bs) = take n (decode_elements el bs')"
  using buffer_range [of 0 n bs] buffer_range [of 0 n bs'] assms encode_inject by simp

lemma ds_front:
  assumes "ds_inv el s w" and "length data = length (fs_data w (ds_file s))"
    and "take (ds_len s * el_byte_len el) data = take (ds_len s * el_byte_len el) (fs_data w (ds_file s))"
  shows "ds_inv el s (fs_put (ds_file s) data w)"
    and "ds_elems el s (fs_put (ds_file s) data w) = ds_elems el s w"
proof -
  show "ds_inv el s (fs_put (ds_file s) data w)" using assms(1,2) by (auto simp: ds_inv_def)
  show "ds_elems el s (fs_put (ds_file s) data w) = ds_elems el s w"
    using decode_front [OF assms(3)] ds_inv_facts(4,7) [OF assms(1)] assms(2)
    by (simp add: ds_elems_def length_decode)
qed

text \<open>What \<open>mapped_layer_Ok\<close> asks of the store and its file.\<close>

lemma ds_layer_facts:
  assumes inv: "ds_inv el s w" and split: "ds_elems el s w = pre @ row"
    and fits: "length pre + length row + q \<le> ds_capacity el s w"
  shows "reads_row el (ds_ops io flog el) (ds_file s) (length pre) (length pre + length row) row s w"
    and "(length pre + length row + q) * el_byte_len el \<le> length (fs_data w (ds_file s))"
    and "(length pre + length row) * el_byte_len el < usize_limit" and "length row * el_byte_len el < usize_limit"
    and "length pre + length row < usize_limit"
proof -
  let ?ws = "length pre + length row" and ?bl = "el_byte_len el"
  note f = ds_inv_facts [OF inv]
  have len: "ds_len s = ?ws" using ds_length_elems [OF inv] split by simp
  show "reads_row el (ds_ops io flog el) (ds_file s) (length pre) ?ws row s w"
    unfolding reads_row_def
  proof (intro allI impI)
    fix p c data
    assume *: "0 < c" "p + c \<le> length row" "length data = length (fs_data w (ds_file s))"
      "take (?ws * ?bl) data = take (?ws * ?bl) (fs_data w (ds_file s))"
    note front = ds_front [OF inv *(3), unfolded len, OF *(4)]
    have "take c (drop (length pre + p) (ds_elems el s w)) = take c (drop p row)" using split by simp
    then show "st_read_range (ds_ops io flog el) (length pre + p) (length pre + p + c) s (fs_put (ds_file s) data w) =
        Ok (take c (drop p row))"
      using ds_read_range_Ok [OF front(1), of "length pre + p" "length pre + p + c"] *(1,2) len front(2)
      by (simp add: ds_ops_def)
  qed
  show "(?ws + q) * ?bl \<le> length (fs_data w (ds_file s))" using f(5) f(8) [OF fits] by linarith
  show "?ws * ?bl < usize_limit" "length row * ?bl < usize_limit"
    using f(6) f(8) [of ?ws] f(8) [of "length row"] fits by linarith+
  show "length pre + length row < usize_limit" using ds_word [OF inv, of ?ws] fits by simp
qed

lemma ds_process_layer_Ok:
  assumes inv: "ds_inv el s w" and split: "ds_elems el s w = pre @ row" and row: "length row = q * 2 ^ m" "row \<noteq> []"
    and m: "m \<le> 12" and fits: "length pre + length row + q \<le> ds_capacity el s w"
  shows "\<exists>w'. ds_process_layer io flog el A (2 ^ m) (length row) level (length pre) (length pre + length row) s w = Ok (s, w')
    \<and> ds_inv el (s\<lparr>ds_len := ds_len s + q\<rparr>) w' \<and> ds_capacity el (s\<lparr>ds_len := ds_len s + q\<rparr>) w' = ds_capacity el s w
    \<and> ds_elems el (s\<lparr>ds_len := ds_len s + q\<rparr>) w' = ds_elems el s w @ next_row (node_hash A level) (2 ^ m) row"
proof -
  let ?ws = "length pre + length row" and ?next = "next_row (node_hash A level) (2 ^ m) row" and ?bl = "el_byte_len el"
  have len: "ds_len s = ?ws" using ds_length_elems [OF inv] split by simp
  have next_len: "length ?next = q" using row by (intro length_next_row) simp_all
  from mapped_layer_Ok [OF m row ds_layer_facts [OF inv split fits], where A = A and level = level]
  have "ds_process_layer io flog el A (2 ^ m) (length row) level (length pre) ?ws s w =
      Ok (s, fs_put (ds_file s) (overwrite (?ws * ?bl) (encode ?next) (fs_data w (ds_file s))) w)"
    by (simp add: ds_process_layer_def)
  moreover have "?ws + length ?next \<le> ds_capacity el s w" using fits next_len by simp
  note stored = ds_write_Ok(2-4) [OF inv this]
  have "max (ds_len s) (?ws + length ?next) = ds_len s + q" "length (ds_elems el s w) = ?ws"
    using len next_len split by simp_all
  note stored = stored [unfolded this(1)] written_end [of "ds_elems el s w" ?next, unfolded this(2)]
  ultimately show ?thesis using stored by blast
qed

lemma ds_build_result:
  fixes A :: "('a, 'e) algorithm" and flog
  assumes inv: "ds_inv el s w" and xs: "ds_elems el s w = xs" "length xs = (2 ^ m) ^ k" and sh: "tree_shape m k"
    and m: "m \<le> 12" and cap: "tree_len (2 ^ m) k \<le> ds_capacity el s w"
  shows "store_contract.build_result (ds_inv el) (ds_elems el) A (2 ^ m) k xs row_count
    (ds_build io flog el A (2 ^ m) ((2 ^ m) ^ k) row_count config s w)"
proof -
  note c = ds_store_contract [of flog]
  let ?I = "store_contract.build_inv (ds_inv el) (ds_elems el) (ds_capacity el) A (2 ^ m) k xs"
  let ?b = "\<lambda>(level :: nat, width :: nat, lni :: nat, s :: disk_store, w :: fs). width > 1"
  let ?c = "\<lambda>(level, width, lni, s, w).
    and_then
      (if level = 0 then Ok (0, ds_len s)
       else and_then (usize_add lni width) (\<lambda>next. Ok (lni, next)))
      (\<lambda>(read_start, write_start).
        and_then (ds_process_layer io flog el A (2 ^ m) width level read_start write_start s w)
          (\<lambda>(s, w). and_then (usize_add lni width) (\<lambda>lni. and_then (usize_shr width m) (\<lambda>width.
             and_then (usize_add (ds_len s) width) (\<lambda>len.
             Ok (level + 1, width, lni, ds_set_len len s, w))))))"
  have m64: "m < 64" using m by simp
  have "\<exists>t. while_loop ?b ?c (0, length xs, 0, s, w) = Ok t \<and> ?I t \<and> \<not> ?b t"
  proof (rule while_loop_total [where m = "\<lambda>t. fst (snd t)"])
    show "?I (0, length xs, 0, s, w)" by (rule store_contract.build_inv_init [OF c inv xs cap])
    fix t
    assume I: "?I t" and b: "?b t"
    obtain level width lni s1 w1 where t: "t = (level, width, lni, s1, w1)" by (cases t) auto
    let ?row = "tree_row (node_hash A) (2 ^ m) xs level"
    note * = I [unfolded t store_contract.build_inv_def [OF c], simplified]
    note pos = store_contract.build_positions [OF c I [unfolded t] _ xs(2), simplified]
    have lt: "level < k" using store_contract.width_above_1 [OF c, of "2 ^ m" k level] b * t by simp
    have inv1: "ds_inv el s1 w1" using * by simp
    have len1: "ds_len s1 = lni + width" using ds_length_elems [OF inv1] pos(1,3) by simp
    have ends: "(if level = 0 then Ok (0, ds_len s1)
       else and_then (usize_add lni width) (\<lambda>next. Ok (lni, next))) = Ok (lni, lni + width)"
      using len1 pos by (auto simp: ds_ops_def)
    have "drop lni (ds_elems el s1 w1) = ?row" using pos(1,3,5) by simp
    then obtain pre where split: "ds_elems el s1 w1 = pre @ ?row" and pre: "length pre = lni"
      using append_take_drop_id [of lni "ds_elems el s1 w1"] pos(1,3) by (metis length_take min.absorb2 le_add1)
    have width: "length ?row = width" using * by (simp add: xs length_tree_row)
    have exp: "k - level = Suc (k - Suc level)" using lt by simp
    let ?q = "(2 ^ m) ^ (k - Suc level) :: nat"
    have q: "length ?row = ?q * 2 ^ m" using width * exp by simp
    have ne: "?row \<noteq> []" using width b t by auto
    have "row_start (2 ^ m) k (Suc level) + ?q \<le> tree_len (2 ^ m) k"
      using row_end_le [of "Suc level" k] lt by simp
    then have fits: "length pre + length ?row + ?q \<le> ds_capacity el s1 w1" using pos(3) * width pre by simp
    obtain w' where pl: "ds_process_layer io flog el A (2 ^ m) width level lni (lni + width) s1 w1 = Ok (s1, w')"
      and new: "ds_inv el (s1\<lparr>ds_len := ds_len s1 + ?q\<rparr>) w'"
        "ds_capacity el (s1\<lparr>ds_len := ds_len s1 + ?q\<rparr>) w' = ds_capacity el s1 w1"
        "ds_elems el (s1\<lparr>ds_len := ds_len s1 + ?q\<rparr>) w' = ds_elems el s1 w1 @ next_row (node_hash A level) (2 ^ m) ?row"
      using ds_process_layer_Ok [OF inv1 split q ne m fits, of flog A level] unfolding width pre by blast
    have wq: "width div 2 ^ m = ?q" using q width by simp
    have "ds_len s1 + ?q < usize_limit"
      using ds_word [OF inv1, of "ds_len s1 + ?q"] fits len1 width pre by simp
    then have "?c t = Ok (level + 1, ?q, lni + width, s1\<lparr>ds_len := ds_len s1 + ?q\<rparr>, w')"
      using t ends pl pos(3,4) m64 wq by (simp add: ds_set_len_def)
    moreover obtain u where "and_then (usize_add lni width) (\<lambda>lni. and_then (usize_shr width m) (\<lambda>width.
        Ok (level + 1, width, lni, s1\<lparr>ds_len := ds_len s1 + ?q\<rparr>, w'))) = Ok u" "?I u" "fst (snd u) < width"
      using store_contract.build_inv_step [OF c I [unfolded t] lt xs(2) sh new] by blast
    then have "u = (level + 1, ?q, lni + width, s1\<lparr>ds_len := ds_len s1 + ?q\<rparr>, w')" "?I u" "fst (snd u) < width"
      using pos(3,4) m64 wq by simp_all
    ultimately show "\<exists>u. ?c t = Ok u \<and> ?I u \<and> fst (snd u) < fst (snd t)" using t by auto
  qed
  then obtain level width lni s1 w1 where
    loop: "while_loop ?b ?c (0, length xs, 0, s, w) = Ok (level, width, lni, s1, w1)"
    and fin: "?I (level, width, lni, s1, w1)" "\<not> width > 1" by auto
  note final = store_contract.build_inv_final [OF c fin xs(2) sh]
  have len: "ds_len s1 = tree_len (2 ^ m) k"
    using ds_length_elems [OF final(2)] final(3) by (simp add: length_tree_nodes xs(2))
  have "ds_len s = (2 ^ m) ^ k" using ds_length_elems [OF inv] xs by simp
  then have eq: "ds_build io flog el A (2 ^ m) ((2 ^ m) ^ k) row_count config s w =
    and_then (while_loop ?b ?c (0, length xs, 0, s, w)) (\<lambda>(level, width, lni, s, w).
      and_then (get_merkle_tree_len ((2 ^ m) ^ k) (2 ^ m)) (\<lambda>len.
      ensure (ds_len s = len) WrongTreeLength (
      ensure (row_count = level + 1) InvalidRowCount (
      and_then (st_last (ds_ops io flog el) s w) (\<lambda>root. Ok (root, s, w))))))"
    using store_contract.leafs_even [OF c sh] xs(2) tree_shape_branches_pow2 [OF sh]
    by (simp add: ds_build_def Let_def cong del: and_then_weak_cong)
  show ?thesis
    using final len tree_len_ok [OF sh] unfolding store_contract.build_result_def [OF c] eq loop by simp
qed

lemma ds_tree_store: "tree_store el (disk_store io flog el) (ds_inv el) (ds_elems el) (ds_capacity el) (\<lambda>w. True) ds_fresh"
proof (intro tree_store.intro tree_store_axioms.intro)
  note c = ds_store_contract [of flog]
  show "store_contract el (disk_store io flog el) (ds_inv el) (ds_elems el) (ds_capacity el) (\<lambda>w. True) ds_fresh"
    using c by (simp add: store_contract_def store_contract_axioms_def ds_ops_def)
  fix s w xs m k A row_count config
  assume "ds_inv el s w" "ds_elems el s w = xs" "length xs = (2 ^ m) ^ k" "tree_shape m k" "m \<le> 12"
    "tree_len (2 ^ m) k \<le> ds_capacity el s w"
  then show "store_contract.build_result (ds_inv el) (ds_elems el) A (2 ^ m) k xs row_count
      (st_build (disk_store io flog el) A (2 ^ m) ((2 ^ m) ^ k) row_count config s w)"
    using ds_build_result by simp
next
  fix s w leafs m A row_count config
  assume "ds_inv el s w" "length (ds_elems el s w) \<noteq> leafs" "m < (64 :: nat)"
  then show "st_build (disk_store io flog el) A (2 ^ m) leafs row_count config s w = Err InconsistentData"
    using ds_length_elems [of s w] by (simp add: ds_build_def)
qed

end

interpretation bytes32_disk: mapped_layer model_io bytes32_element
  by unfold_locales

interpretation bytes32_disk_store: tree_store bytes32_element "disk_store model_io flog bytes32_element"
  "ds_inv bytes32_element" "ds_elems bytes32_element" "ds_capacity bytes32_element" "\<lambda>w. True" ds_fresh for flog
  by (rule bytes32_disk.ds_tree_store)

end
