(* ===== verification/External_Reader.thy ===== *)
theory External_Reader
  imports File_System
begin

text \<open>
  \<open>ExternalReader\<close> of \<open>src/store/mod.rs\<close>: a source, the offset of the data in it, and the
  function that reads a range. The function may read the file system, which is an argument.
  Its result is the new contents of the buffer and the number of bytes it reports.
\<close>

record 'r external_reader =
  er_offset :: nat
  er_source :: 'r
  er_read_fn :: "nat \<Rightarrow> nat \<Rightarrow> byte list \<Rightarrow> 'r \<Rightarrow> fs \<Rightarrow> (byte list \<times> nat) outcome"

definition er_read :: "'r external_reader \<Rightarrow> nat \<Rightarrow> nat \<Rightarrow> byte list \<Rightarrow> fs \<Rightarrow> (byte list \<times> nat) outcome" where
  "er_read reader start end' buf w =
     and_then (usize_add start (er_offset reader)) (\<lambda>start.
     and_then (usize_add end' (er_offset reader)) (\<lambda>end'.
     er_read_fn reader start end' buf (er_source reader) w))"

text \<open>The readers of files: \<open>read_exact_at\<close> into the front of the buffer.\<close>

definition file_read_fn :: "file_io \<Rightarrow> nat \<Rightarrow> nat \<Rightarrow> byte list \<Rightarrow> fs_file \<Rightarrow> fs \<Rightarrow> (byte list \<times> nat) outcome" where
  "file_read_fn io start end' buf reader w =
     and_then (usize_sub end' start) (\<lambda>n.
     and_then (slice_of buf 0 n) (\<lambda>_.
     and_then (io_read_exact_at io start n (fs_data w reader)) (\<lambda>bytes.
     Ok (bytes @ drop n buf, n))))"

definition er_new_from_config :: "file_io \<Rightarrow> replica_config \<Rightarrow> nat \<Rightarrow> fs \<Rightarrow> fs_file external_reader outcome" where
  "er_new_from_config io replica_config index w =
     and_then (fs_open (rc_path replica_config) w) (\<lambda>reader.
     and_then (index_at (rc_offsets replica_config) index) (\<lambda>offset.
     Ok \<lparr>er_offset = offset, er_source = reader, er_read_fn = file_read_fn io\<rparr>))"

definition er_new_from_path :: "file_io \<Rightarrow> path_buf \<Rightarrow> fs \<Rightarrow> fs_file external_reader outcome" where
  "er_new_from_path io path w = er_new_from_config io (replica_config_from path) 0 w"

text \<open>A reader serves \<open>data\<close> when it fills every buffer with the bytes of the range.\<close>

definition er_serves :: "'r external_reader \<Rightarrow> byte list \<Rightarrow> fs \<Rightarrow> bool" where
  "er_serves reader data w \<longleftrightarrow>
     (\<forall>a b buf. a \<le> b \<longrightarrow> b \<le> length data \<longrightarrow> length buf = b - a \<longrightarrow>
        er_read reader a b buf w = Ok (take (b - a) (drop a data), b - a))"

context file_io_contract
begin

text \<open>A reader of a file serves the part of the file behind its offset.\<close>

lemma er_new_from_config_serves:
  assumes "fs_names w (rc_path rc) = Some f" and "index < length (rc_offsets rc)"
    and "rc_offsets rc ! index + length data \<le> length (fs_data w f)"
    and "take (length data) (drop (rc_offsets rc ! index) (fs_data w f)) = data"
    and "length (fs_data w f) < usize_limit"
  shows "\<exists>reader. er_new_from_config io rc index w = Ok reader \<and> er_serves reader data w"
proof -
  let ?o = "rc_offsets rc ! index" and ?D = "fs_data w f"
  let ?reader = "\<lparr>er_offset = ?o, er_source = f, er_read_fn = file_read_fn io\<rparr>"
  have "er_read ?reader a b buf w = Ok (take (b - a) (drop a data), b - a)"
    if "a \<le> b" "b \<le> length data" "length buf = b - a" for a b buf
  proof -
    have "io_read_exact_at io (a + ?o) (b - a) ?D = Ok (take (b - a) (drop (a + ?o) ?D))"
      using that assms(3) by (intro read_exact_at_Ok) simp
    moreover have "take (b - a) (drop a data) = take (b - a) (drop (a + ?o) ?D)"
      using that by (subst assms(4) [symmetric]) (simp add: drop_take min_def add.commute)
    ultimately show ?thesis
      using that assms(3,5) by (simp add: er_read_def file_read_fn_def)
  qed
  then have "er_serves ?reader data w" by (simp add: er_serves_def)
  then show ?thesis using assms(1,2) by (simp add: er_new_from_config_def fs_open_def)
qed

end

end
