(* ===== verification/Level_Cache.thy ===== *)
theory Level_Cache
  imports Mapped_Layer External_Reader
begin

text \<open>
  \<open>LevelCacheStore\<close> of \<open>src/store/level_cache.rs\<close>: a tree of which the file holds the leaves
  and the cached upper rows (data version 1), or the cached rows only while the leaves come
  from an external reader (version 2). The indices are those of the whole tree.
\<close>

record 'r level_cache =
  lc_len :: nat
  lc_elem_len :: nat
  lc_file :: fs_file
  lc_data_width :: nat
  lc_cache_index_start :: nat
  lc_loaded_from_disk :: bool
  lc_store_size :: nat
  lc_reader :: "'r external_reader option"

section \<open>Access to the file\<close>

text \<open>
  The check of every read: the start lies in the leaves or in the cached rows. As the code has it,
  the position behind the last leaf passes too.
\<close>

definition lc_in_bounds :: "nat \<Rightarrow> 'r level_cache \<Rightarrow> bool outcome" where
  "lc_in_bounds start s =
     and_then (usize_mul (lc_data_width s) (lc_elem_len s)) (\<lambda>data_bytes.
     Ok (start \<le> data_bytes \<or> start \<ge> lc_cache_index_start s))"

definition lc_adjusted_start :: "nat \<Rightarrow> 'r level_cache \<Rightarrow> nat outcome" where
  "lc_adjusted_start start s =
     (if start \<ge> lc_cache_index_start s then
        (if Option.is_none (lc_reader s) then
           and_then (usize_mul (lc_data_width s) (lc_elem_len s)) (\<lambda>data_bytes.
           usize_add (start - lc_cache_index_start s) data_bytes)
         else Ok (start - lc_cache_index_start s))
      else Ok start)"

definition lc_store_read_range :: "file_io \<Rightarrow> nat \<Rightarrow> nat \<Rightarrow> 'r level_cache \<Rightarrow> fs \<Rightarrow> byte list outcome" where
  "lc_store_read_range io start end' s w =
     and_then (usize_sub end' start) (\<lambda>read_len.
     and_then (lc_in_bounds start s) (\<lambda>ok.
     ensure ok OutOfBounds (
     and_then (usize_mul (lc_data_width s) (lc_elem_len s)) (\<lambda>data_bytes.
     case (if start < data_bytes then lc_reader s else None) of
       Some reader \<Rightarrow>
         and_then (map_err FailedToRead (er_read reader start end' (replicate read_len 0) w))
           (\<lambda>(read_data, n). Ok read_data)
     | None \<Rightarrow>
         and_then (lc_adjusted_start start s) (\<lambda>adjusted_start.
         map_err FailedToRead (io_read_exact_at io adjusted_start read_len (fs_data w (lc_file s))))))))"

definition lc_store_read_range_internal ::
  "file_io \<Rightarrow> nat \<Rightarrow> nat \<Rightarrow> 'r level_cache \<Rightarrow> fs \<Rightarrow> byte list outcome" where
  "lc_store_read_range_internal io start end' s w =
     and_then (usize_sub end' start) (\<lambda>read_len.
     and_then (lc_in_bounds start s) (\<lambda>ok.
     ensure ok OutOfBounds (
     map_err FailedToRead (io_read_exact_at io start read_len (fs_data w (lc_file s))))))"

definition lc_store_read_into ::
  "file_io \<Rightarrow> nat \<Rightarrow> nat \<Rightarrow> byte list \<Rightarrow> 'r level_cache \<Rightarrow> fs \<Rightarrow> byte list outcome" where
  "lc_store_read_into io start end' buf s w =
     and_then (lc_in_bounds start s) (\<lambda>ok.
     ensure ok InvalidReadStart (
     and_then (usize_mul (lc_data_width s) (lc_elem_len s)) (\<lambda>data_bytes.
     case (if start < data_bytes then lc_reader s else None) of
       Some reader \<Rightarrow>
         and_then (map_err FailedToRead (er_read reader start end' buf w)) (\<lambda>(buf, n). Ok buf)
     | None \<Rightarrow>
         and_then (lc_adjusted_start start s) (\<lambda>adjusted_start.
         map_err FailedToRead (io_read_exact_at io adjusted_start (length buf) (fs_data w (lc_file s)))))))"

definition lc_store_copy_from_slice ::
  "file_io \<Rightarrow> nat \<Rightarrow> byte list \<Rightarrow> 'r level_cache \<Rightarrow> fs \<Rightarrow> ('r level_cache \<times> fs) outcome" where
  "lc_store_copy_from_slice io start bytes s w =
     and_then (usize_add start (length bytes)) (\<lambda>end'.
     ensure (end' \<le> lc_store_size s) SliceTooLarge (
     and_then (io_write_all_at io start bytes (fs_data w (lc_file s))) (\<lambda>data.
     Ok (s, fs_put (lc_file s) data w))))"

definition lc_set_len :: "nat \<Rightarrow> 'r level_cache \<Rightarrow> 'r level_cache" where
  "lc_set_len n s = s\<lparr>lc_len := n\<rparr>"

definition lc_set_external_reader :: "'r external_reader \<Rightarrow> 'r level_cache \<Rightarrow> 'r level_cache outcome" where
  "lc_set_external_reader reader s = Ok (s\<lparr>lc_reader := Some reader\<rparr>)"

text \<open>Remove \<open>len\<close> elements from the front of the file.\<close>

definition lc_front_truncate ::
  "'e element \<Rightarrow> store_config \<Rightarrow> nat \<Rightarrow> 'r level_cache \<Rightarrow> fs \<Rightarrow> ('r level_cache \<times> fs) outcome" where
  "lc_front_truncate el config len s w =
     (let store_size = fs_metadata_len (lc_file s) w in
      and_then (usize_mul len (el_byte_len el)) (\<lambda>len.
      ensure (len \<le> store_size) InvalidTruncationLength (
      and_then (fs_open (data_path (sc_path config) (sc_id config)) w) (\<lambda>reader.
      and_then (fs_open (data_path (sc_path config) (sc_id config)) w) (\<lambda>f.
      let s = s\<lparr>lc_file := f\<rparr> in
      and_then (fs_copy reader len f 0 w) (\<lambda>(written, w).
      ensure (written = store_size - len) FailedToCopy (
      and_then (fs_set_len f written w) (\<lambda>w. Ok (s, w)))))))))"


section \<open>Constructors\<close>

text \<open>
  The sizes the constructors compute from the number of elements of the tree: the number of
  leaves, and the size of the cached rows in bytes.
\<close>

definition lc_leafs :: "nat \<Rightarrow> nat \<Rightarrow> nat outcome" where
  "lc_leafs store_range branches =
     and_then (get_merkle_tree_leafs store_range branches) (\<lambda>n.
     and_then (next_pow2 n) (\<lambda>p. ensure (n = p) InconsistentTreeRowCount (Ok n)))"

definition lc_cache_bytes ::
  "(nat \<Rightarrow> nat \<Rightarrow> nat) \<Rightarrow> 'e element \<Rightarrow> nat \<Rightarrow> nat \<Rightarrow> store_config \<Rightarrow> nat outcome" where
  "lc_cache_bytes flog el leafs branches config =
     and_then (get_merkle_tree_cache_size flog leafs branches (sc_rows_to_discard config)) (\<lambda>n.
     usize_mul n (el_byte_len el))"

definition lc_new_from_disk_with_reader ::
  "(nat \<Rightarrow> nat \<Rightarrow> nat) \<Rightarrow> 'e element \<Rightarrow> nat \<Rightarrow> nat \<Rightarrow> store_config \<Rightarrow> 'r external_reader \<Rightarrow> fs \<Rightarrow>
     ('r level_cache \<times> fs) outcome" where
  "lc_new_from_disk_with_reader flog el store_range branches config reader w =
     and_then (fs_open (data_path (sc_path config) (sc_id config)) w) (\<lambda>f.
     let store_size = fs_metadata_len f w in
     and_then (lc_leafs store_range branches) (\<lambda>leafs.
     and_then (usize_mul store_range (el_byte_len el)) (\<lambda>store_range.
     and_then (lc_cache_bytes flog el leafs branches config) (\<lambda>cache_size.
     and_then (usize_sub store_range cache_size) (\<lambda>cache_index_start.
     ensure (store_size = cache_size) InconsistentStoreSize (
     and_then (usize_div store_range (el_byte_len el)) (\<lambda>len.
     Ok (\<lparr>lc_len = len, lc_elem_len = el_byte_len el, lc_file = f, lc_data_width = leafs,
          lc_cache_index_start = cache_index_start, lc_loaded_from_disk = False,
          lc_store_size = store_size, lc_reader = Some reader\<rparr>, w))))))))"

text \<open>The size of the file is not checked here: the check is commented out in the code.\<close>

definition lc_new_from_disk ::
  "(nat \<Rightarrow> nat \<Rightarrow> nat) \<Rightarrow> 'e element \<Rightarrow> nat \<Rightarrow> nat \<Rightarrow> store_config \<Rightarrow> fs \<Rightarrow> ('r level_cache \<times> fs) outcome" where
  "lc_new_from_disk flog el store_range branches config w =
     and_then (fs_open (data_path (sc_path config) (sc_id config)) w) (\<lambda>f.
     let store_size = fs_metadata_len f w in
     and_then (lc_leafs store_range branches) (\<lambda>leafs.
     and_then (usize_mul store_range (el_byte_len el)) (\<lambda>store_range.
     and_then (lc_cache_bytes flog el leafs branches config) (\<lambda>cache_size.
     and_then (usize_sub store_range cache_size) (\<lambda>cache_index_start.
     and_then (usize_div store_range (el_byte_len el)) (\<lambda>len.
     Ok (\<lparr>lc_len = len, lc_elem_len = el_byte_len el, lc_file = f, lc_data_width = leafs,
          lc_cache_index_start = cache_index_start, lc_loaded_from_disk = True,
          lc_store_size = store_size, lc_reader = None\<rparr>, w)))))))"

definition lc_new_with_config ::
  "(nat \<Rightarrow> nat \<Rightarrow> nat) \<Rightarrow> 'e element \<Rightarrow> nat \<Rightarrow> nat \<Rightarrow> store_config \<Rightarrow> fs \<Rightarrow> ('r level_cache \<times> fs) outcome" where
  "lc_new_with_config flog el n branches config w =
     (let path = data_path (sc_path config) (sc_id config) in
      if fs_exists path w then lc_new_from_disk flog el n branches config w
      else
        and_then (fs_create_new path w) (\<lambda>(f, w).
        and_then (usize_mul (el_byte_len el) n) (\<lambda>store_size.
        and_then (lc_leafs n branches) (\<lambda>leafs.
        and_then (lc_cache_bytes flog el leafs branches config) (\<lambda>cache_size.
        and_then (usize_sub store_size cache_size) (\<lambda>cache_index_start.
        and_then (fs_set_len f store_size w) (\<lambda>w.
        Ok (\<lparr>lc_len = 0, lc_elem_len = el_byte_len el, lc_file = f, lc_data_width = leafs,
             lc_cache_index_start = cache_index_start, lc_loaded_from_disk = False,
             lc_store_size = store_size, lc_reader = None\<rparr>, w))))))))"

definition lc_new :: "file_io \<Rightarrow> 'e element \<Rightarrow> nat \<Rightarrow> fs \<Rightarrow> ('r level_cache \<times> fs) outcome" where
  "lc_new io el n w =
     and_then (usize_mul (el_byte_len el) n) (\<lambda>store_size.
     and_then (io_tempfile io w) (\<lambda>(f, w).
     and_then (fs_set_len f store_size w) (\<lambda>w.
     Ok (\<lparr>lc_len = 0, lc_elem_len = el_byte_len el, lc_file = f, lc_data_width = n,
          lc_cache_index_start = 0, lc_loaded_from_disk = False,
          lc_store_size = store_size, lc_reader = None\<rparr>, w))))"

definition lc_new_from_slice_with_config ::
  "file_io \<Rightarrow> (nat \<Rightarrow> nat \<Rightarrow> nat) \<Rightarrow> 'e element \<Rightarrow> nat \<Rightarrow> nat \<Rightarrow> byte list \<Rightarrow> store_config \<Rightarrow> fs \<Rightarrow>
     ('r level_cache \<times> fs) outcome" where
  "lc_new_from_slice_with_config io flog el n branches data config w =
     and_then (usize_rem (length data) (el_byte_len el)) (\<lambda>r.
     ensure (r = 0) NotMultipleOfElement (
     and_then (lc_new_with_config flog el n branches config w) (\<lambda>(s, w).
     if \<not> lc_loaded_from_disk s then
       and_then (lc_store_copy_from_slice io 0 data s w) (\<lambda>(s, w).
       and_then (usize_div (length data) (lc_elem_len s)) (\<lambda>len.
       Ok (s\<lparr>lc_len := len\<rparr>, w)))
     else Ok (s, w))))"

definition lc_new_from_slice ::
  "file_io \<Rightarrow> 'e element \<Rightarrow> nat \<Rightarrow> byte list \<Rightarrow> fs \<Rightarrow> ('r level_cache \<times> fs) outcome" where
  "lc_new_from_slice io el n data w =
     and_then (usize_rem (length data) (el_byte_len el)) (\<lambda>r.
     ensure (r = 0) NotMultipleOfElement (
     and_then (lc_new io el n w) (\<lambda>(s, w).
     and_then (lc_store_copy_from_slice io 0 data s w) (\<lambda>(s, w).
     and_then (usize_div (length data) (lc_elem_len s)) (\<lambda>len.
     Ok (s\<lparr>lc_len := len\<rparr>, w))))))"

definition lc_is_consistent_v1 ::
  "(nat \<Rightarrow> nat \<Rightarrow> nat) \<Rightarrow> 'e element \<Rightarrow> nat \<Rightarrow> nat \<Rightarrow> store_config \<Rightarrow> fs \<Rightarrow> bool outcome" where
  "lc_is_consistent_v1 flog el store_range branches config w =
     and_then (fs_open (data_path (sc_path config) (sc_id config)) w) (\<lambda>f.
     and_then (lc_leafs store_range branches) (\<lambda>leafs.
     and_then (lc_cache_bytes flog el leafs branches config) (\<lambda>cache_size.
     and_then (usize_mul leafs (el_byte_len el)) (\<lambda>data_bytes.
     and_then (usize_add data_bytes cache_size) (\<lambda>bytes.
     Ok (fs_metadata_len f w = bytes))))))"

definition lc_is_consistent ::
  "(nat \<Rightarrow> nat \<Rightarrow> nat) \<Rightarrow> 'e element \<Rightarrow> nat \<Rightarrow> nat \<Rightarrow> store_config \<Rightarrow> fs \<Rightarrow> bool outcome" where
  "lc_is_consistent flog el store_range branches config w =
     and_then (fs_open (data_path (sc_path config) (sc_id config)) w) (\<lambda>f.
     and_then (lc_leafs store_range branches) (\<lambda>leafs.
     and_then (lc_cache_bytes flog el leafs branches config) (\<lambda>cache_size.
     Ok (fs_metadata_len f w = cache_size))))"


section \<open>Writing and reading\<close>

definition lc_write_at ::
  "file_io \<Rightarrow> 'e element \<Rightarrow> 'e \<Rightarrow> nat \<Rightarrow> 'r level_cache \<Rightarrow> fs \<Rightarrow> ('r level_cache \<times> fs) outcome" where
  "lc_write_at io el x index s w =
     and_then (usize_mul index (lc_elem_len s)) (\<lambda>start.
     and_then (lc_store_copy_from_slice io start (el_as_ref el x) s w) (\<lambda>(s, w).
     and_then (usize_add index 1) (\<lambda>n.
     Ok (s\<lparr>lc_len := max (lc_len s) n\<rparr>, w))))"

definition lc_copy_from_slice ::
  "file_io \<Rightarrow> byte list \<Rightarrow> nat \<Rightarrow> 'r level_cache \<Rightarrow> fs \<Rightarrow> ('r level_cache \<times> fs) outcome" where
  "lc_copy_from_slice io buf start s w =
     and_then (usize_rem (length buf) (lc_elem_len s)) (\<lambda>r.
     ensure (r = 0) BufNotMultiple (
     and_then (usize_mul start (lc_elem_len s)) (\<lambda>pos.
     and_then (lc_store_copy_from_slice io pos buf s w) (\<lambda>(s, w).
     and_then (usize_add start (length buf div lc_elem_len s)) (\<lambda>n.
     Ok (s\<lparr>lc_len := max (lc_len s) n\<rparr>, w))))))"

definition lc_check_range :: "nat \<Rightarrow> nat \<Rightarrow> 'r level_cache \<Rightarrow> unit outcome" where
  "lc_check_range start end' s =
     and_then (usize_mul (lc_len s) (lc_elem_len s)) (\<lambda>len.
     ensure (start < len) OutOfRange (
     ensure (end' \<le> len) OutOfRange (
     and_then (lc_in_bounds start s) (\<lambda>ok. ensure ok OutOfBounds (Ok ())))))"

definition lc_read_at :: "file_io \<Rightarrow> 'e element \<Rightarrow> nat \<Rightarrow> 'r level_cache \<Rightarrow> fs \<Rightarrow> 'e outcome" where
  "lc_read_at io el index s w =
     and_then (usize_mul index (lc_elem_len s)) (\<lambda>start.
     and_then (usize_add start (lc_elem_len s)) (\<lambda>end'.
     and_then (lc_check_range start end' s) (\<lambda>_.
     and_then (lc_store_read_range io start end' s w) (\<lambda>bytes. el_from_slice el bytes))))"

definition lc_read_into :: "file_io \<Rightarrow> nat \<Rightarrow> byte list \<Rightarrow> 'r level_cache \<Rightarrow> fs \<Rightarrow> byte list outcome" where
  "lc_read_into io index buf s w =
     and_then (usize_mul index (lc_elem_len s)) (\<lambda>start.
     and_then (usize_add start (lc_elem_len s)) (\<lambda>end'.
     and_then (lc_check_range start end' s) (\<lambda>_.
     lc_store_read_into io start end' buf s w)))"

definition lc_read_range_into ::
  "file_io \<Rightarrow> nat \<Rightarrow> nat \<Rightarrow> byte list \<Rightarrow> 'r level_cache \<Rightarrow> fs \<Rightarrow> byte list outcome" where
  "lc_read_range_into io start end' buf s w =
     and_then (usize_mul start (lc_elem_len s)) (\<lambda>start.
     and_then (usize_mul end' (lc_elem_len s)) (\<lambda>end'.
     and_then (lc_check_range start end' s) (\<lambda>_.
     lc_store_read_into io start end' buf s w)))"

definition lc_read_range :: "file_io \<Rightarrow> 'e element \<Rightarrow> nat \<Rightarrow> nat \<Rightarrow> 'r level_cache \<Rightarrow> fs \<Rightarrow> 'e list outcome" where
  "lc_read_range io el a b s w =
     and_then (usize_mul a (lc_elem_len s)) (\<lambda>start.
     and_then (usize_mul b (lc_elem_len s)) (\<lambda>end'.
     and_then (lc_check_range start end' s) (\<lambda>_.
     and_then (lc_store_read_range io start end' s w) (\<lambda>bytes.
     panic_unless (lc_elem_len s \<noteq> 0) AssertFailed (
     map_outcome (el_from_slice el) (chunks (lc_elem_len s) bytes))))))"

text \<open>The reads of the build: straight from the file.\<close>

definition lc_read_range_internal ::
  "file_io \<Rightarrow> 'e element \<Rightarrow> nat \<Rightarrow> nat \<Rightarrow> 'r level_cache \<Rightarrow> fs \<Rightarrow> 'e list outcome" where
  "lc_read_range_internal io el a b s w =
     and_then (usize_mul a (lc_elem_len s)) (\<lambda>start.
     and_then (usize_mul b (lc_elem_len s)) (\<lambda>end'.
     and_then (lc_check_range start end' s) (\<lambda>_.
     and_then (lc_store_read_range_internal io start end' s w) (\<lambda>bytes.
     panic_unless (lc_elem_len s \<noteq> 0) AssertFailed (
     map_outcome (el_from_slice el) (chunks (lc_elem_len s) bytes))))))"

definition lc_read_at_internal :: "file_io \<Rightarrow> 'e element \<Rightarrow> nat \<Rightarrow> 'r level_cache \<Rightarrow> fs \<Rightarrow> 'e outcome" where
  "lc_read_at_internal io el index s w =
     and_then (usize_mul index (lc_elem_len s)) (\<lambda>start.
     and_then (usize_add start (lc_elem_len s)) (\<lambda>end'.
     and_then (lc_check_range start end' s) (\<lambda>_.
     and_then (lc_store_read_range_internal io start end' s w) (\<lambda>bytes. el_from_slice el bytes))))"

definition lc_is_empty :: "'r level_cache \<Rightarrow> bool" where
  "lc_is_empty s \<longleftrightarrow> lc_len s = 0"

definition lc_push :: "file_io \<Rightarrow> 'e element \<Rightarrow> 'e \<Rightarrow> 'r level_cache \<Rightarrow> fs \<Rightarrow> ('r level_cache \<times> fs) outcome" where
  "lc_push io el x s w =
     and_then (usize_add (lc_len s) 1) (\<lambda>n.
     and_then (usize_mul n (lc_elem_len s)) (\<lambda>bytes.
     ensure (bytes \<le> lc_store_size s) NotEnoughSpace (
     lc_write_at io el x (lc_len s) s w)))"

definition lc_sync :: "'r level_cache \<Rightarrow> fs \<Rightarrow> unit outcome" where
  "lc_sync s w = map_err FailedToSync (fs_sync_all (lc_file s) w)"

definition lc_delete :: "store_config \<Rightarrow> fs \<Rightarrow> fs outcome" where
  "lc_delete config w =
     map_err FailedToDelete (fs_remove_file (data_path (sc_path config) (sc_id config)) w)"

definition lc_compact ::
  "nat \<Rightarrow> store_config \<Rightarrow> nat \<Rightarrow> 'r level_cache \<Rightarrow> fs \<Rightarrow> (bool \<times> 'r level_cache \<times> fs) outcome" where
  "lc_compact branches config store_version s w = Err CannotCompactStore"


section \<open>The store\<close>

definition lc_ops ::
  "file_io \<Rightarrow> (nat \<Rightarrow> nat \<Rightarrow> nat) \<Rightarrow> 'e element \<Rightarrow> (fs, 'r level_cache, 'e) store_ops" where
  "lc_ops io flog el =
     \<lparr>st_new_with_config = lc_new_with_config flog el,
      st_new = lc_new io el,
      st_new_from_slice_with_config = lc_new_from_slice_with_config io flog el,
      st_new_from_slice = lc_new_from_slice io el,
      st_new_from_disk = lc_new_from_disk flog el,
      st_write_at = lc_write_at io el,
      st_copy_from_slice = lc_copy_from_slice io,
      st_compact = lc_compact,
      st_reinit = default_reinit,
      st_delete = lc_delete,
      st_read_at = lc_read_at io el,
      st_read_range = lc_read_range io el,
      st_read_into = lc_read_into io,
      st_read_range_into = lc_read_range_into io,
      st_len = lc_len,
      st_loaded_from_disk = lc_loaded_from_disk,
      st_is_empty = lc_is_empty,
      st_push = lc_push io el,
      st_sync = lc_sync\<rparr>"

text \<open>\<open>process_layer\<close> reads with \<open>read_range_internal\<close>.\<close>

definition lc_process_layer ::
  "file_io \<Rightarrow> (nat \<Rightarrow> nat \<Rightarrow> nat) \<Rightarrow> 'e element \<Rightarrow> ('a, 'e) algorithm \<Rightarrow> nat \<Rightarrow>
     nat \<Rightarrow> nat \<Rightarrow> nat \<Rightarrow> nat \<Rightarrow> 'r level_cache \<Rightarrow> fs \<Rightarrow> ('r level_cache \<times> fs) outcome" where
  "lc_process_layer io flog el A branches width level read_start write_start s w =
     and_then (mapped_process_layer io el ((lc_ops io flog el)\<lparr>st_read_range := lc_read_range_internal io el\<rparr>)
         (lc_file s) A branches width level read_start write_start s w)
       (\<lambda>w. Ok (s, w))"

definition lc_build ::
  "file_io \<Rightarrow> (nat \<Rightarrow> nat \<Rightarrow> nat) \<Rightarrow> 'e element \<Rightarrow> ('a, 'e) algorithm \<Rightarrow> nat \<Rightarrow>
     nat \<Rightarrow> nat \<Rightarrow> store_config option \<Rightarrow> 'r level_cache \<Rightarrow> fs \<Rightarrow> ('e \<times> 'r level_cache \<times> fs) outcome" where
  "lc_build io flog el A branches leafs row_count config s w =
     and_then (next_pow2 branches) (\<lambda>p.
     ensure (p = branches) BranchesNotPow2 (
     ensure (lc_len s = leafs) InconsistentData (
     ensure (leafs mod 2 = 0) LeafsNotEven (
     case config of None \<Rightarrow> Err ConfigRequired | Some config \<Rightarrow>
     let shift = log2_pow2 branches in
     and_then (get_merkle_tree_cache_size flog leafs branches (sc_rows_to_discard config)) (\<lambda>cache_size.
     and_then (get_merkle_tree_len leafs branches) (\<lambda>len.
     and_then (usize_sub len cache_size) (\<lambda>cache_index_start.
     and_then
       (while_loop
         (\<lambda>(level, width, level_node_index, s, w). width > 1)
         (\<lambda>(level, width, level_node_index, s, w).
           and_then
             (if level = 0 then Ok (0, lc_len s)
              else if level_node_index < cache_index_start then Ok (0, width)
              else
                and_then (usize_add level_node_index width) (\<lambda>next.
                Ok (level_node_index - cache_index_start, next - cache_index_start)))
             (\<lambda>(read_start, write_start).
           and_then (lc_process_layer io flog el A branches width level read_start write_start s w) (\<lambda>(s, w).
           and_then
             (if level_node_index < cache_index_start then lc_front_truncate el config width s w else Ok (s, w))
             (\<lambda>(s, w).
           and_then (usize_add level_node_index width) (\<lambda>level_node_index.
           and_then (usize_shr width shift) (\<lambda>width.
           Ok (level + 1, width, level_node_index, lc_set_len level_node_index s, w)))))))
         (0, leafs, 0, s, w))
       (\<lambda>(level, width, level_node_index, s, w).
     and_then (usize_add (lc_len s) 1) (\<lambda>n.
     let s = lc_set_len n s in
     and_then (get_merkle_tree_len leafs branches) (\<lambda>len.
     ensure (lc_len s = len) WrongTreeLength (
     ensure (row_count = level + 1) InvalidRowCount (
     and_then (usize_sub (lc_len s) cache_index_start) (\<lambda>n.
     and_then (usize_sub n 1) (\<lambda>root_index.
     and_then (lc_read_at_internal io el root_index s w) (\<lambda>root. Ok (root, s, w))))))))))))))))"

definition level_cache_store ::
  "file_io \<Rightarrow> (nat \<Rightarrow> nat \<Rightarrow> nat) \<Rightarrow> 'e element \<Rightarrow> (fs, 'r level_cache, 'e, 'a) store" where
  "level_cache_store io flog el =
     store_ops.extend (lc_ops io flog el) (store.fields (lc_process_layer io flog el) (lc_build io flog el))"

lemma level_cache_store_ops [simp]:
  "st_len (level_cache_store io flog el) = lc_len"
  "st_new (level_cache_store io flog el) = lc_new io el"
  "st_new_with_config (level_cache_store io flog el) = lc_new_with_config flog el"
  "st_new_from_slice_with_config (level_cache_store io flog el) = lc_new_from_slice_with_config io flog el"
  "st_new_from_disk (level_cache_store io flog el) = lc_new_from_disk flog el"
  "st_write_at (level_cache_store io flog el) = lc_write_at io el"
  "st_copy_from_slice (level_cache_store io flog el) = lc_copy_from_slice io"
  "st_compact (level_cache_store io flog el) = lc_compact"
  "st_read_at (level_cache_store io flog el) = lc_read_at io el"
  "st_read_range (level_cache_store io flog el) = lc_read_range io el"
  "st_read_into (level_cache_store io flog el) = lc_read_into io"
  "st_read_range_into (level_cache_store io flog el) = lc_read_range_into io"
  "st_loaded_from_disk (level_cache_store io flog el) = lc_loaded_from_disk"
  "st_build (level_cache_store io flog el) = lc_build io flog el"
  by (simp_all add: level_cache_store_def lc_ops_def store_ops.defs store.defs)

end
