(* ===== verification/Replica.thy ===== *)
theory Replica
  imports Level_Cache Compound
begin

text \<open>
  The trees over \<open>LevelCacheStore\<close> with the leaves in a replica file (the \<open>impl\<close> block of
  \<open>src/merkle.rs\<close> for \<open>LevelCacheStore<E, std::fs::File>\<close>).
\<close>

definition lc_types ::
  "file_io \<Rightarrow> (nat \<Rightarrow> nat \<Rightarrow> nat) \<Rightarrow> 'e element \<Rightarrow> ('a, 'e) algorithm \<Rightarrow>
     (fs, 'r level_cache, 'e, 'a) merkle_types" where
  "lc_types io flog el A = \<lparr>mt_E = el, mt_A = A, mt_S = level_cache_store io flog el, mt_flog = flog\<rparr>"

lemma lc_types_simps [simp]:
  "mt_E (lc_types io flog el A) = el" "mt_A (lc_types io flog el A) = A"
  "mt_S (lc_types io flog el A) = level_cache_store io flog el" "mt_flog (lc_types io flog el A) = flog"
  by (simp_all add: lc_types_def)

definition set_external_reader_path ::
  "file_io \<Rightarrow> path_buf \<Rightarrow> (fs_file level_cache, 'e) merkle_tree \<Rightarrow> fs \<Rightarrow>
     (fs_file level_cache, 'e) merkle_tree outcome" where
  "set_external_reader_path io path tree w =
     (case data_store_mut (tree_data tree) of
        None \<Rightarrow> Err StoreDataRequired
      | Some (s, put) \<Rightarrow>
          and_then (er_new_from_path io path w) (\<lambda>reader.
          and_then (lc_set_external_reader reader s) (\<lambda>s. Ok (with_data (put s) tree))))"

definition from_store_configs_and_replica ::
  "file_io \<Rightarrow> (nat \<Rightarrow> nat \<Rightarrow> nat) \<Rightarrow> 'e element \<Rightarrow> ('a, 'e) algorithm \<Rightarrow> nat \<Rightarrow> nat \<Rightarrow>
     nat \<Rightarrow> store_config list \<Rightarrow> replica_config \<Rightarrow> fs \<Rightarrow> ((fs_file level_cache, 'e) merkle_tree \<times> fs) outcome" where
  "from_store_configs_and_replica io flog el A b n leafs configs replica_config w =
     ensure (length configs = length (rc_offsets replica_config)) ConfigOffsetMismatch (
     and_then
       (for_each
         (\<lambda>(i, config) (trees, w).
           and_then (get_merkle_tree_len leafs b) (\<lambda>len.
           and_then (er_new_from_config io replica_config i w) (\<lambda>reader.
           and_then (map_err FailedToInstantiate (lc_new_from_disk_with_reader flog el len b config reader w))
             (\<lambda>(data, w).
           and_then (from_data_store (lc_types io flog el A) b 0 0 data leafs w) (\<lambda>tree.
           Ok (trees @ [tree], w))))))
         (enumerate 0 configs) ([], w))
       (\<lambda>(trees, w). and_then (from_trees (lc_types io flog el A) n trees) (\<lambda>tree. Ok (tree, w))))"

definition from_sub_tree_store_configs_and_replica ::
  "file_io \<Rightarrow> (nat \<Rightarrow> nat \<Rightarrow> nat) \<Rightarrow> 'e element \<Rightarrow> ('a, 'e) algorithm \<Rightarrow> nat \<Rightarrow> nat \<Rightarrow> nat \<Rightarrow>
     nat \<Rightarrow> store_config list \<Rightarrow> replica_config \<Rightarrow> fs \<Rightarrow> ((fs_file level_cache, 'e) merkle_tree \<times> fs) outcome" where
  "from_sub_tree_store_configs_and_replica io flog el A b n t leafs configs replica_config w =
     ensure (length configs = length (rc_offsets replica_config)) ConfigOffsetMismatch (
     let sub_tree_count = t in
     and_then (usize_div (length configs) sub_tree_count) (\<lambda>step.
     and_then
       (for_each
         (\<lambda>_ (trees, start, end', w).
           and_then (slice_of (rc_offsets replica_config) start end') (\<lambda>offsets.
           let replica_sub_config = \<lparr>rc_path = rc_path replica_config, rc_offsets = offsets\<rparr> in
           and_then (slice_of configs start end') (\<lambda>group.
           and_then (from_store_configs_and_replica io flog el A b n leafs group replica_sub_config w) (\<lambda>(tree, w).
           let start = end' in
           and_then (usize_add end' step) (\<lambda>end'.
           Ok (trees @ [tree], start, end', w))))))
         [0..<sub_tree_count] ([], 0, step, w))
       (\<lambda>(trees, start, end', w).
     and_then (from_sub_trees (lc_types io flog el A) t trees) (\<lambda>tree. Ok (tree, w)))))"

end
