(* ===== verification/Cached_Proof.thy ===== *)
theory Cached_Proof
  imports Gen_Proof Vec_Store
begin

text \<open>
  Proofs from cached data (\<open>build_partial_tree\<close>, \<open>gen_cached_proof\<close>,
  \<open>gen_cached_top_tree_proof\<close>, \<open>gen_cached_sub_tree_proof\<close> and
  \<open>gen_proof_with_partial_tree\<close> of \<open>src/merkle.rs\<close>): the store holds the leaves and the upper
  rows only, and the rows between are rebuilt in memory over the segment of the leaves that the
  proof needs.
\<close>

section \<open>The partial tree\<close>

text \<open>The types of the partial tree: a \<open>VecStore\<close> instead of the store of the tree.\<close>

definition vec_types :: "('w, 's, 'e, 'a) merkle_types \<Rightarrow> ('w, 'e vec_store, 'e, 'a) merkle_types" where
  "vec_types C = \<lparr>mt_E = mt_E C, mt_A = mt_A C, mt_S = vec_store (mt_E C), mt_flog = mt_flog C\<rparr>"

lemma vec_types_simps [simp]:
  "mt_E (vec_types C) = mt_E C" "mt_A (vec_types C) = mt_A C"
  "mt_S (vec_types C) = vec_store (mt_E C)" "mt_flog (vec_types C) = mt_flog C"
  by (simp_all add: vec_types_def)

definition build_partial_tree ::
  "('w, 's, 'e, 'a) merkle_types \<Rightarrow> nat \<Rightarrow> 'e vec_store \<Rightarrow> nat \<Rightarrow> nat \<Rightarrow> 'w \<Rightarrow>
     ('e vec_store, 'e) merkle_tree outcome" where
  "build_partial_tree C branches data leafs row_count w =
     and_then (st_build (vec_store (mt_E C)) (mt_A C) branches leafs row_count None data w) (\<lambda>(root, data, w).
     and_then (get_merkle_tree_len leafs branches) (\<lambda>len.
     ensure (len = vec_len data) InconsistentTreeData (
     and_then (is_merkle_tree_size_valid leafs branches) (\<lambda>valid.
     ensure valid TreeSizeInvalid (
     Ok (MerkleTree (BaseTree data) leafs len row_count root))))))"


section \<open>The proof over the store and the partial tree\<close>

text \<open>
  One row of the proof. A sibling in the base row or in a cached row is read from the tree
  itself, every other one from the partial tree, whose indices are shifted.
\<close>

definition push_cached_siblings ::
  "(nat \<Rightarrow> 'e outcome) \<Rightarrow> (nat \<Rightarrow> 'e outcome) \<Rightarrow> nat \<Rightarrow> nat \<Rightarrow> nat \<Rightarrow> nat \<Rightarrow> nat \<Rightarrow> nat \<Rightarrow> nat \<Rightarrow>
     'e list \<Rightarrow> 'e list outcome" where
  "push_cached_siblings read read_partial branches data_width cache_index_start base partial_base segment_shift j lem =
     and_then (usize_div j branches) (\<lambda>q.
     and_then (usize_mul q branches) (\<lambda>hash_index.
     and_then (usize_add hash_index branches) (\<lambda>end'.
     for_each
       (\<lambda>k lem.
         if k \<noteq> j then
           and_then (usize_add base k) (\<lambda>read_index.
           and_then
             (if read_index < data_width \<or> read_index \<ge> cache_index_start then read read_index
              else
                and_then (usize_add partial_base k) (\<lambda>pos.
                and_then (usize_sub pos segment_shift) (\<lambda>read_index. read_partial read_index)))
             (\<lambda>x. Ok (lem @ [x])))
         else Ok lem)
       [hash_index..<end'] lem)))"

definition gen_proof_with_partial_tree ::
  "('w, 's, 'e, 'a) merkle_types \<Rightarrow> nat \<Rightarrow> nat \<Rightarrow> nat \<Rightarrow> ('s, 'e) merkle_tree \<Rightarrow> nat \<Rightarrow> nat \<Rightarrow>
     ('e vec_store, 'e) merkle_tree \<Rightarrow> 'w \<Rightarrow> 'e inclusion_proof outcome" where
  "gen_proof_with_partial_tree C branches n t tree i rows_to_discard partial_tree w =
     ensure (i < tree_leafs tree) LeafOutOfBounds (
     let width = tree_leafs tree in
     and_then (next_pow2 width) (\<lambda>p. ensure (width = p) NotPow2Tree (
     and_then (next_pow2 branches) (\<lambda>q. ensure (branches = q) BranchesNotPow2 (
     let data_width = width in
     and_then (get_merkle_tree_len data_width branches) (\<lambda>total_size.
     and_then (get_merkle_tree_cache_size (mt_flog C) (tree_leafs tree) branches rows_to_discard) (\<lambda>cache_size.
     and_then (usize_sub total_size cache_size) (\<lambda>cache_index_start.
     and_then (get_merkle_tree_leafs cache_size branches) (\<lambda>cached_leafs.
     and_then (next_pow2 cached_leafs) (\<lambda>p. ensure (cached_leafs = p) CachedLeafsNotPow2 (
     and_then (usize_div width cached_leafs) (\<lambda>segment_width.
     and_then (usize_div i segment_width) (\<lambda>segment.
     and_then (usize_mul segment segment_width) (\<lambda>segment_start.
     let shift = log2_pow2 branches in
     and_then (get_merkle_proof_lemma_len (tree_row_count tree) branches) (\<lambda>lemma_len.
     and_then (usize_sub (tree_row_count tree) 1) (\<lambda>path_len.
     ensure (n = 0) DataStoreHasSubTrees (
     ensure (t = 0) DataStoreHasTopLayer (
     and_then (mt_read_at C branches n t tree i w) (\<lambda>item.
     and_then
       (while_loop
         (\<lambda>(lem, path, base, width, partial_base, segment_width, segment_shift, j). base + 1 < mt_len C tree)
         (\<lambda>(lem, path, base, width, partial_base, segment_width, segment_shift, j).
           and_then
             (push_cached_siblings (\<lambda>pos. mt_read_at C branches n t tree pos w)
               (\<lambda>pos. mt_read_at (vec_types C) branches 0 0 partial_tree pos w)
               branches data_width cache_index_start base partial_base segment_shift j lem)
             (\<lambda>lem.
           let path = path @ [j mod branches] in
           and_then (usize_add base width) (\<lambda>base.
           and_then (usize_shr width shift) (\<lambda>width.
           and_then (usize_add partial_base segment_width) (\<lambda>partial_base.
           and_then (usize_shr segment_width shift) (\<lambda>segment_width.
           and_then (usize_shr segment_shift shift) (\<lambda>segment_shift.
           and_then (usize_shr j shift) (\<lambda>j.
           Ok (lem, path, base, width, partial_base, segment_width, segment_shift, j)))))))))
         ([item], [], 0, width, 0, segment_width, segment_start, i))
       (\<lambda>(lem, path, base, width, partial_base, segment_width, segment_shift, j).
     let lem = lem @ [mt_root tree] in
     ensure (length lem = lemma_len) InvalidLemmaLength (
     ensure (length path = path_len) InvalidPathLength (
     proof_new branches 0 0 None lem path))))))))))))))))))))))"


section \<open>Cached proofs\<close>

definition gen_cached_base_proof ::
  "('w, 's, 'e, 'a) merkle_types \<Rightarrow> nat \<Rightarrow> nat \<Rightarrow> nat \<Rightarrow> ('s, 'e) merkle_tree \<Rightarrow> nat \<Rightarrow> nat option \<Rightarrow> 'w \<Rightarrow>
     'e inclusion_proof outcome" where
  "gen_cached_base_proof C branches n t tree i rows_to_discard w =
     ensure (i < tree_leafs tree) LeafOutOfBounds (
     and_then (next_pow2 (tree_leafs tree)) (\<lambda>p. ensure (tree_leafs tree = p) NotPow2Tree (
     and_then (get_merkle_tree_len (tree_leafs tree) branches) (\<lambda>total_size.
     and_then (default_rows_to_discard (mt_flog C) (tree_leafs tree) branches) (\<lambda>default_rows.
     let rows_to_discard = (case rows_to_discard of Some rows \<Rightarrow> min rows default_rows | None \<Rightarrow> default_rows) in
     and_then (get_merkle_tree_cache_size (mt_flog C) (tree_leafs tree) branches rows_to_discard) (\<lambda>cache_size.
     ensure (cache_size < total_size) AllDataAvailable (
     and_then (get_merkle_tree_leafs cache_size branches) (\<lambda>cached_leafs.
     and_then (next_pow2 cached_leafs) (\<lambda>p. ensure (cached_leafs = p) CachedLeafsNotPow2 (
     and_then (get_merkle_tree_row_count (mt_flog C) cached_leafs branches) (\<lambda>cache_row_count.
     and_then (usize_sub (tree_row_count tree) cache_row_count) (\<lambda>rows.
     and_then (usize_add rows 1) (\<lambda>partial_row_count.
     and_then (usize_div (tree_leafs tree) cached_leafs) (\<lambda>segment_width.
     and_then (usize_div i segment_width) (\<lambda>segment.
     and_then (usize_mul segment segment_width) (\<lambda>segment_start.
     and_then (usize_add segment_start segment_width) (\<lambda>segment_end.
     and_then (usize_mul segment_width (el_byte_len (mt_E C))) (\<lambda>bytes.
     (case data_store (tree_data tree) of
        None \<Rightarrow> Err StoreDataRequired
      | Some s \<Rightarrow>
          and_then (st_read_range_into (mt_S C) segment_start segment_end (replicate bytes 0) s w) (\<lambda>data_copy.
          and_then (vec_new_from_slice (mt_E C) segment_width data_copy w) (\<lambda>(partial_store, w').
          ensure (vec_len partial_store = segment_width) InconsistentStoreLength (
          and_then (get_merkle_tree_len segment_width branches) (\<lambda>len.
          and_then (usize_mul len (el_byte_len (mt_E C))) (\<lambda>_.
          and_then (build_partial_tree C branches partial_store segment_width partial_row_count w) (\<lambda>partial_tree.
          ensure (partial_row_count = mt_row_count partial_tree) PartialRowCountMismatch (
          gen_proof_with_partial_tree C branches n t tree i rows_to_discard partial_tree w))))))))))))))))))))))))))"

function gen_cached_proof ::
  "('w, 's, 'e, 'a) merkle_types \<Rightarrow> nat \<Rightarrow> nat \<Rightarrow> nat \<Rightarrow> ('s, 'e) merkle_tree \<Rightarrow> nat \<Rightarrow> nat option \<Rightarrow> 'w \<Rightarrow>
     'e inclusion_proof outcome"
and gen_cached_top_tree_proof ::
  "('w, 's, 'e, 'a) merkle_types \<Rightarrow> nat \<Rightarrow> nat \<Rightarrow> nat \<Rightarrow> nat \<Rightarrow> ('s, 'e) merkle_tree \<Rightarrow> nat \<Rightarrow> nat option \<Rightarrow>
     'w \<Rightarrow> 'e inclusion_proof outcome"
and gen_cached_sub_tree_proof ::
  "('w, 's, 'e, 'a) merkle_types \<Rightarrow> nat \<Rightarrow> nat \<Rightarrow> nat \<Rightarrow> nat \<Rightarrow> ('s, 'e) merkle_tree \<Rightarrow> nat \<Rightarrow> nat option \<Rightarrow>
     'w \<Rightarrow> 'e inclusion_proof outcome"
where
  "gen_cached_proof C b n t tree i rows_to_discard w =
     (case tree_data tree of
        TopTree _ \<Rightarrow> gen_cached_top_tree_proof C b n t t tree i rows_to_discard w
      | SubTree _ \<Rightarrow> gen_cached_sub_tree_proof C b n t n tree i rows_to_discard w
      | BaseTree _ \<Rightarrow> gen_cached_base_proof C b n t tree i rows_to_discard w)"
| "gen_cached_top_tree_proof C b n t arity tree i rows_to_discard w =
     ensure (arity \<noteq> 0) InvalidArity (
     ensure (i < tree_leafs tree) LeafOutOfBounds (
     case data_sub_trees (tree_data tree) of
       None \<Rightarrow> Err SubTreesRequired
     | Some trees \<Rightarrow>
         and_then (usize_div (tree_leafs tree) arity) (\<lambda>width.
         and_then (usize_div i width) (\<lambda>tree_index.
         and_then (index_at trees tree_index) (\<lambda>sub.
         and_then (usize_rem i (mt_leafs sub)) (\<lambda>leaf_index.
         and_then (gen_cached_proof C b n 0 sub leaf_index rows_to_discard w) (\<lambda>sub_tree_proof.
         and_then (layer_lemma trees arity tree_index (mt_root tree)) (\<lambda>lem.
         proof_new b t n (Some sub_tree_proof) lem [tree_index]))))))))"
| "gen_cached_sub_tree_proof C b n t arity tree i rows_to_discard w =
     ensure (arity \<noteq> 0) InvalidArity (
     ensure (i < tree_leafs tree) LeafOutOfBounds (
     case data_base_trees (tree_data tree) of
       None \<Rightarrow> Err BaseTreesRequired
     | Some trees \<Rightarrow>
         and_then (usize_div (tree_leafs tree) arity) (\<lambda>width.
         and_then (usize_div i width) (\<lambda>tree_index.
         and_then (index_at trees tree_index) (\<lambda>base.
         and_then (usize_rem i (mt_leafs base)) (\<lambda>leaf_index.
         and_then (gen_cached_proof C b 0 0 base leaf_index rows_to_discard w) (\<lambda>sub_tree_proof.
         and_then (layer_lemma trees arity tree_index (mt_root tree)) (\<lambda>lem.
         proof_new b t n (Some sub_tree_proof) lem [tree_index]))))))))"
  by pat_completeness auto
termination
  by (relation "measure (\<lambda>x. case x of Inl (C, b, n, t, tree, i, rows, w) \<Rightarrow> Suc (2 * size tree)
       | Inr (Inl (C, b, n, t, arity, tree, i, rows, w)) \<Rightarrow> 2 * size tree
       | Inr (Inr (C, b, n, t, arity, tree, i, rows, w)) \<Rightarrow> 2 * size tree)")
    (auto dest!: index_at_size size_data_trees)

declare gen_cached_proof.simps [simp del] gen_cached_top_tree_proof.simps [simp del]
  gen_cached_sub_tree_proof.simps [simp del]

end
