(* ===== verification/Cached_Proof_Correct.thy ===== *)
theory Cached_Proof_Correct
  imports Cached_Proof Gen_Proof_Correct
begin

text \<open>
  \<open>gen_cached_proof\<close> returns the same proof as \<open>gen_proof\<close> on the whole tree, from a store
  in which only the leaves and the cached rows can be read.
\<close>

section \<open>Segments of the rows\<close>

text \<open>
  The rows of the partial tree over segment \<open>q\<close> (of \<open>b ^ R\<close> leaves) are segments of the
  rows of the whole tree.
\<close>

lemma tree_row_segment:
  assumes "0 < b" and "length xs = b ^ k" and "R \<le> k" and "q < b ^ (k - R)" and "t \<le> R"
  shows "tree_row h b (take (b ^ R) (drop (q * b ^ R) xs)) t =
    take (b ^ (R - t)) (drop (q * b ^ (R - t)) (tree_row h b xs t))"
proof -
  let ?pre = "take (q * b ^ R) xs" and ?seg = "take (b ^ R) (drop (q * b ^ R) xs)"
    and ?post = "drop (q * b ^ R + b ^ R) xs"
  have "Suc q * b ^ R \<le> b ^ (k - R) * b ^ R" using assms(4) by (intro mult_le_mono1) simp
  also have "\<dots> = length xs" using assms(2,3) by (simp flip: power_add)
  finally have le: "q * b ^ R + b ^ R \<le> length xs" by simp
  have exp: "b ^ R = b ^ (R - t) * b ^ t" using assms(5) by (simp flip: power_add)
  have pre: "length ?pre = (q * b ^ (R - t)) * b ^ t" using le exp by simp
  have seg: "length ?seg = b ^ (R - t) * b ^ t" using le exp by simp
  have "xs = ?pre @ ?seg @ ?post" by (metis append_take_drop_id drop_drop add.commute)
  then have "tree_row h b xs t = tree_row h b ?pre t @ tree_row h b ?seg t @ tree_row h b ?post t"
    and "length (tree_row h b ?pre t) = q * b ^ (R - t)" and "length (tree_row h b ?seg t) = b ^ (R - t)"
    using tree_row_append [OF assms(1) pre, of h "?seg @ ?post"] tree_row_append [OF assms(1) seg, of h ?post]
    by metis+
  then show ?thesis by simp
qed

lemma tree_row_segment_nth:
  assumes "0 < b" and "length xs = b ^ k" and "R \<le> k" and "q < b ^ (k - R)" and "t \<le> R" and "p < b ^ (R - t)"
  shows "tree_row h b (take (b ^ R) (drop (q * b ^ R) xs)) t ! p = tree_row h b xs t ! (q * b ^ (R - t) + p)"
proof -
  have "Suc q * b ^ (R - t) \<le> b ^ (k - R) * b ^ (R - t)" using assms(4) by (intro mult_le_mono1) simp
  also have "\<dots> = length (tree_row h b xs t)"
    using assms by (simp add: length_tree_row flip: power_add)
  finally have "q * b ^ (R - t) + b ^ (R - t) \<le> length (tree_row h b xs t)" by simp
  then show ?thesis using tree_row_segment [OF assms(1-5), of h] assms(6) by simp
qed

text \<open>The start of row \<open>t\<close> in the partial tree, as the loop computes it (also above the tree).\<close>

definition partial_base :: "nat \<Rightarrow> nat \<Rightarrow> nat \<Rightarrow> nat" where
  "partial_base b R t = (\<Sum>j<t. b ^ R div b ^ j)"

lemma partial_base_Suc: "partial_base b R (Suc t) = partial_base b R t + b ^ R div b ^ t"
  by (simp add: partial_base_def)

lemma partial_base_row_start: "0 < b \<Longrightarrow> t \<le> Suc R \<Longrightarrow> partial_base b R t = row_start b R t"
  by (induction t) (simp_all add: partial_base_Suc partial_base_def power_diff)

lemma partial_base_le:
  assumes "2 \<le> b"
  shows "partial_base b R t \<le> tree_len b R"
proof (induction t)
  case (Suc t)
  show ?case
  proof (cases "t \<le> R")
    case True
    then show ?thesis
      using partial_base_row_start [of b "Suc t" R] row_start_mono [of "Suc t" "Suc R" b R] row_start_total [of b R] assms
      by simp
  next
    case False
    then have "b ^ R < b ^ t" using assms by (intro power_strict_increasing) simp_all
    then show ?thesis using Suc by (simp add: partial_base_Suc)
  qed
qed (simp add: partial_base_def)

lemma usize_shr_arity_power: "m < 64 \<Longrightarrow> usize_shr (x div (2 ^ m) ^ t) m = Ok (x div (2 ^ m) ^ Suc t)"
  by (simp add: div_mult2_eq [symmetric] mult.commute)


section \<open>One row\<close>

lemma push_cached_siblings_Ok:
  assumes "0 < b" and "length row = q * b" and "j < length row" and "base + length row < usize_limit"
    and own: "\<And>k. k < length row \<Longrightarrow> base + k < data_width \<or> cache_index_start \<le> base + k \<Longrightarrow>
      read (base + k) = Ok (row ! k)"
    and partial: "\<And>k. k < length row \<Longrightarrow> k div b = j div b \<Longrightarrow>
      \<not> (base + k < data_width \<or> cache_index_start \<le> base + k) \<Longrightarrow>
      pb + k < usize_limit \<and> shift \<le> pb + k \<and> read_partial (pb + k - shift) = Ok (row ! k)"
  shows "push_cached_siblings read read_partial b data_width cache_index_start base pb shift j lem =
    Ok (lem @ siblings b row j)"
proof -
  let ?hi = "(j div b) * b"
  let ?f = "\<lambda>k lem.
     if k \<noteq> j then
       and_then (usize_add base k) (\<lambda>read_index.
       and_then
         (if read_index < data_width \<or> read_index \<ge> cache_index_start then read read_index
          else
            and_then (usize_add pb k) (\<lambda>pos.
            and_then (usize_sub pos shift) (\<lambda>read_index. read_partial read_index)))
         (\<lambda>x. Ok (lem @ [x])))
     else Ok lem"
  have le: "?hi + b \<le> length row" by (rule child_group_bounds(2) [OF assms(1-3)])
  have grp: "k div b = j div b" if "?hi \<le> k" "k < ?hi + b" for k
    using that assms(1) by (intro div_nat_eqI) (simp_all add: mult.commute)
  have one: "?f k lem = Ok (if k \<noteq> j then lem @ [row ! k] else lem)" if k: "?hi \<le> k" "k < ?hi + b" for k lem
  proof -
    have "k < length row" using k le by simp
    then show ?thesis
      using own [of k] partial [OF _ grp [OF k]] assms(4)
      by (cases "base + k < data_width \<or> cache_index_start \<le> base + k") auto
  qed
  have "for_each ?f [?hi..<?hi + b] lem = Ok (lem @ map (\<lambda>k. row ! k) (filter (\<lambda>k. k \<noteq> j) [?hi..<?hi + b]))"
    by (rule for_each_push) (rule one; simp)
  then show ?thesis
    using le assms(1,2,4) siblings_filter [OF assms(1-3)] by (simp add: push_cached_siblings_def)
qed


section \<open>The whole loop\<close>

text \<open>
  What can be read of the tree: the leaves, the rows from \<open>r + 1\<close> on, and ranges of leaves.
\<close>

definition cached_tree ::
  "('w, 's, 'e, 'a) merkle_types \<Rightarrow> nat \<Rightarrow> nat \<Rightarrow> nat \<Rightarrow> 'e list \<Rightarrow> ('s, 'e) merkle_tree \<Rightarrow> 'w \<Rightarrow> bool" where
  "cached_tree C b k r xs tree w \<longleftrightarrow>
     tree_leafs tree = b ^ k \<and> tree_row_count tree = Suc k \<and>
     mt_root tree = tree_root (node_hash (mt_A C)) b k xs \<and> mt_len C tree = tree_len b k \<and>
     (\<exists>s. tree_data tree = BaseTree s \<and>
       (\<forall>p < tree_len b k. p < b ^ k \<or> row_start b k (Suc r) \<le> p \<longrightarrow>
         st_read_at (mt_S C) p s w = Ok (tree_nodes (node_hash (mt_A C)) b k xs ! p)) \<and>
       (\<forall>a e buf. a < e \<longrightarrow> e \<le> b ^ k \<longrightarrow> length buf = (e - a) * el_byte_len (mt_E C) \<longrightarrow>
         st_read_range_into (mt_S C) a e buf s w =
           Ok (concat (map (el_as_ref (mt_E C)) (take (e - a) (drop a xs))))))"

lemma cached_tree_fields:
  assumes "cached_tree C b k r xs tree w"
  shows "tree_leafs tree = b ^ k" "tree_row_count tree = Suc k"
    and "mt_root tree = tree_root (node_hash (mt_A C)) b k xs" "mt_len C tree = tree_len b k"
    and "p < tree_len b k \<Longrightarrow> p < b ^ k \<or> row_start b k (Suc r) \<le> p \<Longrightarrow>
      mt_read_at C b n t tree p w = Ok (tree_nodes (node_hash (mt_A C)) b k xs ! p)"
  using assms by (auto simp: cached_tree_def mt_read_at.simps)

lemma cached_tree_row:
  assumes "cached_tree C b k r xs tree w" and "length xs = b ^ k" and "0 < b" and "j \<le> k" and "p < b ^ (k - j)"
    and "row_start b k j + p < b ^ k \<or> row_start b k (Suc r) \<le> row_start b k j + p"
  shows "mt_read_at C b n t tree (row_start b k j + p) w = Ok (tree_row (node_hash (mt_A C)) b xs j ! p)"
proof -
  have "row_start b k j + p < tree_len b k" using row_end_le [OF assms(4), of b] assms(5) by linarith
  then show ?thesis
    using cached_tree_fields(5) [OF assms(1), of "row_start b k j + p"] assms(6)
      nth_tree_rows [OF assms(3,2), of j "Suc k" p] assms(4,5) by (simp add: tree_nodes_def)
qed

text \<open>The partial tree over the segment of leaf \<open>i\<close>.\<close>

definition segment :: "nat \<Rightarrow> nat \<Rightarrow> 'e list \<Rightarrow> nat \<Rightarrow> 'e list" where
  "segment b R xs i = take (b ^ R) (drop ((i div b ^ R) * b ^ R) xs)"

lemma segment_facts:
  assumes "0 < b" and "length xs = b ^ k" and "R \<le> k" and "i < b ^ k"
  shows "i div b ^ R < b ^ (k - R)" and "length (segment b R xs i) = b ^ R"
    and "(i div b ^ R) * b ^ R + b ^ R \<le> b ^ k"
proof -
  have kR: "b ^ k = b ^ (k - R) * b ^ R" using assms(3) by (simp flip: power_add)
  then show q: "i div b ^ R < b ^ (k - R)" using assms(4) by (simp add: less_mult_imp_div_less)
  then have "Suc (i div b ^ R) * b ^ R \<le> b ^ (k - R) * b ^ R" by (intro mult_le_mono1) simp
  then show "(i div b ^ R) * b ^ R + b ^ R \<le> b ^ k" using kR by simp
  then show "length (segment b R xs i) = b ^ R" using assms(2) by (simp add: segment_def)
qed

lemma gen_cached_loop:
  assumes tree: "cached_tree C (2 ^ m) k r xs tree w" and xs: "length xs = (2 ^ m) ^ k" and sh: "tree_shape m k"
    and i: "i < (2 ^ m) ^ k" and r: "r < k"
    and partial: "\<And>t p. t \<le> Suc r \<Longrightarrow> p < (2 ^ m) ^ (Suc r - t) \<Longrightarrow>
      read_partial (row_start (2 ^ m) (Suc r) t + p) =
        Ok (tree_row (node_hash (mt_A C)) (2 ^ m) (segment (2 ^ m) (Suc r) xs i) t ! p)"
  defines "S \<equiv> tree_steps (node_hash (mt_A C)) (2 ^ m) xs k i" and "B \<equiv> 2 ^ m :: nat" and "R \<equiv> Suc r"
  shows "\<exists>pb sw ss. while_loop
      (\<lambda>(lem, path, base, width, partial_base, segment_width, segment_shift, j). base + 1 < mt_len C tree)
      (\<lambda>(lem, path, base, width, partial_base, segment_width, segment_shift, j).
        and_then
          (push_cached_siblings (\<lambda>pos. mt_read_at C B n t tree pos w) read_partial
            B (B ^ k) (row_start B k R) base partial_base segment_shift j lem)
          (\<lambda>lem.
        let path = path @ [j mod B] in
        and_then (usize_add base width) (\<lambda>base.
        and_then (usize_shr width m) (\<lambda>width.
        and_then (usize_add partial_base segment_width) (\<lambda>partial_base.
        and_then (usize_shr segment_width m) (\<lambda>segment_width.
        and_then (usize_shr segment_shift m) (\<lambda>segment_shift.
        and_then (usize_shr j m) (\<lambda>j.
        Ok (lem, path, base, width, partial_base, segment_width, segment_shift, j)))))))))
      ([x], [], 0, B ^ k, 0, B ^ R, (i div B ^ R) * B ^ R, i)
    = Ok (x # concat (map snd S), map fst S, row_start B k k, 1, pb, sw, ss, 0)"
    (is "\<exists>pb sw ss. while_loop ?b ?c ?init = _")
proof -
  let ?row = "tree_row (node_hash (mt_A C)) B xs" and ?q = "i div B ^ R"
  let ?f = "\<lambda>t. (x # concat (map snd (take t S)), map fst (take t S), row_start B k t, B ^ (k - t),
    partial_base B R t, B ^ R div B ^ t, (?q * B ^ R) div B ^ t, row_index B i t)"
  have m: "m < 64" and B: "2 \<le> B" using tree_shape_arity(1,2) [OF sh] by (simp_all add: B_def)
  have len: "mt_len C tree = tree_len B k" using cached_tree_fields(4) [OF tree] by (simp add: B_def)
  have word: "tree_len B k < usize_limit" using tree_shape_tree_len [OF sh] by (simp add: B_def)
  have Rk: "R \<le> k" using r by (simp add: R_def)
  have "tree_len B R \<le> tree_len B k" using Rk by (induction k rule: dec_induct) simp_all
  then have pb_word: "partial_base B R t < usize_limit" for t
    using partial_base_le [OF B, of R t] word by linarith
  have step: "?b (?f t) \<and> ?c (?f t) = Ok (?f (Suc t))" if t: "t < k" for t
  proof
    have "row_start B k t + B ^ (k - t) \<le> row_start B k k"
      using row_start_mono [of "Suc t" k B k] t by simp
    moreover have "1 < B ^ (k - t)" using t B by (intro one_less_power) auto
    ultimately show "?b (?f t)" using row_start_last [of B k] len by simp
    have exp: "k - t = Suc (k - Suc t)" using t by simp
    have rowlen: "length (?row t) = B ^ (k - Suc t) * B"
      using length_tree_row [of B xs k t] xs t exp B by (simp add: B_def)
    have j: "row_index B i t < length (?row t)"
      using row_index_less [of B i k t] i t rowlen exp B by (simp add: mult.commute B_def)
    have le: "row_start B k t + length (?row t) \<le> tree_len B k"
      using row_end_le [of t k B] t rowlen exp by (simp add: mult.commute)
    then have rword: "row_start B k t + length (?row t) < usize_limit" using word by linarith
    have push: "push_cached_siblings (\<lambda>pos. mt_read_at C B n ta tree pos w) read_partial B (B ^ k) (row_start B k R)
        (row_start B k t) (partial_base B R t) ((?q * B ^ R) div B ^ t) (row_index B i t) lem =
        Ok (lem @ siblings B (?row t) (row_index B i t))" for lem ta
    proof (rule push_cached_siblings_Ok [OF _ rowlen j rword])
      fix p
      assume p: "p < length (?row t)"
      { assume "row_start B k t + p < B ^ k \<or> row_start B k R \<le> row_start B k t + p"
        then show "mt_read_at C B n ta tree (row_start B k t + p) w = Ok (?row t ! p)"
          using cached_tree_row [OF tree xs] p t rowlen exp by (simp add: B_def R_def mult.commute) }
      assume grp: "p div B = row_index B i t div B"
        and mid: "\<not> (row_start B k t + p < B ^ k \<or> row_start B k R \<le> row_start B k t + p)"
      have "t < R"
      proof (rule ccontr)
        assume "\<not> t < R"
        then have "row_start B k R \<le> row_start B k t" by (intro row_start_mono) simp
        then show False using mid by simp
      qed
      then obtain u where u: "R - t = Suc u" by (cases "R - t") auto
      have BR: "B ^ R = B ^ (R - t) * B ^ t" using \<open>t < R\<close> by (simp flip: power_add)
      have "p div B ^ (R - t) = row_index B i t div B ^ (R - t)"
        using grp by (simp add: u div_mult2_eq)
      also have "\<dots> = ?q" by (simp add: row_index_def BR div_mult2_eq mult.commute)
      finally have pq: "p div B ^ (R - t) = ?q" .
      define p' where "p' = p mod B ^ (R - t)"
      have p_eq: "p = ?q * B ^ (R - t) + p'" using pq by (simp add: p'_def) (metis div_mult_mod_eq)
      have p': "p' < B ^ (R - t)" using B by (simp add: p'_def)
      have shift: "(?q * B ^ R) div B ^ t = ?q * B ^ (R - t)" using B by (simp add: BR mult.assoc [symmetric])
      have pbt: "partial_base B R t = row_start B R t" using \<open>t < R\<close> B by (intro partial_base_row_start) simp_all
      have sum: "partial_base B R t + p = ?q * B ^ (R - t) + (row_start B R t + p')" using p_eq pbt by simp
      have "row_start B R t + p' < tree_len B R"
        using row_end_le [of t R B] \<open>t < R\<close> p' by linarith
      have "row_start B R t \<le> row_start B k t"
      proof -
        have "B ^ (R - s) \<le> B ^ (k - s)" for s using Rk B by (intro power_increasing) simp_all
        then show ?thesis by (induction t) (simp_all add: add_mono)
      qed
      then have "partial_base B R t + p < usize_limit" using p rword pbt by linarith
      moreover have "read_partial (row_start B R t + p') = Ok (?row t ! p)"
      proof -
        have "?q < B ^ (k - R)" using segment_facts(1) [of B xs k R i] B xs i Rk by (simp add: B_def)
        then have "tree_row (node_hash (mt_A C)) B (take (B ^ R) (drop (?q * B ^ R) xs)) t ! p' = ?row t ! p"
          using tree_row_segment_nth [of B xs k R ?q t p'] B xs Rk \<open>t < R\<close> p' p_eq by (simp add: B_def)
        then show ?thesis
          using partial [of t p'] \<open>t < R\<close> p' by (simp add: B_def R_def segment_def)
      qed
      ultimately show "partial_base B R t + p < usize_limit \<and> (?q * B ^ R) div B ^ t \<le> partial_base B R t + p \<and>
          read_partial (partial_base B R t + p - (?q * B ^ R) div B ^ t) = Ok (?row t ! p)"
        using sum shift by simp
    qed (use B in simp)
    have "usize_add (row_start B k t) (B ^ (k - t)) = Ok (row_start B k (Suc t))"
      using rword rowlen exp by (simp add: mult.commute)
    moreover have "usize_shr (B ^ (k - t)) m = Ok (B ^ (k - Suc t))"
      using m arity_div [OF t, of m] by (simp add: B_def)
    moreover have "usize_add (partial_base B R t) (B ^ R div B ^ t) = Ok (partial_base B R (Suc t))"
      using pb_word [of "Suc t"] by (simp add: partial_base_Suc)
    moreover have "usize_shr (B ^ R div B ^ t) m = Ok (B ^ R div B ^ Suc t)"
      "usize_shr ((?q * B ^ R) div B ^ t) m = Ok ((?q * B ^ R) div B ^ Suc t)"
      unfolding B_def by (rule usize_shr_arity_power [OF m])+
    moreover have "usize_shr (row_index B i t) m = Ok (row_index B i (Suc t))"
      using m by (simp add: row_index_Suc B_def)
    moreover have "take (Suc t) S = take t S @ [(row_index B i t mod B, siblings B (?row t) (row_index B i t))]"
      using t by (simp add: S_def take_Suc_conv_app_nth tree_steps_def B_def)
    ultimately show "?c (?f t) = Ok (?f (Suc t))" by (simp add: push Let_def del: usize_shr_Ok power_Suc)
  qed
  have "\<not> ?b (?f k)" using row_start_last [of B k] len by simp
  with step have "while_loop ?b ?c (?f 0) = Ok (?f k)" by (rule while_loop_sequence)
  moreover have "?f 0 = ?init" by (simp add: row_index_def partial_base_def)
  moreover have "?f k = (x # concat (map snd S), map fst S, row_start B k k, 1, partial_base B R k, B ^ R div B ^ k,
      (?q * B ^ R) div B ^ k, 0)"
    using i by (simp add: S_def row_index_def B_def)
  ultimately show ?thesis by auto
qed


section \<open>The proofs\<close>

lemma row_count_any:
  assumes "0 < m" and "2 * (2 ^ m) ^ j < usize_limit" and "rows_exact flog m j"
  shows "get_merkle_tree_row_count flog ((2 ^ m) ^ j) (2 ^ m) = Ok (Suc j)"
proof (cases j)
  case 0
  show ?thesis
  proof (cases "m = 1")
    case True
    then show ?thesis using 0 trailing_zeros_power [of 1] by (simp add: get_merkle_tree_row_count_def)
  next
    case False
    then have "(2 :: nat) ^ m \<noteq> 2" using power_inject_exp [of 2 m 1] by simp
    then show ?thesis using assms(3) False 0 by (simp add: get_merkle_tree_row_count_def rows_exact_def)
  qed
next
  case Suc
  then have "tree_shape m j" using assms by (simp add: tree_shape_def)
  then show ?thesis using assms(3) by (rule row_count_power)
qed

text \<open>The number of rows a cached proof discards, and what a tree must fit for it.\<close>

definition discarded_rows :: "('w, 's, 'e, 'a) merkle_types \<Rightarrow> nat \<Rightarrow> nat \<Rightarrow> nat option \<Rightarrow> nat outcome" where
  "discarded_rows C b k rows =
     and_then (default_rows_to_discard (mt_flog C) (b ^ k) b) (\<lambda>d.
     Ok (case rows of Some r \<Rightarrow> min r d | None \<Rightarrow> d))"

definition cached_fits :: "('w, 's, 'e, 'a) merkle_types \<Rightarrow> nat \<Rightarrow> nat \<Rightarrow> nat \<Rightarrow> bool" where
  "cached_fits C m k r \<longleftrightarrow> tree_fits C m k \<and> r < k \<and> rows_exact (mt_flog C) m (k - Suc r)"

lemma discarded_rows_less:
  assumes "tree_fits C m k"
  shows "\<exists>r < k. discarded_rows C (2 ^ m) k rows = Ok r"
proof -
  obtain d where "d < k" "default_rows_to_discard (mt_flog C) ((2 ^ m) ^ k) (2 ^ m) = Ok d"
    using assms default_rows_ok [of m k] by (auto simp: tree_fits_def)
  then show ?thesis by (auto simp: discarded_rows_def split: option.split)
qed

lemma cached_shape:
  assumes "cached_fits C m k r"
  shows "tree_shape m k" "m \<le> 12" "r < k" "tree_shape m (Suc r)"
    and "tree_len (2 ^ m) (Suc r) * el_byte_len (mt_E C) < isize_limit"
    and "get_merkle_tree_len ((2 ^ m) ^ k) (2 ^ m) = Ok (tree_len (2 ^ m) k)"
    and "get_merkle_tree_len ((2 ^ m) ^ Suc r) (2 ^ m) = Ok (tree_len (2 ^ m) (Suc r))"
    and "get_merkle_tree_cache_size (mt_flog C) ((2 ^ m) ^ k) (2 ^ m) r = Ok (tree_len (2 ^ m) (k - Suc r))"
    and "usize_sub (tree_len (2 ^ m) k) (tree_len (2 ^ m) (k - Suc r)) = Ok (row_start (2 ^ m) k (Suc r))"
    and "tree_len (2 ^ m) (k - Suc r) < tree_len (2 ^ m) k"
    and "get_merkle_tree_leafs (tree_len (2 ^ m) (k - Suc r)) (2 ^ m) = Ok ((2 ^ m) ^ (k - Suc r))"
    and "next_pow2 ((2 ^ m) ^ (k - Suc r)) = Ok ((2 ^ m) ^ (k - Suc r))"
    and "get_merkle_tree_row_count (mt_flog C) ((2 ^ m) ^ (k - Suc r)) (2 ^ m) = Ok (Suc (k - Suc r))"
    and "usize_div ((2 ^ m) ^ k) ((2 ^ m) ^ (k - Suc r)) = Ok ((2 ^ m) ^ Suc r)"
proof -
  let ?b = "2 ^ m :: nat"
  show sh: "tree_shape m k" "m \<le> 12" and r: "r < k"
    using assms by (simp_all add: cached_fits_def tree_fits_def)
  have b: "2 \<le> ?b" using tree_shape_arity(2) [OF sh(1)] .
  have m: "0 < m" "m < 64" using sh by (auto simp: tree_shape_def)
  have exact: "rows_exact (mt_flog C) m k" "rows_exact (mt_flog C) m (k - Suc r)"
    using assms by (simp_all add: cached_fits_def tree_fits_def)
  have le: "?b ^ j \<le> ?b ^ k" if "j \<le> k" for j using that b by (intro power_increasing) simp_all
  have lim: "2 * ?b ^ j < usize_limit" if "j \<le> k" for j
    using le [OF that] sh(1) unfolding tree_shape_def by linarith
  show shR: "tree_shape m (Suc r)" using lim [of "Suc r"] m r by (simp add: tree_shape_def)
  have mono: "tree_len ?b i \<le> tree_len ?b j" if "i \<le> j" for i j using that by (induction j rule: dec_induct) simp_all
  have "tree_len ?b (Suc r) * el_byte_len (mt_E C) \<le> tree_len ?b k * el_byte_len (mt_E C)"
    using mono [of "Suc r" k] r by (intro mult_le_mono1) simp
  then show "tree_len ?b (Suc r) * el_byte_len (mt_E C) < isize_limit"
    using assms unfolding cached_fits_def tree_fits_def by linarith
  show "get_merkle_tree_len (?b ^ k) ?b = Ok (tree_len ?b k)" by (rule tree_len_ok [OF sh(1)])
  show "get_merkle_tree_len (?b ^ Suc r) ?b = Ok (tree_len ?b (Suc r))" by (rule tree_len_ok [OF shR])
  show "get_merkle_tree_cache_size (mt_flog C) (?b ^ k) ?b r = Ok (tree_len ?b (k - Suc r))"
    by (rule cache_size_ok [OF sh(1) exact(1) r])
  have "row_start ?b k (Suc r) \<le> tree_len ?b k"
    using row_start_mono [of "Suc r" "Suc k" ?b k] row_start_total [of ?b k] r by simp
  moreover have above: "tree_len ?b k - row_start ?b k (Suc r) = tree_len ?b (k - Suc r)"
    using rows_above [of r k ?b] r by simp
  moreover have "0 < row_start ?b k (Suc r)"
    using row_start_mono [of 1 "Suc r" ?b k] b by (simp add: Suc_le_eq)
  ultimately show "usize_sub (tree_len ?b k) (tree_len ?b (k - Suc r)) = Ok (row_start ?b k (Suc r))"
    and "tree_len ?b (k - Suc r) < tree_len ?b k"
    by (simp del: row_start.simps, linarith)
  show "get_merkle_tree_leafs (tree_len ?b (k - Suc r)) ?b = Ok (?b ^ (k - Suc r))"
    using leafs_ok [of m "k - Suc r"] m lim [of "k - Suc r"] by simp
  show "next_pow2 (?b ^ (k - Suc r)) = Ok (?b ^ (k - Suc r))"
  proof -
    have "m * (k - Suc r) \<le> m * k" by simp
    then have "m * (k - Suc r) < 64" using tree_shape_exp [OF sh(1)] by linarith
    then show ?thesis by (simp flip: power_mult)
  qed
  show "get_merkle_tree_row_count (mt_flog C) (?b ^ (k - Suc r)) ?b = Ok (Suc (k - Suc r))"
    using row_count_any [OF m(1) lim exact(2)] by simp
  have "?b ^ k = ?b ^ Suc r * ?b ^ (k - Suc r)" using r by (simp only: flip: power_add) simp
  then show "usize_div (?b ^ k) (?b ^ (k - Suc r)) = Ok (?b ^ Suc r)" by (simp add: usize_div_def)
qed

lemma build_partial_tree_Ok:
  assumes el: "element_contract (mt_E C)" and alg: "algorithm_contract (mt_A C)"
    and sh: "tree_shape m R" "m \<le> 12" "tree_len (2 ^ m) R * el_byte_len (mt_E C) < isize_limit"
    and xs: "length xs = (2 ^ m) ^ R"
  shows "\<exists>pt. build_partial_tree C (2 ^ m) xs ((2 ^ m) ^ R) (Suc R) w = Ok pt \<and> mt_row_count pt = Suc R \<and>
    built_tree (vec_types C) (\<lambda>s w. vec_inv (mt_E C) s) (\<lambda>s w. s) (2 ^ m) R xs pt w"
proof -
  let ?b = "2 ^ m :: nat"
  have cap: "tree_len ?b R \<le> vec_capacity (mt_E C)"
    using vec_fits [OF element_contract.byte_len_pos [OF el] sh(3)] .
  have inv: "vec_inv (mt_E C) xs" using cap tree_len_ge [of ?b R] xs by (simp add: vec_inv_def)
  note ts = element_contract.vec_tree_store [OF el]
  have "store_contract.build_result (\<lambda>s w. vec_inv (mt_E C) s) (\<lambda>s w. s) (mt_A C) ?b R xs (Suc R)
      (st_build (vec_store (mt_E C)) (mt_A C) ?b (?b ^ R) (Suc R) None xs w)"
    using tree_store.build_Ok [OF ts inv refl xs sh(1,2) cap] .
  then obtain s' w' where "st_build (vec_store (mt_E C)) (mt_A C) ?b (?b ^ R) (Suc R) None xs w =
      Ok (tree_root (node_hash (mt_A C)) ?b R xs, s', w')"
    and s': "vec_inv (mt_E C) s'" "s' = tree_nodes (node_hash (mt_A C)) ?b R xs"
    by (auto simp: store_contract.build_result_def [OF element_contract.vec_store_contract [OF el]])
  moreover have "is_merkle_tree_size_valid (?b ^ R) ?b = Ok True"
    using size_valid_iff [of m "?b ^ R"] sh by (auto simp: tree_shape_def)
  moreover have "vec_len s' = tree_len ?b R" using s'(2) xs by (simp add: vec_len_def length_tree_nodes)
  ultimately show ?thesis
    using tree_len_ok [OF sh(1)] s' by (simp add: build_partial_tree_def built_tree_def mt_row_count_def)
qed

lemma gen_cached_proof_honest:
  assumes el: "element_contract (mt_E C)" and alg: "algorithm_contract (mt_A C)"
    and fits: "cached_fits C m k r" and rows: "discarded_rows C (2 ^ m) k rows = Ok r"
    and tree: "cached_tree C (2 ^ m) k r xs tree w" and xs: "length xs = (2 ^ m) ^ k" and i: "i < (2 ^ m) ^ k"
  shows "gen_cached_proof C (2 ^ m) 0 0 tree i rows w = Ok (honest_proof (node_hash (mt_A C)) (2 ^ m) k xs i)"
proof -
  let ?b = "2 ^ m :: nat" and ?h = "node_hash (mt_A C)" and ?R = "Suc r"
  let ?seg = "segment ?b ?R xs i" and ?q = "i div ?b ^ ?R"
  note sh = cached_shape [OF fits] and f = cached_tree_fields [OF tree]
  have b: "2 \<le> ?b" using tree_shape_arity(2) [OF sh(1)] .
  have Rk: "?R \<le> k" using sh(3) by simp
  note seg = segment_facts [of ?b xs k ?R i, OF _ xs Rk i]
  have k: "0 < k" using sh(3) by simp
  have lem_len: "length (pf_lemma (honest_proof ?h ?b k xs i)) = 2 + k * (?b - 1)"
    using honest_proof_shape(3) [of ?b xs k i ?h] xs i by simp
  have small: "2 + k * (?b - 1) < usize_limit"
  proof -
    have "?b \<le> 2 ^ 12" using sh(2) by (intro power_increasing) simp_all
    then have "k * (?b - 1) \<le> 64 * 2 ^ 12"
      using tree_shape_rows [OF sh(1)] by (intro mult_le_mono) simp_all
    then show ?thesis by simp
  qed
  have lem: "get_merkle_proof_lemma_len (Suc k) ?b = Ok (2 + k * (?b - 1))"
    using small by (simp add: get_merkle_proof_lemma_len_def mult.commute)
  have new: "proof_new ?b 0 0 None (pf_lemma (honest_proof ?h ?b k xs i)) (pf_path (honest_proof ?h ?b k xs i)) =
      Ok (honest_proof ?h ?b k xs i)"
  proof -
    have "2 < 2 + k * (?b - 1)" using k b by simp
    moreover have "k + 1 < usize_limit" using tree_shape_rows [OF sh(1)] by simp
    ultimately show ?thesis
      using lem_len lem by (simp add: proof_new_def) (simp add: honest_proof_def)
  qed
  obtain pt where pt: "build_partial_tree C ?b ?seg (?b ^ ?R) (Suc ?R) w = Ok pt" "mt_row_count pt = Suc ?R"
    and built: "built_tree (vec_types C) (\<lambda>s w. vec_inv (mt_E C) s) (\<lambda>s w. s) ?b ?R ?seg pt w"
    using build_partial_tree_Ok [OF el alg sh(4,2,5) seg(2)] by auto
  have mb: "merkle_build (vec_types C) (\<lambda>s w. vec_inv (mt_E C) s) (\<lambda>s w. s)
      (\<lambda>s w. vec_capacity (mt_E C)) (\<lambda>w. True) (\<lambda>config w. True)"
    unfolding merkle_build_def vec_types_simps using element_contract.vec_tree_store [OF el] alg by blast
  have partial: "mt_read_at (vec_types C) ?b 0 0 pt (row_start ?b ?R t + p) w = Ok (tree_row ?h ?b ?seg t ! p)"
    if "t \<le> ?R" "p < ?b ^ (?R - t)" for t p
  proof -
    have "p < length (tree_row ?h ?b ?seg t)"
      using length_tree_row [of ?b ?seg ?R t ?h] seg(2) that by (simp del: power_Suc)
    then show ?thesis using merkle_build.built_tree_row [OF mb built seg(2), of t p] that(1) by simp
  qed
  obtain pb sw ss where loop: "while_loop
      (\<lambda>(lem, path, base, width, partial_base, segment_width, segment_shift, j). base + 1 < mt_len C tree)
      (\<lambda>(lem, path, base, width, partial_base, segment_width, segment_shift, j).
        and_then
          (push_cached_siblings (\<lambda>pos. mt_read_at C ?b 0 0 tree pos w)
            (\<lambda>pos. mt_read_at (vec_types C) ?b 0 0 pt pos w)
            ?b (?b ^ k) (row_start ?b k ?R) base partial_base segment_shift j lem)
          (\<lambda>lem.
        let path = path @ [j mod ?b] in
        and_then (usize_add base width) (\<lambda>base.
        and_then (usize_shr width m) (\<lambda>width.
        and_then (usize_add partial_base segment_width) (\<lambda>partial_base.
        and_then (usize_shr segment_width m) (\<lambda>segment_width.
        and_then (usize_shr segment_shift m) (\<lambda>segment_shift.
        and_then (usize_shr j m) (\<lambda>j.
        Ok (lem, path, base, width, partial_base, segment_width, segment_shift, j)))))))))
      ([xs ! i], [], 0, ?b ^ k, 0, ?b ^ ?R, ?q * ?b ^ ?R, i)
    = Ok (xs ! i # concat (map snd (tree_steps ?h ?b xs k i)), map fst (tree_steps ?h ?b xs k i), row_start ?b k k, 1, pb, sw, ss, 0)"
    using gen_cached_loop [OF tree xs sh(1) i sh(3) partial, of 0 0 "xs ! i"] by blast
  have rd: "mt_read_at C ?b 0 0 tree i w = Ok (xs ! i)"
    using cached_tree_row [OF tree xs, of 0 i] i by simp
  have bound: "?q * ?b ^ ?R + ?b ^ ?R < usize_limit"
    using seg(3) sh(1) by (simp add: tree_shape_def)
  have mul: "usize_mul ?q (?b ^ ?R) = Ok (?q * ?b ^ ?R)" using bound by (intro usize_mul_Ok) simp
  have dv: "usize_div i (?b ^ ?R) = Ok ?q" by simp
  have pwp: "gen_proof_with_partial_tree C ?b 0 0 tree i r pt w = Ok (honest_proof ?h ?b k xs i)"
    using tree_shape_facts [OF sh(1)] sh f(1-4) i lem rd new lem_len loop mul dv
    by (simp add: gen_proof_with_partial_tree_def Let_def honest_proof_def del: power_Suc usize_div_Ok usize_mul_Ok)
  obtain s where s: "tree_data tree = BaseTree s"
    and range: "\<And>a e buf. a < e \<Longrightarrow> e \<le> ?b ^ k \<Longrightarrow> length buf = (e - a) * el_byte_len (mt_E C) \<Longrightarrow>
         st_read_range_into (mt_S C) a e buf s w = Ok (concat (map (el_as_ref (mt_E C)) (take (e - a) (drop a xs))))"
    using tree by (auto simp: cached_tree_def)
  have read: "st_read_range_into (mt_S C) (?q * ?b ^ ?R) (?q * ?b ^ ?R + ?b ^ ?R)
      (replicate (?b ^ ?R * el_byte_len (mt_E C)) 0) s w = Ok (concat (map (el_as_ref (mt_E C)) ?seg))"
    using range [of "?q * ?b ^ ?R" "?q * ?b ^ ?R + ?b ^ ?R"] seg(3) by (simp add: segment_def)
  have vec: "vec_new_from_slice (mt_E C) (?b ^ ?R) (concat (map (el_as_ref (mt_E C)) ?seg)) w = Ok (?seg, w)"
    by (rule element_contract.vec_from_slice [OF el]) (use seg(2) in simp)
  have "?b ^ ?R * el_byte_len (mt_E C) \<le> tree_len ?b ?R * el_byte_len (mt_E C)"
    by (intro mult_le_mono1 tree_len_ge)
  then have bytes: "usize_mul (?b ^ ?R) (el_byte_len (mt_E C)) = Ok (?b ^ ?R * el_byte_len (mt_E C))"
    using sh(5) by (intro usize_mul_Ok) linarith
  have rc: "usize_sub (Suc k) (Suc (k - Suc r)) = Ok ?R" "usize_add ?R 1 = Ok (Suc ?R)"
    using sh(3) tree_shape_rows [OF sh(1)] by (simp_all add: usize_add_def)
  have seg_end: "usize_add (?q * ?b ^ ?R) (?b ^ ?R) = Ok (?q * ?b ^ ?R + ?b ^ ?R)"
    using bound by (rule usize_add_Ok)
  have size: "usize_mul (tree_len ?b ?R) (el_byte_len (mt_E C)) = Ok (tree_len ?b ?R * el_byte_len (mt_E C))"
    using sh(5) by (intro usize_mul_Ok) linarith
  obtain d where d: "default_rows_to_discard (mt_flog C) (?b ^ k) ?b = Ok d"
    "(case rows of Some r \<Rightarrow> min r d | None \<Rightarrow> d) = r"
    using rows by (auto simp: discarded_rows_def elim!: and_then_OkE)
  have "gen_cached_base_proof C ?b 0 0 tree i rows w = Ok (honest_proof ?h ?b k xs i)"
    using tree_shape_facts [OF sh(1)] sh f(1,2) i d mul dv bound s read vec bytes size rc seg_end pt pwp seg(2)
    by (simp add: gen_cached_base_proof_def Let_def vec_len_def
        del: power_Suc usize_div_Ok usize_mul_Ok usize_add_Ok tree_len.simps row_start.simps)
  then show ?thesis using s by (simp add: gen_cached_proof.simps)
qed

end
