(* ===== verification/Compaction.thy ===== *)
theory Compaction
  imports Disk_Store_Correct Replica Cached_Proof_Correct
begin

text \<open>
  What compaction leaves behind and how it is read again: \<open>DiskStore::compact\<close> keeps the
  leaves and the cached rows (data version 1) or the cached rows only (version 2) in the file,
  \<open>LevelCacheStore\<close> reads both forms through the indices of the whole tree, the leaves of version
  2 from a replica.
\<close>

section \<open>The place of a store\<close>

text \<open>Writing and building leave the handle, the size and the names alone.\<close>

definition same_place :: "disk_store \<Rightarrow> fs \<Rightarrow> disk_store \<Rightarrow> fs \<Rightarrow> bool" where
  "same_place s w s' w' \<longleftrightarrow>
     ds_file s' = ds_file s \<and> ds_store_size s' = ds_store_size s \<and> fs_names w' = fs_names w"

lemma mapped_process_layer_names:
  assumes "mapped_process_layer io el S f A branches width level read_start write_start s w = Ok w'"
  shows "fs_names w' = fs_names w"
proof -
  have "fs_names w2 = fs_names w"
    if "for_each
       (\<lambda>(chunk_index, pos) w.
         and_then (layer_read_chunk el S A branches width level read_start chunk_index s w) (\<lambda>bytes.
         mapped_write io m n pos bytes w)) ps w = Ok w2" for m n ps w2
    using that by (rule for_each_partial) (auto simp: mapped_write_def elim!: and_then_OkE split: if_splits)
  then show ?thesis
    using assms by (auto simp: mapped_process_layer_def Let_def elim!: and_then_OkE split: if_splits)
qed

lemma ds_copy_same_place:
  "ds_store_copy_from_slice io start bytes s w = Ok (s', w') \<Longrightarrow> same_place s w s' w'"
  by (auto simp: ds_store_copy_from_slice_def same_place_def elim!: and_then_OkE split: if_splits)

lemma ds_build_same_place:
  assumes "ds_build io flog el A branches leafs row_count config s w = Ok (root, s', w')"
  shows "same_place s w s' w'"
proof -
  have "same_place s w s2 w2"
    if "while_loop (\<lambda>(level, width, level_node_index, s, w). width > 1)
         (\<lambda>(level, width, level_node_index, s, w).
           and_then
             (if level = 0 then Ok (0, ds_len s)
              else and_then (usize_add level_node_index width) (\<lambda>next. Ok (level_node_index, next)))
             (\<lambda>(read_start, write_start).
           and_then (ds_process_layer io flog el A branches width level read_start write_start s w) (\<lambda>(s, w).
           and_then (usize_add level_node_index width) (\<lambda>level_node_index.
           and_then (usize_shr width shift) (\<lambda>width.
           and_then (usize_add (ds_len s) width) (\<lambda>len.
           Ok (level + 1, width, level_node_index, ds_set_len len s, w)))))))
         (0, leafs, 0, s, w) = Ok (level, width, lni, s2, w2)" for shift level width lni s2 w2
  proof -
    let ?I = "\<lambda>t. same_place s w (fst (snd (snd (snd t)))) (snd (snd (snd (snd t))))"
    have "?I (level, width, lni, s2, w2) \<and> \<not> (\<lambda>(level, width, lni, s, w). width > 1) (level, width, lni, s2, w2)"
      using that
      by (rule while_loop_partial [where I = ?I])
        (auto simp: same_place_def ds_process_layer_def ds_set_len_def dest!: mapped_process_layer_names
          elim!: and_then_OkE split: if_splits)
    then show ?thesis by simp
  qed
  then show ?thesis
    using assms by (auto simp: ds_build_def Let_def elim!: and_then_OkE split: if_splits)
qed


section \<open>Compacting a DiskStore\<close>

definition disk_types ::
  "file_io \<Rightarrow> (nat \<Rightarrow> nat \<Rightarrow> nat) \<Rightarrow> 'e element \<Rightarrow> ('a, 'e) algorithm \<Rightarrow> (fs, disk_store, 'e, 'a) merkle_types" where
  "disk_types io flog el A = \<lparr>mt_E = el, mt_A = A, mt_S = disk_store io flog el, mt_flog = flog\<rparr>"

lemma disk_types_simps [simp]:
  "mt_E (disk_types io flog el A) = el" "mt_A (disk_types io flog el A) = A"
  "mt_S (disk_types io flog el A) = disk_store io flog el" "mt_flog (disk_types io flog el A) = flog"
  by (simp_all add: disk_types_def)

text \<open>The cached rows: what is above the discarded ones.\<close>

definition cached_rows :: "(nat \<Rightarrow> 'e list \<Rightarrow> 'e) \<Rightarrow> nat \<Rightarrow> nat \<Rightarrow> nat \<Rightarrow> 'e list \<Rightarrow> 'e list" where
  "cached_rows h b k r xs = drop (row_start b k (Suc r)) (tree_nodes h b k xs)"

text \<open>The file of a built tree: its nodes and nothing else, under the configuration's name.\<close>

definition disk_tree ::
  "'e element \<Rightarrow> (nat \<Rightarrow> 'e list \<Rightarrow> 'e) \<Rightarrow> nat \<Rightarrow> nat \<Rightarrow> 'e list \<Rightarrow> store_config \<Rightarrow> disk_store \<Rightarrow> fs \<Rightarrow> bool" where
  "disk_tree el h b k xs config s w \<longleftrightarrow>
     ds_inv el s w \<and> ds_elems el s w = tree_nodes h b k xs \<and> length xs = b ^ k \<and>
     ds_store_size s = tree_len b k * el_byte_len el \<and>
     fs_names w (data_path (sc_path config) (sc_id config)) = Some (ds_file s)"

text \<open>What the sizes of a compaction rely on.\<close>

definition compact_fits :: "(nat \<Rightarrow> nat \<Rightarrow> nat) \<Rightarrow> nat \<Rightarrow> nat \<Rightarrow> nat \<Rightarrow> bool" where
  "compact_fits flog m k r \<longleftrightarrow> tree_shape m k \<and> r < k \<and> rows_exact flog m k"

lemma compact_sizes:
  assumes "compact_fits flog m k r"
  shows "get_merkle_tree_leafs (tree_len (2 ^ m) k) (2 ^ m) = Ok ((2 ^ m) ^ k)"
    and "get_merkle_tree_cache_size flog ((2 ^ m) ^ k) (2 ^ m) r = Ok (tree_len (2 ^ m) (k - Suc r))"
    and "row_start (2 ^ m) k (Suc r) + tree_len (2 ^ m) (k - Suc r) = tree_len (2 ^ m) k"
    and "(2 ^ m) ^ k \<le> row_start (2 ^ m) k (Suc r)" and "2 \<le> (2 ^ m :: nat)"
    and "next_pow2 ((2 ^ m) ^ k) = Ok ((2 ^ m) ^ k)"
proof -
  have sh: "tree_shape m k" "r < k" "rows_exact flog m k" using assms by (simp_all add: compact_fits_def)
  then show "get_merkle_tree_leafs (tree_len (2 ^ m) k) (2 ^ m) = Ok ((2 ^ m) ^ k)"
    using leafs_ok [of m k] tree_shape_exp [OF sh(1)] tree_shape_arity(1) [OF sh(1)] by (simp add: tree_shape_def)
  show "get_merkle_tree_cache_size flog ((2 ^ m) ^ k) (2 ^ m) r = Ok (tree_len (2 ^ m) (k - Suc r))"
    by (rule cache_size_ok [OF sh(1,3,2)])
  have "row_start (2 ^ m) k (Suc r) \<le> tree_len (2 ^ m) k"
    using row_start_mono [of "Suc r" "Suc k" "2 ^ m" k] row_start_total [of "2 ^ m" k] sh(2) by simp
  then show "row_start (2 ^ m) k (Suc r) + tree_len (2 ^ m) (k - Suc r) = tree_len (2 ^ m) k"
    using rows_above [of r k "2 ^ m"] sh(2) by (simp del: row_start.simps)
  show "(2 ^ m) ^ k \<le> row_start (2 ^ m) k (Suc r)" using row_start_mono [of 1 "Suc r" "2 ^ m" k] by simp
  show "2 \<le> (2 ^ m :: nat)" using tree_shape_arity(2) [OF sh(1)] .
  show "next_pow2 ((2 ^ m) ^ k) = Ok ((2 ^ m) ^ k)" using tree_shape_leafs_pow2 [OF sh(1)] .
qed

lemma length_cached_rows:
  assumes "compact_fits flog m k r" and "length xs = (2 ^ m) ^ k"
  shows "length (cached_rows h (2 ^ m) k r xs) = tree_len (2 ^ m) (k - Suc r)"
  using compact_sizes(3) [OF assms(1)] assms(2)
  by (simp add: cached_rows_def length_tree_nodes del: row_start.simps)

lemma take_tree_nodes: "length xs = b ^ k \<Longrightarrow> take (b ^ k) (tree_nodes h b k xs) = xs"
proof -
  assume xs: "length xs = b ^ k"
  have "tree_rows h b xs (Suc n) = xs @ drop (length xs) (tree_rows h b xs (Suc n))" for n
    by (induction n) simp_all
  from this [of k] show ?thesis using xs unfolding tree_nodes_def by (metis append_eq_conv_conj)
qed

context mapped_layer
begin

lemma disk_tree_data:
  assumes "disk_tree el h b k xs config s w" and "0 < b"
  shows "fs_data w (ds_file s) = encode (tree_nodes h b k xs)" and "ds_len s = tree_len b k"
proof -
  let ?D = "fs_data w (ds_file s)"
  have s: "ds_inv el s w" "ds_elems el s w = tree_nodes h b k xs" "length xs = b ^ k"
    "ds_store_size s = tree_len b k * el_byte_len el"
    using assms(1) by (simp_all add: disk_tree_def)
  note f = ds_inv_facts [OF s(1)]
  show len: "ds_len s = tree_len b k"
    using ds_length_elems [OF s(1)] s(2,3) assms(2) by (simp add: length_tree_nodes)
  have n: "length (decode_elements el ?D) = tree_len b k"
    using f(4) s(4) byte_len_pos by (simp add: ds_capacity_def)
  then have nodes: "decode_elements el ?D = tree_nodes h b k xs"
    using s(2) len by (simp add: ds_elems_def)
  obtain rest where D: "?D = encode (decode_elements el ?D) @ rest" by (rule buffer_split)
  have "length ?D = tree_len b k * el_byte_len el" using f(3) s(4) by simp
  then have "rest = []" using D n length_concat_as_ref [of "decode_elements el ?D"] by (metis append_Nil2 append_eq_append_conv)
  then show "?D = encode (tree_nodes h b k xs)" using D nodes by simp
qed

text \<open>A constructor with a configuration gives such a file.\<close>

lemma built_disk_tree:
  assumes fits: "tree_fits (disk_types io flog el A) m k" and fresh: "ds_fresh config w"
    and alg: "algorithm_contract A" and xs: "length xs = (2 ^ m) ^ k"
  shows "\<exists>s w'. from_byte_slice_with_config (disk_types io flog el A) (2 ^ m) (encode xs) config w =
      Ok (base_tree s ((2 ^ m) ^ k) (tree_len (2 ^ m) k) (Suc k) (tree_root (node_hash A) (2 ^ m) k xs), w') \<and>
    disk_tree el (node_hash A) (2 ^ m) k xs config s w'"
proof -
  let ?C = "disk_types io flog el A" and ?b = "2 ^ m :: nat"
  let ?path = "data_path (sc_path config) (sc_id config)"
  have n: "tree_len ?b k * el_byte_len el < isize_limit" using fits by (simp add: tree_fits_def)
  obtain s1 w1 where new: "ds_new_with_config el (tree_len ?b k) ?b config w = Ok (s1, w1)"
    "ds_inv el s1 w1" "ds_elems el s1 w1 = []" "tree_len ?b k \<le> ds_capacity el s1 w1" "\<not> ds_loaded_from_disk s1"
    "fs_names w1 ?path = Some (ds_file s1)"
    using ds_new_with_config_Ok [OF fresh n] by blast
  have size1: "ds_store_size s1 = tree_len ?b k * el_byte_len el"
    using new(1) fresh by (auto simp: ds_new_with_config_def ds_fresh_def Let_def usize_mul_def mult.commute elim!: and_then_OkE split: if_splits)
  obtain w2 where copy: "ds_store_copy_from_slice io 0 (encode xs) s1 w1 = Ok (s1, w2)"
    "ds_inv el (s1\<lparr>ds_len := length xs\<rparr>) w2" "ds_elems el (s1\<lparr>ds_len := length xs\<rparr>) w2 = xs"
    "ds_capacity el (s1\<lparr>ds_len := length xs\<rparr>) w2 = ds_capacity el s1 w1"
    using ds_populate_Ok [OF new(2,3), of xs] new(4) tree_len_ge [of ?b k] xs by auto
  let ?s = "s1\<lparr>ds_len := length xs\<rparr>"
  have slice: "ds_new_from_slice_with_config io el (tree_len ?b k) ?b (encode xs) config w = Ok (?s, w2)"
    using new copy(1) ds_inv_facts(1) [OF new(2)] byte_len_pos
    by (simp add: ds_new_from_slice_with_config_def length_concat_mod length_concat_div)
  have shape: "tree_shape m k" "m \<le> 12" using fits by (simp_all add: tree_fits_def)
  have "store_contract.build_result (ds_inv el) (ds_elems el) A ?b k xs (Suc k)
      (ds_build io flog el A ?b (?b ^ k) (Suc k) (Some config) ?s w2)"
    using new(4) copy(4) by (intro ds_build_result copy shape xs) simp
  then obtain s3 w3 where build: "ds_build io flog el A ?b (?b ^ k) (Suc k) (Some config) ?s w2 =
      Ok (tree_root (node_hash A) ?b k xs, s3, w3)"
    "ds_inv el s3 w3" "ds_elems el s3 w3 = tree_nodes (node_hash A) ?b k xs"
    by (auto simp: store_contract.build_result_def [OF ds_store_contract])
  have "disk_tree el (node_hash A) ?b k xs config s3 w3"
    using ds_copy_same_place [OF copy(1)] ds_build_same_place [OF build(1)] build(2,3) new(6) size1 xs
    by (simp add: disk_tree_def same_place_def)
  moreover have "1 < ?b ^ k" using tree_fits_facts(1) [OF fits] .
  ultimately show ?thesis
    using tree_fits_facts [OF fits] slice build(1) byte_len_pos xs
    by (auto simp: from_byte_slice_with_config_def Let_def length_concat_mod length_concat_div)
qed

text \<open>Moving the cached rows to position \<open>q\<close> and cutting the file behind them.\<close>

lemma move_rows:
  assumes "fs_data w f = encode nodes" and "q \<le> p" and "p \<le> length nodes"
    and "length (encode nodes) < isize_limit"
  shows "\<exists>w1. fs_copy f (p * el_byte_len el) f (q * el_byte_len el) w = Ok ((length nodes - p) * el_byte_len el, w1) \<and>
    fs_set_len f (q * el_byte_len el + (length nodes - p) * el_byte_len el) w1 =
      Ok (fs_put f (encode (take q nodes @ drop p nodes)) w)"
proof -
  let ?bl = "el_byte_len el" and ?D = "encode nodes"
  have le: "q * ?bl \<le> p * ?bl" "p * ?bl \<le> length nodes * ?bl" using assms(2,3) by (auto intro: mult_le_mono1)
  have len: "length ?D = length nodes * ?bl" by (rule length_concat_as_ref)
  have drop: "drop (p * ?bl) ?D = encode (drop p nodes)" by (rule drop_as_ref)
  have "fs_copy f (p * ?bl) f (q * ?bl) w =
      Ok (length ?D - p * ?bl, fs_put f (overwrite (q * ?bl) (encode (drop p nodes)) ?D) w)"
    using fs_copy_down [of "q * ?bl" "p * ?bl" w f] le len assms(1) drop by simp
  moreover have n: "length ?D - p * ?bl = (length nodes - p) * ?bl" using len by (simp add: diff_mult_distrib)
  moreover have "fs_set_len f (q * ?bl + (length nodes - p) * ?bl)
      (fs_put f (overwrite (q * ?bl) (encode (drop p nodes)) ?D) w) = Ok (fs_put f (encode (take q nodes @ drop p nodes)) w)"
  proof -
    have "q * ?bl + (length nodes - p) * ?bl \<le> length ?D" using le len unfolding diff_mult_distrib by linarith
    moreover have "length (encode (drop p nodes)) = (length nodes - p) * ?bl" by (simp add: length_concat_as_ref)
    moreover have "take (q * ?bl) ?D = encode (take q nodes)" by (rule take_as_ref)
    moreover have "length (encode (take q nodes)) = q * ?bl" using assms(2,3) by (simp add: length_concat_as_ref)
    ultimately show ?thesis
      using assms(4) by (simp add: fs_set_len_def overwrite_def Let_def length_overwrite)
  qed
  ultimately show ?thesis by auto
qed

lemma ds_compact_Ok:
  fixes version :: nat
  assumes tree: "disk_tree el h (2 ^ m) k xs config s w"
    and fits: "compact_fits flog m k (sc_rows_to_discard config)"
  defines "q \<equiv> if version = 1 then (2 ^ m) ^ k else 0"
    and "upper \<equiv> cached_rows h (2 ^ m) k (sc_rows_to_discard config) xs"
  shows "ds_compact flog (2 ^ m) config version s w =
    Ok (True, s\<lparr>ds_len := q + length upper\<rparr>, fs_put (ds_file s) (encode (take q xs @ upper)) w)"
proof -
  let ?b = "2 ^ m :: nat" and ?bl = "el_byte_len el" and ?r = "sc_rows_to_discard config"
  let ?nodes = "tree_nodes h ?b k xs" and ?p = "row_start ?b k (Suc ?r)" and ?c = "tree_len ?b (k - Suc ?r)"
  note size = compact_sizes [OF fits]
  have b: "0 < ?b" by simp
  have s: "ds_inv el s w" "length xs = ?b ^ k" "ds_store_size s = tree_len ?b k * ?bl"
    "fs_names w (data_path (sc_path config) (sc_id config)) = Some (ds_file s)"
    using tree by (simp_all add: disk_tree_def)
  note f = ds_inv_facts [OF s(1)]
  note data = disk_tree_data [OF tree b]
  have nodes: "length ?nodes = tree_len ?b k" using s(2) by (simp add: length_tree_nodes)
  have upper: "length upper = ?c" unfolding upper_def by (rule length_cached_rows [OF fits s(2)])
  have "0 < ?p" using size(4) by (rule less_le_trans [rotated]) simp
  then have c: "?c < tree_len ?b k" "0 < ?c" using size(3) by (linarith, simp)
  have cap: "ds_capacity el s w = tree_len ?b k" using s(3) byte_len_pos by (simp add: ds_capacity_def)
  have mul: "usize_mul (?b ^ k) ?bl = Ok (?b ^ k * ?bl)" "usize_mul ?c ?bl = Ok (?c * ?bl)"
    "usize_mul (tree_len ?b k) ?bl = Ok (tree_len ?b k * ?bl)"
    using f(9) [unfolded cap] tree_len_ge [of ?b k] c(1) by simp_all
  have lt: "?c * ?bl < tree_len ?b k * ?bl" "?c * ?bl \<noteq> 0" using c byte_len_pos by simp_all
  have start: "tree_len ?b k * ?bl - ?c * ?bl = ?p * ?bl" "length ?nodes - ?p = ?c"
    unfolding size(3) [symmetric] nodes by (simp_all flip: diff_mult_distrib del: row_start.simps)
  have q: "q \<le> ?p" "q \<le> ?b ^ k" using size(4) by (simp_all add: q_def)
  have new: "q + ?c \<le> tree_len ?b k" using q size(3) by linarith
  have add: "usize_add (?b ^ k * ?bl) (?c * ?bl) = Ok (?b ^ k * ?bl + ?c * ?bl)" if "version = 1"
    using f(6) [unfolded cap] f(8) [unfolded cap, of "?b ^ k + ?c"] new that by (intro usize_add_Ok) (simp add: q_def distrib_right)
  have "?p \<le> length ?nodes" using size(3) nodes by linarith
  moreover have "length (encode ?nodes) < isize_limit" using s(1) data(1) by (simp add: ds_inv_def)
  ultimately obtain w1 where copy: "fs_copy (ds_file s) (?p * ?bl) (ds_file s) (q * ?bl) w = Ok (?c * ?bl, w1)"
    and cut: "fs_set_len (ds_file s) (q * ?bl + ?c * ?bl) w1 =
      Ok (fs_put (ds_file s) (encode (take q ?nodes @ drop ?p ?nodes)) w)"
    using move_rows [OF data(1) q(1)] start(2) by auto
  have "take q ?nodes = take q xs"
    using take_tree_nodes [OF s(2), of h] q(2) by (metis min.absorb1 take_take)
  then have cut': "fs_set_len (ds_file s) (q * ?bl + ?c * ?bl) w1 = Ok (fs_put (ds_file s) (encode (take q xs @ upper)) w)"
    using cut by (simp add: upper_def cached_rows_def del: row_start.simps)
  have len: "(q * ?bl + ?c * ?bl) div ?bl = q + ?c"
    using byte_len_pos by (simp flip: distrib_right)
  have len_mul: "usize_mul (q + ?c) ?bl = Ok ((q + ?c) * ?bl)" using f(9) [unfolded cap, OF new] .
  have meta: "fs_metadata_len (ds_file s) (fs_put (ds_file s) (encode (take q xs @ upper)) w) = (q + ?c) * ?bl"
    using s(2) q(2) upper by (simp add: fs_metadata_len_def length_concat_as_ref distrib_right)
  have same: "s\<lparr>ds_file := ds_file s\<rparr> = s" by simp
  show ?thesis
  proof (cases "version = 1")
    case True
    then have "q = ?b ^ k" by (simp add: q_def)
    with True show ?thesis
      using size(1,2) data(2) mul lt f(1) byte_len_pos s(3,4) start copy cut' add len len_mul meta upper
      by (simp add: ds_compact_def Let_def fs_open_def ds_sync_def fs_sync_all_def del: row_start.simps tree_len.simps usize_add_Ok usize_mul_Ok)
  next
    case False
    then have "q = 0" by (simp add: q_def)
    with False show ?thesis
      using size(1,2) data(2) mul lt f(1) byte_len_pos s(3,4) start copy cut' len len_mul meta upper
      by (simp add: ds_compact_def Let_def fs_open_def ds_sync_def fs_sync_all_def del: row_start.simps tree_len.simps usize_add_Ok usize_mul_Ok)
  qed
qed

end

end
