(* ===== verification/Level_Cache_Correct.thy ===== *)
theory Level_Cache_Correct
  imports Compaction
begin

text \<open>
  A \<open>LevelCacheStore\<close> over a compacted file gives the elements of the whole tree at the leaves
  and in the cached rows, and so every proof.
\<close>

section \<open>Reading\<close>

definition lc_cached ::
  "'e element \<Rightarrow> (nat \<Rightarrow> 'e list \<Rightarrow> 'e) \<Rightarrow> nat \<Rightarrow> nat \<Rightarrow> nat \<Rightarrow> 'e list \<Rightarrow> 'r level_cache \<Rightarrow> fs \<Rightarrow> bool" where
  "lc_cached el h b k r xs s w \<longleftrightarrow>
     lc_len s = tree_len b k \<and> lc_elem_len s = el_byte_len el \<and> lc_data_width s = b ^ k \<and>
     lc_cache_index_start s = row_start b k (Suc r) * el_byte_len el \<and> length xs = b ^ k \<and>
     tree_len b k * el_byte_len el < isize_limit \<and>
     (case lc_reader s of
        None \<Rightarrow> fs_data w (lc_file s) = concat (map (el_as_ref el) (xs @ cached_rows h b k r xs))
      | Some reader \<Rightarrow>
          er_serves reader (concat (map (el_as_ref el) xs)) w \<and>
          fs_data w (lc_file s) = concat (map (el_as_ref el) (cached_rows h b k r xs)))"

text \<open>The start of the cached rows, above the leaves.\<close>

lemma cached_start:
  assumes "r < k" and "0 < b"
  shows "b ^ k \<le> row_start b k (Suc r)" and "row_start b k (Suc r) \<le> tree_len b k"
  using row_start_mono [of 1 "Suc r" b k] row_start_mono [of "Suc r" "Suc k" b k] row_start_total [of b k] assms
  by (simp_all del: row_start.simps add: row_start.simps(1) One_nat_def) (metis One_nat_def add_0 diff_zero row_start.simps)

context mapped_layer
begin

lemma encode_range:
  assumes "a + n \<le> length es"
  shows "take (n * el_byte_len el) (drop (a * el_byte_len el) (encode es)) = encode (take n (drop a es))"
  by (simp only: drop_as_ref take_as_ref)

lemma lc_word:
  assumes "lc_cached el h b k r xs s w" and "n \<le> tree_len b k"
  shows "usize_mul n (el_byte_len el) = Ok (n * el_byte_len el)" and "n * el_byte_len el \<le> tree_len b k * el_byte_len el"
    and "n * el_byte_len el < isize_limit"
proof -
  show le: "n * el_byte_len el \<le> tree_len b k * el_byte_len el" using assms(2) by (rule mult_le_mono1)
  then show lt: "n * el_byte_len el < isize_limit" using assms(1) unfolding lc_cached_def by linarith
  then show "usize_mul n (el_byte_len el) = Ok (n * el_byte_len el)" by (intro usize_mul_Ok) simp
qed

text \<open>One lemma for all reads: a range in the leaves or in the cached rows.\<close>

lemma lc_read_Ok:
  assumes s: "lc_cached el h b k r xs s w" and r: "r < k" and b: "0 < b"
    and ab: "a < e" "e \<le> tree_len b k" and within: "e \<le> b ^ k \<or> row_start b k (Suc r) \<le> a"
    and buf: "length buf = (e - a) * el_byte_len el"
  defines "bytes \<equiv> encode (take (e - a) (drop a (tree_nodes h b k xs)))"
  shows "lc_check_range (a * el_byte_len el) (e * el_byte_len el) s = Ok ()"
    and "lc_store_read_range io (a * el_byte_len el) (e * el_byte_len el) s w = Ok bytes"
    and "lc_store_read_into io (a * el_byte_len el) (e * el_byte_len el) buf s w = Ok bytes"
proof -
  let ?bl = "el_byte_len el" and ?S = "row_start b k (Suc r)" and ?nodes = "tree_nodes h b k xs"
  note st = cached_start [OF r b]
  have f: "lc_len s = tree_len b k" "lc_elem_len s = ?bl" "lc_data_width s = b ^ k"
    "lc_cache_index_start s = ?S * ?bl" "length xs = b ^ k" "tree_len b k * ?bl < isize_limit"
    using s by (simp_all add: lc_cached_def)
  have mul: "usize_mul (tree_len b k) ?bl = Ok (tree_len b k * ?bl)" "usize_mul (b ^ k) ?bl = Ok (b ^ k * ?bl)"
    using lc_word(1) [OF s] tree_len_ge [of b k] by simp_all
  have "a * ?bl < e * ?bl" using ab(1) byte_len_pos by simp
  moreover have "e * ?bl \<le> tree_len b k * ?bl" using ab(2) by (rule mult_le_mono1)
  ultimately have ranges: "a * ?bl < tree_len b k * ?bl" "e * ?bl \<le> tree_len b k * ?bl" "a * ?bl \<le> e * ?bl" by linarith+
  have len: "e * ?bl - a * ?bl = (e - a) * ?bl" by (simp add: diff_mult_distrib)
  have leaf: "a * ?bl < b ^ k * ?bl \<longleftrightarrow> a < b ^ k" using byte_len_pos by simp
  have cached: "?S * ?bl \<le> a * ?bl \<longleftrightarrow> ?S \<le> a" using byte_len_pos by simp
  have ok: "lc_in_bounds (a * ?bl) s = Ok True"
    using within ab(1) f(2-4) mul leaf cached by (auto simp: lc_in_bounds_def)
  then show "lc_check_range (a * ?bl) (e * ?bl) s = Ok ()"
    using f(1,2) mul ranges by (simp add: lc_check_range_def del: power_Suc row_start.simps)
  have nodes: "length ?nodes = tree_len b k" using f(5) b by (simp add: length_tree_nodes)
  have in_leaves: "take (e - a) (drop a xs) = take (e - a) (drop a ?nodes)" if "e \<le> b ^ k"
  proof -
    have "take (e - a) (drop a xs) = take (e - a) (drop a (take (b ^ k) ?nodes))"
      using arg_cong [OF take_tree_nodes [OF f(5), of h], of "\<lambda>ys. take (e - a) (drop a ys)"] by (rule sym)
    also have "\<dots> = take (e - a) (drop a ?nodes)" using that by (simp add: drop_take min_def)
    finally show ?thesis .
  qed
  let ?up = "cached_rows h b k r xs"
  have up: "length ?up = tree_len b k - ?S" using nodes by (simp add: cached_rows_def del: row_start.simps)
  have in_up: "take (e - a) (drop (a - ?S) ?up) = take (e - a) (drop a ?nodes)" if "?S \<le> a"
    using that by (simp add: cached_rows_def del: row_start.simps)
  have direct: "\<exists>adj. lc_adjusted_start (a * ?bl) s = Ok adj \<and>
      io_read_exact_at io adj ((e - a) * ?bl) (fs_data w (lc_file s)) = Ok bytes"
    if "\<not> (a < b ^ k \<and> lc_reader s \<noteq> None)"
  proof (cases "?S \<le> a")
    case True
    have diff: "a * ?bl - ?S * ?bl = (a - ?S) * ?bl" by (simp add: diff_mult_distrib)
    show ?thesis
    proof (cases "lc_reader s")
      case None
      then have D: "fs_data w (lc_file s) = encode (xs @ ?up)" using s by (simp add: lc_cached_def del: map_append concat_append)
      have fits: "(b ^ k + (a - ?S)) + (e - a) \<le> length (xs @ ?up)" using True ab up f(5) by simp
      have "b ^ k + (a - ?S) \<le> tree_len b k" using True ab st(1) by linarith
      then have "usize_add ((a - ?S) * ?bl) (b ^ k * ?bl) = Ok ((b ^ k + (a - ?S)) * ?bl)"
        using lc_word(3) [OF s, of "b ^ k + (a - ?S)"] by (subst usize_add_Ok) (simp_all add: distrib_right add.commute)
      moreover have "io_read_exact_at io ((b ^ k + (a - ?S)) * ?bl) ((e - a) * ?bl) (encode (xs @ ?up)) = Ok bytes"
      proof -
        have "((b ^ k + (a - ?S)) + (e - a)) * ?bl \<le> length (xs @ ?up) * ?bl" using fits by (rule mult_le_mono1)
        then have "io_read_exact_at io ((b ^ k + (a - ?S)) * ?bl) ((e - a) * ?bl) (encode (xs @ ?up)) =
            Ok (take ((e - a) * ?bl) (drop ((b ^ k + (a - ?S)) * ?bl) (encode (xs @ ?up))))"
          unfolding distrib_right length_concat_as_ref [symmetric] by (intro read_exact_at_Ok)
        also have "take ((e - a) * ?bl) (drop ((b ^ k + (a - ?S)) * ?bl) (encode (xs @ ?up))) =
            encode (take (e - a) (drop (b ^ k + (a - ?S)) (xs @ ?up)))"
          by (rule encode_range [OF fits])
        also have "take (e - a) (drop (b ^ k + (a - ?S)) (xs @ ?up)) = take (e - a) (drop a ?nodes)"
          using f(5) in_up [OF True] by simp
        finally show ?thesis by (simp add: bytes_def)
      qed
      ultimately show ?thesis
        using True None D f(2-4) mul cached diff by (simp add: lc_adjusted_start_def del: row_start.simps map_append concat_append)
    next
      case (Some rd)
      then have D: "fs_data w (lc_file s) = encode ?up" using s by (simp add: lc_cached_def)
      have fits: "(a - ?S) + (e - a) \<le> length ?up" using True ab up by simp
      then have "((a - ?S) + (e - a)) * ?bl \<le> length ?up * ?bl" by (rule mult_le_mono1)
      then have "io_read_exact_at io ((a - ?S) * ?bl) ((e - a) * ?bl) (encode ?up) =
          Ok (take ((e - a) * ?bl) (drop ((a - ?S) * ?bl) (encode ?up)))"
        unfolding distrib_right length_concat_as_ref [symmetric] by (intro read_exact_at_Ok)
      then have "io_read_exact_at io ((a - ?S) * ?bl) ((e - a) * ?bl) (encode ?up) = Ok bytes"
        using encode_range [OF fits] in_up [OF True] by (simp add: bytes_def)
      then show ?thesis using True Some D f(4) cached diff by (simp add: lc_adjusted_start_def del: row_start.simps)
    qed
  next
    case False
    then have e: "e \<le> b ^ k" "a < b ^ k" using within ab(1) by auto
    then have None: "lc_reader s = None" using that by simp
    then have D: "fs_data w (lc_file s) = encode (xs @ ?up)" using s by (simp add: lc_cached_def del: map_append concat_append)
    have fits: "a + (e - a) \<le> length (xs @ ?up)" using e ab f(5) by simp
    then have "(a + (e - a)) * ?bl \<le> length (xs @ ?up) * ?bl" by (rule mult_le_mono1)
    then have "io_read_exact_at io (a * ?bl) ((e - a) * ?bl) (encode (xs @ ?up)) =
        Ok (take ((e - a) * ?bl) (drop (a * ?bl) (encode (xs @ ?up))))"
      unfolding distrib_right length_concat_as_ref [symmetric] by (intro read_exact_at_Ok)
    also have "take ((e - a) * ?bl) (drop (a * ?bl) (encode (xs @ ?up))) = encode (take (e - a) (drop a (xs @ ?up)))"
      by (rule encode_range [OF fits])
    also have "take (e - a) (drop a (xs @ ?up)) = take (e - a) (drop a ?nodes)"
      using in_leaves [OF e(1)] e f(5) by simp
    finally show ?thesis
      using False None D f(4) cached by (simp add: bytes_def lc_adjusted_start_def del: row_start.simps map_append concat_append)
  qed
  have reader: "er_read rd (a * ?bl) (e * ?bl) buf' w = Ok (bytes, (e - a) * ?bl)"
    if "a < b ^ k" "lc_reader s = Some rd" "length buf' = (e - a) * ?bl" for rd buf'
  proof -
    have e: "e \<le> b ^ k" using within that(1) st(1) by auto
    have "e * ?bl \<le> length (encode xs)" using e f(5) by (simp add: length_concat_as_ref)
    moreover have "er_serves rd (encode xs) w" using s that(2) by (simp add: lc_cached_def)
    ultimately have "er_read rd (a * ?bl) (e * ?bl) buf' w = Ok (take (e * ?bl - a * ?bl) (drop (a * ?bl) (encode xs)), e * ?bl - a * ?bl)"
      using ranges(3) that(3) len unfolding er_serves_def by metis
    moreover have "take ((e - a) * ?bl) (drop (a * ?bl) (encode xs)) = bytes"
      using encode_range [of a "e - a" xs] in_leaves [OF e] e ab(1) f(5) by (simp add: bytes_def)
    ultimately show ?thesis using len by simp
  qed
  show "lc_store_read_range io (a * ?bl) (e * ?bl) s w = Ok bytes"
  proof (cases "a < b ^ k \<and> lc_reader s \<noteq> None")
    case True
    then show ?thesis
      using ok ranges(3) f(2,3) mul(2) leaf len reader by (auto simp: lc_store_read_range_def)
  next
    case False
    then show ?thesis
      using direct [OF False] ok ranges(3) f(2,3) mul(2) leaf len by (auto simp: lc_store_read_range_def)
  qed
  show "lc_store_read_into io (a * ?bl) (e * ?bl) buf s w = Ok bytes"
  proof (cases "a < b ^ k \<and> lc_reader s \<noteq> None")
    case True
    then show ?thesis
      using ok f(2,3) mul(2) leaf reader buf by (auto simp: lc_store_read_into_def)
  next
    case False
    then show ?thesis
      using direct [OF False] ok f(2,3) mul(2) leaf buf by (auto simp: lc_store_read_into_def)
  qed
qed

lemma lc_read_at_Ok:
  assumes s: "lc_cached el h b k r xs s w" and r: "r < k" and b: "0 < b"
    and p: "p < tree_len b k" "p < b ^ k \<or> row_start b k (Suc r) \<le> p"
  shows "lc_read_at io el p s w = Ok (tree_nodes h b k xs ! p)"
proof -
  let ?bl = "el_byte_len el"
  have f: "lc_elem_len s = ?bl" "length xs = b ^ k" using s by (simp_all add: lc_cached_def)
  have "Suc p \<le> tree_len b k" "Suc p \<le> b ^ k \<or> row_start b k (Suc r) \<le> p" using p by auto
  note rd = lc_read_Ok [OF s r b lessI this length_replicate]
  have nodes: "length (tree_nodes h b k xs) = tree_len b k" using f(2) b by (simp add: length_tree_nodes)
  have one: "encode (take (Suc p - p) (drop p (tree_nodes h b k xs))) = el_as_ref el (tree_nodes h b k xs ! p)"
    using p(1) nodes by (simp add: take_Suc_conv_app_nth Cons_nth_drop_Suc [symmetric])
  have "usize_mul p ?bl = Ok (p * ?bl)" using lc_word(1) [OF s, of p] p(1) by simp
  moreover have "usize_add (p * ?bl) ?bl = Ok (Suc p * ?bl)"
    using lc_word(3) [OF s, of "Suc p"] p(1) by (subst usize_add_Ok) (simp_all add: add.commute)
  ultimately show ?thesis
    using rd(1,2) f(1) unfolding one
    by (simp add: lc_read_at_def from_slice_as_ref del: mult_Suc)
qed

lemma lc_read_range_into_Ok:
  assumes s: "lc_cached el h b k r xs s w" and r: "r < k" and b: "0 < b"
    and ae: "a < e" "e \<le> b ^ k" and buf: "length buf = (e - a) * el_byte_len el"
  shows "lc_read_range_into io a e buf s w = Ok (encode (take (e - a) (drop a xs)))"
proof -
  let ?nodes = "tree_nodes h b k xs"
  have f: "lc_elem_len s = el_byte_len el" "length xs = b ^ k" using s by (simp_all add: lc_cached_def)
  have e: "e \<le> tree_len b k" using ae(2) tree_len_ge [of b k] by linarith
  note rd = lc_read_Ok [OF s r b ae(1) e disjI1 [OF ae(2)] buf]
  have "take (e - a) (drop a ?nodes) = take (e - a) (drop a (take (b ^ k) ?nodes))"
    using ae by (simp add: drop_take min_def)
  then have "take (e - a) (drop a ?nodes) = take (e - a) (drop a xs)"
    using take_tree_nodes [OF f(2), of h] by metis
  then show ?thesis
    using rd(1,3) f(1) lc_word(1) [OF s, of a] lc_word(1) [OF s, of e] ae(1) e by (simp add: lc_read_range_into_def)
qed

text \<open>The tree over such a store.\<close>

lemma lc_cached_tree:
  assumes "lc_cached el (node_hash A) b k r xs s w" and "r < k" and "0 < b"
  shows "cached_tree (lc_types io flog el A) b k r xs
    (base_tree s (b ^ k) (tree_len b k) (Suc k) (tree_root (node_hash A) b k xs)) w"
  using assms lc_read_at_Ok [OF assms] lc_read_range_into_Ok [OF assms]
  by (simp add: cached_tree_def base_tree_def mt_root_def mt_len_def lc_cached_def del: row_start.simps)

lemma lc_from_data_store:
  assumes s: "lc_cached el (node_hash A) (2 ^ m) k r xs s w" and r: "r < k"
    and fits: "tree_fits (lc_types io flog el A :: (fs, 'r level_cache, 'e, 'a) merkle_types) m k"
  shows "from_data_store (lc_types io flog el A) (2 ^ m) 0 0 s ((2 ^ m) ^ k) w =
    Ok (base_tree s ((2 ^ m) ^ k) (tree_len (2 ^ m) k) (Suc k) (tree_root (node_hash A) (2 ^ m) k xs))"
proof -
  let ?b = "2 ^ m :: nat"
  have b: "0 < ?b" by simp
  have len: "lc_len s = tree_len ?b k" "length xs = ?b ^ k" using s by (simp_all add: lc_cached_def)
  have "row_start ?b k (Suc r) \<le> row_start ?b k k" using r by (intro row_start_mono) simp
  then have last: "row_start ?b k (Suc r) \<le> tree_len ?b k - 1" using row_start_last [of ?b k] by linarith
  have "lc_read_at io el (tree_len ?b k - 1) s w = Ok (tree_nodes (node_hash A) ?b k xs ! (tree_len ?b k - 1))"
    using last tree_len_pos [of ?b k] by (intro lc_read_at_Ok [OF s r b]) (simp_all del: row_start.simps)
  also have "tree_nodes (node_hash A) ?b k xs ! (tree_len ?b k - 1) = tree_root (node_hash A) ?b k xs"
    using nth_tree_nodes_root [of ?b xs k "node_hash A"] len(2) by simp
  finally show ?thesis
    using tree_fits_facts [OF fits] len(1) tree_len_pos [of ?b k] by (simp add: from_data_store_def Suc_le_eq)
qed


section \<open>Opening a compacted file\<close>

lemma lc_sizes:
  assumes "compact_fits flog m k (sc_rows_to_discard config)"
    and "tree_len (2 ^ m) k * el_byte_len el < isize_limit"
  defines "r \<equiv> sc_rows_to_discard config"
  shows "lc_leafs (tree_len (2 ^ m) k) (2 ^ m) = Ok ((2 ^ m) ^ k)"
    and "lc_cache_bytes flog el ((2 ^ m) ^ k) (2 ^ m) config = Ok (tree_len (2 ^ m) (k - Suc r) * el_byte_len el)"
    and "usize_mul (tree_len (2 ^ m) k) (el_byte_len el) = Ok (tree_len (2 ^ m) k * el_byte_len el)"
    and "usize_sub (tree_len (2 ^ m) k * el_byte_len el) (tree_len (2 ^ m) (k - Suc r) * el_byte_len el) =
      Ok (row_start (2 ^ m) k (Suc r) * el_byte_len el)"
    and "usize_div (tree_len (2 ^ m) k * el_byte_len el) (el_byte_len el) = Ok (tree_len (2 ^ m) k)"
proof -
  let ?b = "2 ^ m :: nat" and ?bl = "el_byte_len el" and ?c = "tree_len (2 ^ m) (k - Suc r)"
  note size = compact_sizes [OF assms(1), folded r_def]
  show "lc_leafs (tree_len ?b k) ?b = Ok (?b ^ k)" using size(1,6) by (simp add: lc_leafs_def)
  have "?c \<le> tree_len ?b k" using size(3) by linarith
  then have le: "?c * ?bl \<le> tree_len ?b k * ?bl" by (rule mult_le_mono1)
  then have "?c * ?bl < usize_limit" using assms(2) by linarith
  then show "lc_cache_bytes flog el (?b ^ k) ?b config = Ok (?c * ?bl)"
    using size(2) by (simp add: lc_cache_bytes_def r_def)
  show "usize_mul (tree_len ?b k) ?bl = Ok (tree_len ?b k * ?bl)" using assms(2) by (intro usize_mul_Ok) simp
  have "tree_len ?b k * ?bl - ?c * ?bl = row_start ?b k (Suc r) * ?bl"
    unfolding size(3) [symmetric] distrib_right by simp
  then show "usize_sub (tree_len ?b k * ?bl) (?c * ?bl) = Ok (row_start ?b k (Suc r) * ?bl)"
    using le by (simp del: row_start.simps)
  show "usize_div (tree_len ?b k * ?bl) ?bl = Ok (tree_len ?b k)" using byte_len_pos by simp
qed

lemma lc_open:
  assumes fits: "compact_fits flog m k (sc_rows_to_discard config)"
    and bytes: "tree_len (2 ^ m) k * el_byte_len el < isize_limit" and xs: "length xs = (2 ^ m) ^ k"
    and name: "fs_names w (data_path (sc_path config) (sc_id config)) = Some f"
  defines "r \<equiv> sc_rows_to_discard config"
  shows "fs_data w f = encode (cached_rows h (2 ^ m) k r xs) \<Longrightarrow> er_serves reader (encode xs) w \<Longrightarrow>
      \<exists>s. lc_new_from_disk_with_reader flog el (tree_len (2 ^ m) k) (2 ^ m) config reader w = Ok (s, w) \<and>
        lc_cached el h (2 ^ m) k r xs s w"
    and "fs_data w f = encode (xs @ cached_rows h (2 ^ m) k r xs) \<Longrightarrow>
      \<exists>s. lc_new_from_disk flog el (tree_len (2 ^ m) k) (2 ^ m) config w = Ok (s, w) \<and>
        lc_cached el h (2 ^ m) k r xs s w"
proof -
  note size = lc_sizes [OF fits bytes, folded r_def]
  have up: "length (cached_rows h (2 ^ m) k r xs) = tree_len (2 ^ m) (k - Suc r)"
    using length_cached_rows [OF fits xs] by (simp add: r_def)
  show "\<exists>s. lc_new_from_disk_with_reader flog el (tree_len (2 ^ m) k) (2 ^ m) config reader w = Ok (s, w) \<and>
        lc_cached el h (2 ^ m) k r xs s w"
    if "fs_data w f = encode (cached_rows h (2 ^ m) k r xs)" "er_serves reader (encode xs) w"
    using that size name up xs bytes
    by (simp add: lc_new_from_disk_with_reader_def fs_open_def fs_metadata_len_def length_concat_as_ref lc_cached_def
        del: row_start.simps tree_len.simps)
  show "\<exists>s. lc_new_from_disk flog el (tree_len (2 ^ m) k) (2 ^ m) config w = Ok (s, w) \<and>
        lc_cached el h (2 ^ m) k r xs s w"
    if "fs_data w f = encode (xs @ cached_rows h (2 ^ m) k r xs)"
    using that size name xs bytes
    by (simp add: lc_new_from_disk_def fs_open_def fs_metadata_len_def lc_cached_def Let_def
        del: row_start.simps tree_len.simps)
qed

end

end
