(* ===== verification/Level_Cache_Build.thy ===== *)
theory Level_Cache_Build
  imports Level_Cache_Correct
begin

text \<open>
  \<open>LevelCacheStore::build\<close>: while the rows that are not cached are built, each is cut off the
  front of the file as soon as the next one is there, so the file ends with the cached rows only.
\<close>

section \<open>The file during the build\<close>

text \<open>
  The number of elements cut off before row \<open>t\<close> is hashed, and what the file holds then: the
  rows up to \<open>t\<close> that are left, followed by room for the others.
\<close>

definition cut_off :: "nat \<Rightarrow> nat \<Rightarrow> nat \<Rightarrow> nat \<Rightarrow> nat" where
  "cut_off b k r t = row_start b k (min t (Suc r))"

definition rows_left ::
  "'e element \<Rightarrow> (nat \<Rightarrow> 'e list \<Rightarrow> 'e) \<Rightarrow> nat \<Rightarrow> nat \<Rightarrow> nat \<Rightarrow> 'e list \<Rightarrow> nat \<Rightarrow> byte list \<Rightarrow> bool" where
  "rows_left el h b k r xs t data \<longleftrightarrow>
     length data = (tree_len b k - cut_off b k r t) * el_byte_len el \<and>
     take ((row_start b k (Suc t) - cut_off b k r t) * el_byte_len el) data =
       concat (map (el_as_ref el) (take (row_start b k (Suc t) - cut_off b k r t)
         (drop (cut_off b k r t) (tree_nodes h b k xs))))"

text \<open>A store with the leaves, before the build.\<close>

definition lc_leaves ::
  "'e element \<Rightarrow> nat \<Rightarrow> nat \<Rightarrow> 'e list \<Rightarrow> store_config \<Rightarrow> 'r level_cache \<Rightarrow> fs \<Rightarrow> bool" where
  "lc_leaves el b k xs config s w \<longleftrightarrow>
     lc_elem_len s = el_byte_len el \<and> lc_data_width s = b ^ k \<and> lc_len s = b ^ k \<and> length xs = b ^ k \<and>
     length (fs_data w (lc_file s)) = tree_len b k * el_byte_len el \<and>
     take (b ^ k * el_byte_len el) (fs_data w (lc_file s)) = concat (map (el_as_ref el) xs) \<and>
     fs_names w (data_path (sc_path config) (sc_id config)) = Some (lc_file s)"

text \<open>The loop state before row \<open>t\<close> is hashed.\<close>

definition lc_build_inv ::
  "'e element \<Rightarrow> (nat \<Rightarrow> 'e list \<Rightarrow> 'e) \<Rightarrow> nat \<Rightarrow> nat \<Rightarrow> nat \<Rightarrow> 'e list \<Rightarrow> 'r level_cache \<Rightarrow> fs \<Rightarrow>
     nat \<times> nat \<times> nat \<times> 'r level_cache \<times> fs \<Rightarrow> bool" where
  "lc_build_inv el h b k r xs s w = (\<lambda>(t, width, lni, s', w').
     t \<le> k \<and> width = b ^ (k - t) \<and> lni = row_start b k t \<and>
     s' = s\<lparr>lc_len := if t = 0 then b ^ k else row_start b k t\<rparr> \<and>
     (\<exists>data. w' = fs_put (lc_file s) data w \<and> rows_left el h b k r xs t data))"

lemma cut_off_facts:
  assumes "r < k" and "2 \<le> b" and "t \<le> k"
  shows "cut_off b k r t \<le> row_start b k t" and "cut_off b k r 0 = 0" and "cut_off b k r k = row_start b k (Suc r)"
    and "t \<le> r \<Longrightarrow> cut_off b k r t = row_start b k t" and "r < t \<Longrightarrow> cut_off b k r t = row_start b k (Suc r)"
    and "row_start b k t - cut_off b k r t + b ^ (k - t) \<le> (if t = 0 then b ^ k else row_start b k t)"
    and "row_start b k (Suc t) - cut_off b k r t \<le> b ^ k"
proof -
  show le: "cut_off b k r t \<le> row_start b k t" unfolding cut_off_def by (rule row_start_mono) simp
  show "cut_off b k r 0 = 0" by (simp add: cut_off_def)
  show "cut_off b k r k = row_start b k (Suc r)" using assms(1) by (simp add: cut_off_def min_absorb2 Suc_le_eq del: row_start.simps)
  show low: "t \<le> r \<Longrightarrow> cut_off b k r t = row_start b k t" by (simp add: cut_off_def min_absorb1)
  show high: "r < t \<Longrightarrow> cut_off b k r t = row_start b k (Suc r)"
    by (simp add: cut_off_def min_absorb2 Suc_le_eq del: row_start.simps)
  have width: "b ^ (k - t) \<le> b ^ k" using assms(2) by (intro power_increasing) simp_all
  have first: "b ^ k \<le> row_start b k (Suc j)" for j using row_start_mono [of 1 "Suc j" b k] by simp
  show "row_start b k t - cut_off b k r t + b ^ (k - t) \<le> (if t = 0 then b ^ k else row_start b k t)"
  proof (cases "t \<le> r")
    case True
    then show ?thesis using low width first [of "t - 1"] by (cases t) (simp_all del: row_start.simps(2))
  next
    case False
    then have "b ^ (k - t) \<le> cut_off b k r t" using high width first [of r] by simp
    then show ?thesis using False le by simp
  qed
  show "row_start b k (Suc t) - cut_off b k r t \<le> b ^ k"
  proof (cases "t \<le> r")
    case True
    then show ?thesis using low width by simp
  next
    case False
    have "row_start b k (Suc t) \<le> tree_len b k"
      using row_start_mono [of "Suc t" "Suc k" b k] row_start_total [of b k] assms(3) by simp
    moreover have "tree_len b k - row_start b k (Suc r) = tree_len b (k - Suc r)"
      using rows_above [of r k b] assms(1) by simp
    moreover have "2 * b ^ (k - Suc r) \<le> b * b ^ (k - Suc r)" using assms(2) by (rule mult_le_mono1)
    moreover have "b * b ^ (k - Suc r) \<le> b ^ k"
      using assms(1,2) power_increasing [of "Suc (k - Suc r)" k b] by simp
    ultimately show ?thesis
      using tree_len_bound [OF assms(2), of "k - Suc r"] high False by linarith
  qed
qed

text \<open>The places of row \<open>t\<close> and of the next row in the file.\<close>

lemma row_places:
  assumes "r < k" and "2 \<le> b" and "t < k"
  defines "off \<equiv> cut_off b k r t"
  shows "row_start b k t - off + b ^ (k - t) = row_start b k (Suc t) - off"
    and "row_start b k (Suc t) - off + b ^ (k - Suc t) = row_start b k (Suc (Suc t)) - off"
    and "row_start b k (Suc (Suc t)) - off \<le> tree_len b k - off" and "off \<le> row_start b k t"
    and "cut_off b k r (Suc t) = (if t \<le> r then off + b ^ (k - t) else off)"
proof -
  show le: "off \<le> row_start b k t" unfolding off_def using assms by (intro cut_off_facts(1)) simp_all
  then show "row_start b k t - off + b ^ (k - t) = row_start b k (Suc t) - off"
    "row_start b k (Suc t) - off + b ^ (k - Suc t) = row_start b k (Suc (Suc t)) - off" by simp_all
  have "row_start b k (Suc (Suc t)) \<le> row_start b k (Suc k)" using assms(3) by (intro row_start_mono) simp
  then show "row_start b k (Suc (Suc t)) - off \<le> tree_len b k - off" using row_start_total [of b k] by simp
  show "cut_off b k r (Suc t) = (if t \<le> r then off + b ^ (k - t) else off)"
    by (cases "t \<le> r") (auto simp: off_def cut_off_def min_def le_Suc_eq)
qed

context mapped_layer
begin

section \<open>The internal reads\<close>

lemma lc_read_internal_Ok:
  assumes "lc_elem_len s = el_byte_len el" and "lc_len s * el_byte_len el < usize_limit"
    and "lc_data_width s * el_byte_len el < usize_limit"
    and "a < e" "e \<le> lc_len s" "a \<le> lc_data_width s" and "e * el_byte_len el \<le> length (fs_data w (lc_file s))"
    and es: "take ((e - a) * el_byte_len el) (drop (a * el_byte_len el) (fs_data w (lc_file s))) = encode es"
  shows "lc_read_range_internal io el a e s w = Ok es"
    and "e = Suc a \<Longrightarrow> es = [x] \<Longrightarrow> lc_read_at_internal io el a s w = Ok x"
proof -
  let ?bl = "el_byte_len el"
  have ae: "a * ?bl < e * ?bl" "e * ?bl \<le> lc_len s * ?bl" "a * ?bl \<le> lc_data_width s * ?bl"
    using assms(4-6) byte_len_pos by simp_all
  then have lim: "a * ?bl < usize_limit" "e * ?bl < usize_limit" using assms(2) by linarith+
  have "lc_in_bounds (a * ?bl) s = Ok True" using assms(1,3) ae by (simp add: lc_in_bounds_def)
  then have check: "lc_check_range (a * ?bl) (e * ?bl) s = Ok ()" "lc_in_bounds (a * ?bl) s = Ok True"
    using assms(1,2) ae by (simp_all add: lc_check_range_def)
  have len: "e * ?bl - a * ?bl = (e - a) * ?bl" by (simp add: diff_mult_distrib)
  have "a * ?bl + (e - a) * ?bl = e * ?bl" using ae(1) len by linarith
  then have "io_read_exact_at io (a * ?bl) ((e - a) * ?bl) (fs_data w (lc_file s)) = Ok (encode es)"
    using read_exact_at_Ok [of "a * ?bl" "(e - a) * ?bl" "fs_data w (lc_file s)"] assms(7) es by simp
  then have rd: "lc_store_read_range_internal io (a * ?bl) (e * ?bl) s w = Ok (encode es)"
    using check ae len by (simp add: lc_store_read_range_internal_def)
  have "map_outcome (el_from_slice el) (chunks ?bl (encode es)) = Ok es"
    by (simp only: chunks_concat_as_ref map_from_slice_as_ref)
  then show "lc_read_range_internal io el a e s w = Ok es"
    using rd check lim assms(1) byte_len_pos by (simp add: lc_read_range_internal_def)
  assume e: "e = Suc a" and x: "es = [x]"
  have add: "usize_add (a * ?bl) ?bl = Ok (e * ?bl)" using lim(2) e by (subst usize_add_Ok) (simp_all add: add.commute)
  show "lc_read_at_internal io el a s w = Ok x"
    using rd check lim add assms(1) x by (simp add: lc_read_at_internal_def from_slice_as_ref)
qed


section \<open>One row\<close>

lemma lc_layer:
  assumes r: "r < k" and t: "t < k" and sh: "tree_shape m k" "m \<le> 12" and xs: "length xs = (2 ^ m) ^ k"
    and bytes: "tree_len (2 ^ m) k * el_byte_len el < isize_limit"
    and s: "lc_elem_len s = el_byte_len el" "lc_data_width s = (2 ^ m) ^ k"
      "lc_len s = (if t = 0 then (2 ^ m) ^ k else row_start (2 ^ m) k t)"
    and left: "rows_left el (node_hash A) (2 ^ m) k r xs t (fs_data w (lc_file s))"
  defines "off \<equiv> cut_off (2 ^ m) k r t"
  shows "\<exists>data. lc_process_layer io flog el A (2 ^ m) ((2 ^ m) ^ (k - t)) t (row_start (2 ^ m) k t - off)
      (row_start (2 ^ m) k (Suc t) - off) s w = Ok (s, fs_put (lc_file s) data w) \<and>
    length data = (tree_len (2 ^ m) k - off) * el_byte_len el \<and>
    take ((row_start (2 ^ m) k (Suc (Suc t)) - off) * el_byte_len el) data =
      encode (take (row_start (2 ^ m) k (Suc (Suc t)) - off) (drop off (tree_nodes (node_hash A) (2 ^ m) k xs)))"
proof -
  let ?b = "2 ^ m :: nat" and ?bl = "el_byte_len el" and ?h = "node_hash A"
  let ?nodes = "tree_nodes ?h ?b k xs" and ?row = "tree_row ?h ?b xs t" and ?D = "fs_data w (lc_file s)"
  let ?rs = "row_start ?b k t - off" and ?ws = "row_start ?b k (Suc t) - off" and ?q = "?b ^ (k - Suc t)"
  let ?next = "next_row (node_hash A t) ?b ?row"
  have b: "2 \<le> ?b" "0 < ?b" using tree_shape_arity(2) [OF sh(1)] by simp_all
  note place = row_places [OF r b(1) t, folded off_def]
  have tk: "t \<le> k" using t by simp
  note facts = cut_off_facts [OF r b(1) tk, folded off_def]
  have D: "length ?D = (tree_len ?b k - off) * ?bl" "take (?ws * ?bl) ?D = encode (take ?ws (drop off ?nodes))"
    using left by (simp_all add: rows_left_def off_def)
  have row_len: "length ?row = ?b ^ (k - t)" using xs b t by (simp add: length_tree_row)
  have exp: "k - t = Suc (k - Suc t)" using t by simp
  have row: "length ?row = ?q * ?b" "?row \<noteq> []" using row_len exp b by auto
  have nodes: "length ?nodes = tree_len ?b k" using xs b by (simp add: length_tree_nodes)
  have off_le: "?rs + off = row_start ?b k t" "?ws + off = row_start ?b k (Suc t)" using place(4) by simp_all
  have in_nodes: "take (?b ^ (k - j)) (drop (row_start ?b k j) ?nodes) = tree_row ?h ?b xs j" if "j \<le> k" for j
    unfolding tree_nodes_def using that by (intro row_in_tree_rows [OF b(2) xs]) simp_all
  have lim: "tree_len ?b k * ?bl < usize_limit" using bytes by simp
  have small: "n * ?bl < usize_limit" if "n \<le> tree_len ?b k" for n
    using mult_le_mono1 [OF that, of ?bl] lim by linarith
  have ws_len: "?ws + ?q \<le> tree_len ?b k - off" using place(2,3) by simp
  have reads: "reads_row el ((lc_ops io flog el)\<lparr>st_read_range := lc_read_range_internal io el\<rparr>) (lc_file s) ?rs ?ws ?row s w"
    unfolding reads_row_def
  proof (intro allI impI)
    fix p c data
    assume p: "0 < c" "p + c \<le> length ?row" and data: "length data = length ?D" "take (?ws * ?bl) data = take (?ws * ?bl) ?D"
    let ?e = "?rs + p + c"
    have e: "?e \<le> ?ws" using p(2) row_len place(1) by simp
    have bound: "?e * ?bl \<le> ?ws * ?bl" using e by (rule mult_le_mono1)
    have ce: "?e - (?rs + p) = c" by simp
    have "take (c * ?bl) (drop ((?rs + p) * ?bl) data) = take (c * ?bl) (drop ((?rs + p) * ?bl) (take (?ws * ?bl) data))"
      using bound by (simp add: drop_take min_def distrib_right)
    also have "\<dots> = encode (take c (drop (?rs + p) (take ?ws (drop off ?nodes))))"
      unfolding data(2) D(2) using e nodes ws_len by (intro encode_range) simp
    also have "take c (drop (?rs + p) (take ?ws (drop off ?nodes))) = take c (drop p (take (?b ^ (k - t)) (drop (row_start ?b k t) ?nodes)))"
      using e p(2) row_len off_le by (simp add: drop_take min_def add.commute add.left_commute)
    also have "\<dots> = take c (drop p ?row)" by (simp only: in_nodes [OF tk])
    finally have read: "take ((?e - (?rs + p)) * ?bl) (drop ((?rs + p) * ?bl) data) = encode (take c (drop p ?row))"
      unfolding ce .
    have len: "?e \<le> lc_len s" using facts(6) p(2) row_len s(3) by simp
    moreover have "?rs + p \<le> lc_data_width s" using facts(7) e p(1) s(2) by linarith
    moreover have "lc_len s \<le> tree_len ?b k" using s(3) tree_len_ge [of ?b k] row_start_less [OF tk b(2)] by simp
    moreover have "?e * ?bl \<le> length data"
      using bound mult_le_mono1 [OF ws_len, of ?bl] data(1) D(1) by (simp add: distrib_right)
    ultimately show "st_read_range ((lc_ops io flog el)\<lparr>st_read_range := lc_read_range_internal io el\<rparr>) (?rs + p) ?e s
        (fs_put (lc_file s) data w) = Ok (take c (drop p ?row))"
      using lc_read_internal_Ok(1) [where s = s and a = "?rs + p" and e = ?e and w = "fs_put (lc_file s) data w"]
        s(1,2) small tree_len_ge [of ?b k] p(1) read by simp
  qed
  have fits: "(?ws + ?q) * ?bl \<le> length ?D" unfolding D(1) using ws_len by (rule mult_le_mono1)
  have "?rs + length ?row < usize_limit"
    using tree_shape_tree_len [OF sh(1)] place(1) row_len ws_len by linarith
  moreover have "length ?row \<le> tree_len ?b k" using row_len row_end_le [OF tk, of ?b] by linarith
  ultimately have "mapped_process_layer io el ((lc_ops io flog el)\<lparr>st_read_range := lc_read_range_internal io el\<rparr>) (lc_file s)
      A ?b (length ?row) t ?rs ?ws s w = Ok (fs_put (lc_file s) (overwrite (?ws * ?bl) (encode ?next) ?D) w)"
    using ws_len small by (intro mapped_layer_Ok [OF sh(2) row reads fits]) simp_all
  then have "lc_process_layer io flog el A ?b (?b ^ (k - t)) t ?rs ?ws s w =
      Ok (s, fs_put (lc_file s) (overwrite (?ws * ?bl) (encode ?next) ?D) w)"
    unfolding row_len lc_process_layer_def by simp
  moreover have next_len: "length ?next = ?q" using row(1) b(2) by (intro length_next_row)
  have ws_D: "?ws * ?bl \<le> length ?D" "?ws * ?bl + ?q * ?bl \<le> length ?D" using fits by (simp_all add: distrib_right)
  moreover have "length (overwrite (?ws * ?bl) (encode ?next) ?D) = length ?D"
    using ws_D next_len by (simp add: length_overwrite length_concat_as_ref)
  moreover have "take ((row_start ?b k (Suc (Suc t)) - off) * ?bl) (overwrite (?ws * ?bl) (encode ?next) ?D) =
      encode (take (row_start ?b k (Suc (Suc t)) - off) (drop off ?nodes))"
  proof -
    have "take ((?ws + ?q) * ?bl) (overwrite (?ws * ?bl) (encode ?next) ?D) = take (?ws * ?bl) ?D @ encode ?next"
      using ws_D(1) next_len by (simp add: overwrite_def length_concat_as_ref distrib_right)
    also have "\<dots> = encode (take ?ws (drop off ?nodes) @ ?next)" using D(2) by simp
    also have "take ?ws (drop off ?nodes) @ ?next = take (?ws + ?q) (drop off ?nodes)"
    proof -
      have "?next = take ?q (drop ?ws (drop off ?nodes))"
        using in_nodes [of "Suc t"] t off_le(2) by (simp add: add.commute del: row_start.simps)
      then show ?thesis by (simp only: take_add)
    qed
    finally show ?thesis unfolding place(2) .
  qed
  ultimately show ?thesis using D(1) by (intro exI conjI) (assumption | simp)+
qed

lemma lc_front_truncate_Ok:
  assumes "fs_names w (data_path (sc_path config) (sc_id config)) = Some (lc_file s)"
    and "n * el_byte_len el \<le> length (fs_data w (lc_file s))" and "length (fs_data w (lc_file s)) < isize_limit"
  shows "lc_front_truncate el config n s w =
    Ok (s, fs_put (lc_file s) (drop (n * el_byte_len el) (fs_data w (lc_file s))) w)"
proof -
  let ?D = "fs_data w (lc_file s)" and ?n = "n * el_byte_len el"
  have "usize_mul n (el_byte_len el) = Ok ?n" using assms(2,3) by (intro usize_mul_Ok) simp
  moreover have "fs_copy (lc_file s) ?n (lc_file s) 0 w = Ok (length ?D - ?n, fs_put (lc_file s) (overwrite 0 (drop ?n ?D) ?D) w)"
    using assms(2) by (intro fs_copy_down) simp_all
  moreover have "s\<lparr>lc_file := lc_file s\<rparr> = s" by simp
  ultimately show ?thesis
    using assms by (simp add: lc_front_truncate_def fs_open_def fs_metadata_len_def fs_set_len_def overwrite_def Let_def)
qed


section \<open>The whole build\<close>

lemma lc_build_init:
  assumes "lc_leaves el b k xs config s w"
  shows "lc_build_inv el h b k r xs s w (0, b ^ k, 0, s, w)"
proof -
  have "s\<lparr>lc_len := b ^ k\<rparr> = s" using assms by (simp add: lc_leaves_def)
  moreover have "rows_left el h b k r xs 0 (fs_data w (lc_file s))"
    using assms take_tree_nodes [of xs b k h] by (simp add: rows_left_def lc_leaves_def cut_off_def)
  ultimately show ?thesis
    by (simp add: lc_build_inv_def) (intro exI [of _ "fs_data w (lc_file s)"], simp)
qed

lemma lc_build_step:
  assumes r: "r < k" and sh: "tree_shape m k" "m \<le> 12"
    and bytes: "tree_len (2 ^ m) k * el_byte_len el < isize_limit"
    and leaves: "lc_leaves el (2 ^ m) k xs config s w"
    and I: "lc_build_inv el (node_hash A) (2 ^ m) k r xs s w (t, width, lni, s1, w1)" and width: "width > 1"
  shows "\<exists>u. and_then
      (if t = 0 then Ok (0, lc_len s1)
       else if lni < row_start (2 ^ m) k (Suc r) then Ok (0, width)
       else and_then (usize_add lni width) (\<lambda>next. Ok (lni - row_start (2 ^ m) k (Suc r), next - row_start (2 ^ m) k (Suc r))))
      (\<lambda>(read_start, write_start).
      and_then (lc_process_layer io flog el A (2 ^ m) width t read_start write_start s1 w1) (\<lambda>(s, w).
      and_then (if lni < row_start (2 ^ m) k (Suc r) then lc_front_truncate el config width s w else Ok (s, w)) (\<lambda>(s, w).
      and_then (usize_add lni width) (\<lambda>lni.
      and_then (usize_shr width m) (\<lambda>width.
      Ok (t + 1, width, lni, lc_set_len lni s, w)))))) = Ok u
    \<and> lc_build_inv el (node_hash A) (2 ^ m) k r xs s w u \<and> fst (snd u) < width"
proof -
  let ?b = "2 ^ m :: nat" and ?bl = "el_byte_len el" and ?h = "node_hash A" and ?cis = "row_start (2 ^ m) k (Suc r)"
  let ?nodes = "tree_nodes ?h ?b k xs"
  define off where "off = cut_off ?b k r t"
  have b: "2 \<le> ?b" using tree_shape_arity(2) [OF sh(1)] .
  have m: "m < 64" "0 < m" using sh by (auto simp: tree_shape_def)
  obtain data where *: "t \<le> k" "width = ?b ^ (k - t)" "lni = row_start ?b k t"
    "s1 = s\<lparr>lc_len := if t = 0 then ?b ^ k else row_start ?b k t\<rparr>" "w1 = fs_put (lc_file s) data w"
    "rows_left el ?h ?b k r xs t data"
    using I by (auto simp: lc_build_inv_def)
  have t: "t < k" using width * by (cases "t = k") auto
  have tk: "t \<le> k" using t by simp
  note place = row_places [OF r b t, folded off_def]
  note facts = cut_off_facts [OF r b tk, folded off_def]
  have word: "tree_len ?b k < usize_limit" by (rule tree_shape_tree_len [OF sh(1)])
  have next_le: "row_start ?b k (Suc t) \<le> tree_len ?b k" using row_end_le [OF tk, of ?b] by simp
  have add: "usize_add lni width = Ok (row_start ?b k (Suc t))"
    using * next_le word by (subst usize_add_Ok) simp_all
  have shr: "usize_shr width m = Ok (?b ^ (k - Suc t))" using m arity_div [OF t, of m] *(2) by simp
  have low: "lni < ?cis \<longleftrightarrow> t \<le> r"
  proof
    assume "t \<le> r"
    then have "row_start ?b k (Suc t) \<le> ?cis" by (intro row_start_mono) simp
    moreover have "row_start ?b k t < row_start ?b k (Suc t)" using b by simp
    ultimately show "lni < ?cis" using *(3) by linarith
  next
    assume "lni < ?cis"
    show "t \<le> r"
    proof (rule ccontr)
      assume "\<not> t \<le> r"
      then have "?cis \<le> row_start ?b k t" by (intro row_start_mono) simp
      then show False using \<open>lni < ?cis\<close> *(3) by simp
    qed
  qed
  have starts: "(if t = 0 then Ok (0, lc_len s1) else if lni < ?cis then Ok (0, width)
       else and_then (usize_add lni width) (\<lambda>next. Ok (lni - ?cis, next - ?cis))) =
      Ok (row_start ?b k t - off, row_start ?b k (Suc t) - off)"
  proof (cases "t \<le> r")
    case True
    then show ?thesis using facts(2,4) low * by (cases "t = 0") (simp_all add: off_def)
  next
    case False
    then show ?thesis using facts(5) low add *(3) by (simp del: row_start.simps)
  qed
  have s1: "lc_elem_len s1 = ?bl" "lc_data_width s1 = ?b ^ k" "lc_file s1 = lc_file s"
    "lc_len s1 = (if t = 0 then ?b ^ k else row_start ?b k t)" and xs: "length xs = ?b ^ k"
    using leaves *(4) by (simp_all add: lc_leaves_def)
  have left: "rows_left el ?h ?b k r xs t (fs_data w1 (lc_file s1))" using *(5,6) s1(3) by simp
  obtain data1 where layer: "lc_process_layer io flog el A ?b (?b ^ (k - t)) t (row_start ?b k t - off)
      (row_start ?b k (Suc t) - off) s1 w1 = Ok (s1, fs_put (lc_file s) data1 w1)"
    and data1: "length data1 = (tree_len ?b k - off) * ?bl"
      "take ((row_start ?b k (Suc (Suc t)) - off) * ?bl) data1 =
        encode (take (row_start ?b k (Suc (Suc t)) - off) (drop off ?nodes))"
    using lc_layer [OF r t sh xs bytes s1(1,2,4) left, folded off_def] unfolding s1(3) by blast
  let ?s = "s\<lparr>lc_len := row_start ?b k (Suc t)\<rparr>" and ?q = "if t \<le> r then width else 0"
  have off': "cut_off ?b k r (Suc t) = off + ?q" using place(5) *(2) by simp
  have room: "off + ?q \<le> row_start ?b k (Suc t)" using place(4) *(2) by simp
  have cut: "(if lni < ?cis then lc_front_truncate el config width s1 (fs_put (lc_file s) data1 w1)
      else Ok (s1, fs_put (lc_file s) data1 w1)) = Ok (s1, fs_put (lc_file s) (drop (?q * ?bl) data1) w)"
  proof (cases "t \<le> r")
    case True
    have "width \<le> tree_len ?b k - off" using room next_le True by simp
    then have "width * ?bl \<le> length data1" unfolding data1(1) by (rule mult_le_mono1)
    moreover have "length data1 < isize_limit"
    proof -
      have "(tree_len ?b k - off) * ?bl \<le> tree_len ?b k * ?bl" by (intro mult_le_mono1) simp
      then show ?thesis using data1(1) bytes by linarith
    qed
    ultimately show ?thesis
      using lc_front_truncate_Ok [where w = "fs_put (lc_file s) data1 w1" and config = config and s = s1 and n = width]
        leaves s1(3) *(5) low True by (simp add: lc_leaves_def)
  next
    case False
    then show ?thesis using low *(5) by simp
  qed
  have "rows_left el ?h ?b k r xs (Suc t) (drop (?q * ?bl) data1)"
    unfolding rows_left_def off'
  proof
    show "length (drop (?q * ?bl) data1) = (tree_len ?b k - (off + ?q)) * ?bl"
      unfolding length_drop data1(1) by (simp flip: diff_mult_distrib)
    let ?n = "row_start ?b k (Suc (Suc t)) - off"
    have q: "?q \<le> ?n" using room by simp
    have n: "row_start ?b k (Suc (Suc t)) - (off + ?q) = ?n - ?q" by simp
    have "take ((?n - ?q) * ?bl) (drop (?q * ?bl) data1) = drop (?q * ?bl) (take (?n * ?bl) data1)"
      unfolding drop_take diff_mult_distrib ..
    also have "\<dots> = encode (drop ?q (take ?n (drop off ?nodes)))" unfolding data1(2) by (rule drop_as_ref)
    also have "drop ?q (take ?n (drop off ?nodes)) = take (?n - ?q) (drop (off + ?q) ?nodes)"
      by (simp add: drop_take add.commute)
    finally show "take ((row_start ?b k (Suc (Suc t)) - (off + ?q)) * ?bl) (drop (?q * ?bl) data1) =
        encode (take (row_start ?b k (Suc (Suc t)) - (off + ?q)) (drop (off + ?q) ?nodes))"
      unfolding n .
  qed
  moreover have "lc_set_len (row_start ?b k (Suc t)) s1 = ?s" using *(4) by (simp add: lc_set_len_def del: row_start.simps)
  ultimately have "lc_build_inv el ?h ?b k r xs s w
      (t + 1, ?b ^ (k - Suc t), row_start ?b k (Suc t), lc_set_len (row_start ?b k (Suc t)) s1,
       fs_put (lc_file s) (drop (?q * ?bl) data1) w)"
    using t by (auto simp: lc_build_inv_def simp del: row_start.simps)
  moreover have "?b ^ (k - Suc t) < width"
    unfolding *(2) using t m by (intro power_strict_increasing) simp_all
  ultimately show ?thesis
    using starts layer cut add shr *(2)
    by (intro exI [of _ "(t + 1, ?b ^ (k - Suc t), row_start ?b k (Suc t), lc_set_len (row_start ?b k (Suc t)) s1,
       fs_put (lc_file s) (drop (?q * ?bl) data1) w)"] conjI) (simp_all del: row_start.simps)
qed

lemma lc_build_Ok:
  assumes fits: "compact_fits flog m k (sc_rows_to_discard config)" "m \<le> 12"
    and bytes: "tree_len (2 ^ m) k * el_byte_len el < isize_limit"
    and leaves: "lc_leaves el (2 ^ m) k xs config s w"
  shows "lc_build io flog el A (2 ^ m) ((2 ^ m) ^ k) (Suc k) (Some config) s w =
    Ok (tree_root (node_hash A) (2 ^ m) k xs, s\<lparr>lc_len := tree_len (2 ^ m) k\<rparr>,
      fs_put (lc_file s) (encode (cached_rows (node_hash A) (2 ^ m) k (sc_rows_to_discard config) xs)) w)"
proof -
  let ?b = "2 ^ m :: nat" and ?r = "sc_rows_to_discard config" and ?h = "node_hash A" and ?bl = "el_byte_len el"
  let ?cis = "row_start ?b k (Suc ?r)" and ?up = "cached_rows ?h ?b k ?r xs"
  have sh: "tree_shape m k" and r: "?r < k" using fits(1) by (simp_all add: compact_fits_def)
  note size = compact_sizes [OF fits(1)]
  let ?I = "lc_build_inv el ?h ?b k ?r xs s w"
  let ?c = "\<lambda>(level, width, level_node_index, s, w).
     and_then
       (if level = 0 then Ok (0, lc_len s)
        else if level_node_index < ?cis then Ok (0, width)
        else and_then (usize_add level_node_index width) (\<lambda>next. Ok (level_node_index - ?cis, next - ?cis)))
       (\<lambda>(read_start, write_start).
     and_then (lc_process_layer io flog el A ?b width level read_start write_start s w) (\<lambda>(s, w).
     and_then (if level_node_index < ?cis then lc_front_truncate el config width s w else Ok (s, w)) (\<lambda>(s, w).
     and_then (usize_add level_node_index width) (\<lambda>level_node_index.
     and_then (usize_shr width m) (\<lambda>width.
     Ok (level + 1, width, level_node_index, lc_set_len level_node_index s, w))))))"
  let ?w = "\<lambda>(level :: nat, width :: nat, level_node_index :: nat, s :: 'r level_cache, w :: fs). width > 1"
  have "\<exists>t. while_loop ?w ?c (0, ?b ^ k, 0, s, w) = Ok t \<and> ?I t \<and> \<not> ?w t"
  proof (rule while_loop_total [where m = "\<lambda>t. fst (snd t)"])
    show "?I (0, ?b ^ k, 0, s, w)" by (rule lc_build_init [OF leaves])
    fix t
    assume "?I t" and "?w t"
    moreover obtain level width lni s1 w1 where t: "t = (level, width, lni, s1, w1)" by (cases t) auto
    ultimately show "\<exists>u. ?c t = Ok u \<and> ?I u \<and> fst (snd u) < fst (snd t)"
      using lc_build_step [OF r sh fits(2) bytes leaves, of A level width lni s1 w1 flog] by simp
  qed
  then obtain level width lni s1 w1 where
    loop: "while_loop ?w ?c (0, ?b ^ k, 0, s, w) = Ok (level, width, lni, s1, w1)"
    and fin: "?I (level, width, lni, s1, w1)" and stop: "\<not> width > 1" by auto
  have b: "2 \<le> ?b" by (rule size(5))
  have k: "level = k"
  proof (rule ccontr)
    assume "level \<noteq> k"
    then have "0 < k - level" using fin by (auto simp: lc_build_inv_def)
    moreover have "1 < ?b" using b by linarith
    ultimately have "1 < ?b ^ (k - level)" by (rule one_less_power [rotated])
    then show False using fin stop by (auto simp: lc_build_inv_def)
  qed
  then obtain data where s1: "s1 = s\<lparr>lc_len := row_start ?b k k\<rparr>" and w1: "w1 = fs_put (lc_file s) data w"
    and left: "rows_left el ?h ?b k ?r xs k data"
    using fin r by (auto simp: lc_build_inv_def)
  have xs: "length xs = ?b ^ k" using leaves by (simp add: lc_leaves_def)
  have nodes: "length (tree_nodes ?h ?b k xs) = tree_len ?b k" using xs by (simp add: length_tree_nodes)
  have up: "length ?up = tree_len ?b (k - Suc ?r)" by (rule length_cached_rows [OF fits(1) xs])
  have "cut_off ?b k ?r k = ?cis" by (rule cut_off_facts(3) [OF r b order_refl])
  then have "length data = (tree_len ?b k - ?cis) * ?bl"
    "take ((tree_len ?b k - ?cis) * ?bl) data = encode (take (tree_len ?b k - ?cis) (drop ?cis (tree_nodes ?h ?b k xs)))"
    using left unfolding rows_left_def row_start_total by simp_all
  moreover have "take (tree_len ?b k - ?cis) (drop ?cis (tree_nodes ?h ?b k xs)) = ?up"
    using nodes by (simp add: cached_rows_def del: row_start.simps)
  ultimately have data: "data = encode ?up" by simp
  let ?n = "tree_len ?b (k - Suc ?r)" and ?s = "s\<lparr>lc_len := tree_len ?b k\<rparr>" and ?w2 = "fs_put (lc_file s) (encode ?up) w"
  have n0: "0 < ?n" by simp
  have "?n - 1 \<le> ?b ^ k"
  proof -
    have "?b ^ (k - Suc ?r) * 2 \<le> ?b ^ (k - Suc ?r) * ?b" using b by simp
    also have "\<dots> \<le> ?b ^ k"
    proof -
      have "?b ^ Suc (k - Suc ?r) \<le> ?b ^ k" using r by (intro power_increasing) simp_all
      then show ?thesis by (simp add: mult.commute)
    qed
    finally show ?thesis using tree_len_bound [OF b, of "k - Suc ?r"] by linarith
  qed
  moreover have "drop (?n - 1) ?up = [tree_root ?h ?b k xs]"
  proof -
    have "?n - 1 + ?cis = tree_len ?b k - 1" using size(3) n0 by linarith
    then have "drop (?n - 1) ?up = drop (tree_len ?b k - 1) (tree_nodes ?h ?b k xs)"
      unfolding cached_rows_def drop_drop by (rule arg_cong)
    also have "\<dots> = [tree_root ?h ?b k xs]"
      using nodes tree_len_pos [of ?b k] nth_tree_nodes_root [of ?b xs k ?h] xs
      by (simp add: Cons_nth_drop_Suc [symmetric])
    finally show ?thesis .
  qed
  ultimately have at: "?n - 1 \<le> ?b ^ k" and top: "drop (?n - 1) ?up = [tree_root ?h ?b k xs]" by blast+
  have root: "lc_read_at_internal io el (?n - 1) ?s ?w2 = Ok (tree_root ?h ?b k xs)"
  proof (rule lc_read_internal_Ok(2) [where e = ?n and es = "[tree_root ?h ?b k xs]"])
    have "?b ^ k * ?bl \<le> tree_len ?b k * ?bl" using tree_len_ge by (rule mult_le_mono1)
    then have "?b ^ k * ?bl < usize_limit" using bytes by linarith
    then show "lc_data_width ?s * el_byte_len el < usize_limit"
      using leaves by (simp add: lc_leaves_def)
    have one: "?n - (?n - 1) = 1" using n0 by linarith
    have full: "length (encode ?up) = ?n * ?bl" using up by (simp add: length_concat_as_ref)
    have "take ((?n - (?n - 1)) * ?bl) (drop ((?n - 1) * ?bl) (encode ?up)) = take ?bl (encode (drop (?n - 1) ?up))"
      unfolding one by (simp add: drop_as_ref)
    also have "\<dots> = encode [tree_root ?h ?b k xs]" unfolding top by (simp add: as_ref_length)
    finally show "take ((?n - (?n - 1)) * ?bl) (drop ((?n - 1) * ?bl) (fs_data ?w2 (lc_file ?s))) = encode [tree_root ?h ?b k xs]"
      by simp
    show "?n * el_byte_len el \<le> length (fs_data ?w2 (lc_file ?s))" using full by simp
    show "?n \<le> lc_len ?s" using size(3) by simp
    show "?n - 1 \<le> lc_data_width ?s" using at leaves by (simp add: lc_leaves_def)
  qed (use leaves bytes n0 in \<open>simp_all add: lc_leaves_def\<close>)
  have last: "usize_add (row_start ?b k k) 1 = Ok (tree_len ?b k)"
    using row_start_last [of ?b k] tree_shape_tree_len [OF sh] by (subst usize_add_Ok) simp_all
  have cis: "usize_sub (tree_len ?b k) ?n = Ok ?cis" "usize_sub (tree_len ?b k) ?cis = Ok ?n" "usize_sub ?n 1 = Ok (?n - 1)"
    using size(3) n0 by (simp_all add: usize_sub_def Suc_le_eq flip: size(3) del: row_start.simps)
  have set: "lc_set_len (tree_len ?b k) s1 = ?s" using s1 by (simp add: lc_set_len_def)
  have eq: "lc_build io flog el A ?b (?b ^ k) (Suc k) (Some config) s w =
    and_then (while_loop ?w ?c (0, ?b ^ k, 0, s, w)) (\<lambda>(level, width, level_node_index, s, w).
     and_then (usize_add (lc_len s) 1) (\<lambda>n.
     let s = lc_set_len n s in
     and_then (get_merkle_tree_len (?b ^ k) ?b) (\<lambda>len.
     ensure (lc_len s = len) WrongTreeLength (
     ensure (Suc k = level + 1) InvalidRowCount (
     and_then (usize_sub (lc_len s) ?cis) (\<lambda>n.
     and_then (usize_sub n 1) (\<lambda>root_index.
     and_then (lc_read_at_internal io el root_index s w) (\<lambda>root. Ok (root, s, w)))))))))"
    using leaves size(2) tree_len_ok [OF sh] cis(1) tree_shape_branches_pow2 [OF sh]
      store_contract.leafs_even [OF ds_store_contract sh]
    by (simp add: lc_build_def lc_leaves_def Let_def cong del: and_then_weak_cong del: row_start.simps)
  show ?thesis
    unfolding eq loop using k s1 w1 data last set tree_len_ok [OF sh] cis(2,3) root by (simp add: Let_def del: row_start.simps)
qed

end

end
