(* ===== verification/Cached_Trees.thy ===== *)
theory Cached_Trees
  imports Level_Cache_Build Gen_Proof_Correct Test_Tree
begin

text \<open>
  Trees through their life: built in a \<open>DiskStore\<close> or a \<open>LevelCacheStore\<close>, compacted, opened
  again over the cached rows and a replica of the leaves. The proofs stay the same.
\<close>

section \<open>Trees over a DiskStore\<close>

lemma disk_merkle_build:
  assumes "file_io_contract io" and "element_contract el" and "algorithm_contract A"
  shows "merkle_build (disk_types io flog el A) (ds_inv el) (ds_elems el) (ds_capacity el) (\<lambda>w. True) ds_fresh"
  using mapped_layer.ds_tree_store [OF mapped_layer.intro [OF assms(1,2)]] assms(3) by (simp add: merkle_build_def)

context mapped_layer
begin

lemma disk_tree_built:
  assumes "disk_tree el (node_hash A) b k xs config s w"
  shows "built_tree (disk_types io flog el A) (ds_inv el) (ds_elems el) b k xs
    (base_tree s (b ^ k) (tree_len b k) (Suc k) (tree_root (node_hash A) b k xs)) w"
  using assms by (auto simp: built_tree_def disk_tree_def base_tree_def)

text \<open>Every row of such a tree is in the file.\<close>

lemma disk_tree_read_at:
  assumes tree: "disk_tree el h b k xs config s w" and b: "0 < b" and p: "p < tree_len b k"
  shows "ds_read_at io el p s w = Ok (tree_nodes h b k xs ! p)"
proof -
  have s: "ds_inv el s w" "ds_elems el s w = tree_nodes h b k xs" using tree by (simp_all add: disk_tree_def)
  have "p < length (ds_elems el s w)" using ds_length_elems [OF s(1)] disk_tree_data(2) [OF tree b] p by simp
  then show ?thesis
    using store_contract.read_at_Ok [OF ds_store_contract s(1)] s(2) by (simp add: ds_ops_def)
qed

lemma disk_tree_read_range_into:
  assumes tree: "disk_tree el h b k xs config s w" and b: "0 < b"
    and ae: "a < e" "e \<le> b ^ k" and buf: "length buf = (e - a) * el_byte_len el"
  shows "ds_read_range_into io a e buf s w = Ok (encode (take (e - a) (drop a xs)))"
proof -
  let ?bl = "el_byte_len el" and ?nodes = "tree_nodes h b k xs"
  have s: "ds_inv el s w" "length xs = b ^ k" "ds_store_size s = tree_len b k * ?bl"
    using tree by (simp_all add: disk_tree_def)
  note f = ds_inv_facts [OF s(1)] and data = disk_tree_data [OF tree b]
  have cap: "ds_capacity el s w = tree_len b k" using s(3) byte_len_pos by (simp add: ds_capacity_def)
  have e: "e \<le> tree_len b k" using ae(2) tree_len_ge [of b k] by linarith
  have mul: "usize_mul a ?bl = Ok (a * ?bl)" "usize_mul e ?bl = Ok (e * ?bl)"
    "usize_mul (tree_len b k) ?bl = Ok (tree_len b k * ?bl)"
    using f(9) [unfolded cap] ae(1) e by simp_all
  have lt: "a * ?bl < tree_len b k * ?bl" "e * ?bl \<le> tree_len b k * ?bl" using ae(1) e byte_len_pos by simp_all
  have len: "a * ?bl + length buf = e * ?bl" using buf ae(1) by (simp flip: distrib_right)
  have nodes: "length ?nodes = tree_len b k" using s(2) b by (simp add: length_tree_nodes)
  have "length (fs_data w (ds_file s)) = tree_len b k * ?bl" using data(1) nodes by (simp add: length_concat_as_ref)
  then have rd: "io_read_exact_at io (a * ?bl) (length buf) (fs_data w (ds_file s)) = Ok (encode (take (e - a) (drop a ?nodes)))"
    using read_exact_at_Ok [of "a * ?bl" "length buf" "fs_data w (ds_file s)"] len lt(2) data(1) buf
    by (simp add: drop_as_ref take_as_ref)
  have "take (e - a) (drop a ?nodes) = take (e - a) (drop a (take (b ^ k) ?nodes))"
    using ae by (simp add: drop_take min_def)
  then have leaves: "take (e - a) (drop a ?nodes) = take (e - a) (drop a xs)"
    using take_tree_nodes [OF s(2), of h] by metis
  show ?thesis
    using mul lt rd f(1) data(2) unfolding leaves
    by (simp add: ds_read_range_into_def ds_check_range_def ds_store_read_into_def)
qed

lemma disk_tree_cached:
  assumes "disk_tree el (node_hash A) b k xs config s w" and "0 < b"
  shows "cached_tree (disk_types io flog el A) b k r xs
    (base_tree s (b ^ k) (tree_len b k) (Suc k) (tree_root (node_hash A) b k xs)) w"
  using disk_tree_read_at [OF assms] disk_tree_read_range_into [OF assms] disk_tree_data(2) [OF assms]
  by (simp add: cached_tree_def base_tree_def mt_root_def mt_len_def del: row_start.simps)

end


section \<open>Compaction and the file opened again\<close>

text \<open>What the file of the configuration holds after a compaction: the leaves in version 1 only.\<close>

definition kept_elements ::
  "(nat \<Rightarrow> 'e list \<Rightarrow> 'e) \<Rightarrow> nat \<Rightarrow> nat \<Rightarrow> nat \<Rightarrow> nat \<Rightarrow> 'e list \<Rightarrow> 'e list" where
  "kept_elements h version b k r xs = (if version = 1 then xs else []) @ cached_rows h b k r xs"

text \<open>The part of a replica file behind the offset of a sector.\<close>

definition replica_holds :: "replica_config \<Rightarrow> nat \<Rightarrow> byte list \<Rightarrow> fs \<Rightarrow> bool" where
  "replica_holds rc index data w \<longleftrightarrow>
     (\<exists>f. fs_names w (rc_path rc) = Some f \<and> index < length (rc_offsets rc) \<and>
       rc_offsets rc ! index + length data \<le> length (fs_data w f) \<and>
       take (length data) (drop (rc_offsets rc ! index) (fs_data w f)) = data \<and>
       length (fs_data w f) < usize_limit)"

text \<open>The files under a name in two worlds.\<close>

definition same_file :: "path_buf \<Rightarrow> fs \<Rightarrow> fs \<Rightarrow> bool" where
  "same_file path w w' \<longleftrightarrow>
     (\<exists>f g. fs_names w path = Some f \<and> fs_names w' path = Some g \<and> fs_data w' g = fs_data w f)"

lemma cached_fits_lc:
  "cached_fits (disk_types io flog el A) m k r \<Longrightarrow>
     tree_fits (lc_types io flog el A :: (fs, 'r level_cache, 'e, 'a) merkle_types) m k \<and>
     cached_fits (lc_types io flog el A :: (fs, 'r level_cache, 'e, 'a) merkle_types) m k r \<and> compact_fits flog m k r"
  by (simp add: cached_fits_def tree_fits_def compact_fits_def)

lemma discarded_rows_lc: "discarded_rows (lc_types io flog el A) b k rows = discarded_rows (disk_types io flog el A) b k rows"
  by (simp add: discarded_rows_def)

context mapped_layer
begin

lemma replica_serves:
  assumes "replica_holds rc index data w"
  shows "\<exists>reader. er_new_from_config io rc index w = Ok reader \<and> er_serves reader data w"
proof -
  obtain f where "fs_names w (rc_path rc) = Some f" "index < length (rc_offsets rc)"
    "rc_offsets rc ! index + length data \<le> length (fs_data w f)"
    "take (length data) (drop (rc_offsets rc ! index) (fs_data w f)) = data" "length (fs_data w f) < usize_limit"
    using assms unfolding replica_holds_def by blast
  then show ?thesis by (rule er_new_from_config_serves)
qed

text \<open>Building and compacting.\<close>

lemma built_and_compacted:
  fixes version :: nat
  assumes fits: "tree_fits (disk_types io flog el A) m k" "sc_rows_to_discard config < k"
    and fresh: "ds_fresh config w" and alg: "algorithm_contract A" and xs: "length xs = (2 ^ m) ^ k"
    and build: "from_byte_slice_with_config (disk_types io flog el A) (2 ^ m) (encode xs) config w = Ok (tree, w1)"
  defines "kept \<equiv> kept_elements (node_hash A) version (2 ^ m) k (sc_rows_to_discard config) xs"
  shows "\<exists>s. tree = base_tree s ((2 ^ m) ^ k) (tree_len (2 ^ m) k) (Suc k) (tree_root (node_hash A) (2 ^ m) k xs) \<and>
    disk_tree el (node_hash A) (2 ^ m) k xs config s w1 \<and>
    mt_compact (disk_types io flog el A) (2 ^ m) config version tree w1 =
      Ok (True, with_data (BaseTree (s\<lparr>ds_len := length kept\<rparr>)) tree, fs_put (ds_file s) (encode kept) w1)"
proof -
  obtain s w' where s: "from_byte_slice_with_config (disk_types io flog el A) (2 ^ m) (encode xs) config w =
      Ok (base_tree s ((2 ^ m) ^ k) (tree_len (2 ^ m) k) (Suc k) (tree_root (node_hash A) (2 ^ m) k xs), w')"
    "disk_tree el (node_hash A) (2 ^ m) k xs config s w'"
    using built_disk_tree [OF fits(1) fresh alg xs] by blast
  have cf: "compact_fits flog m k (sc_rows_to_discard config)"
    using fits by (simp add: compact_fits_def tree_fits_def)
  have len: "(if version = 1 then (2 ^ m) ^ k else 0) + length (cached_rows (node_hash A) (2 ^ m) k (sc_rows_to_discard config) xs) =
      length kept"
    and bytes: "take (if version = 1 then (2 ^ m) ^ k else 0) xs @ cached_rows (node_hash A) (2 ^ m) k (sc_rows_to_discard config) xs = kept"
    using xs by (simp_all add: kept_def kept_elements_def)
  show ?thesis
    using s build ds_compact_Ok [OF s(2) cf, of version] unfolding len bytes
    by (auto simp: mt_compact_def base_tree_def)
qed

text \<open>Opening the file over the cached rows, and the proofs from there.\<close>

lemma opened_tree_proves:
  assumes fits: "cached_fits (disk_types io flog el A) m k (sc_rows_to_discard config)"
    and rows: "discarded_rows (disk_types io flog el A) (2 ^ m) k rows = Ok (sc_rows_to_discard config)"
    and alg: "algorithm_contract A" and xs: "length xs = (2 ^ m) ^ k" and i: "i < (2 ^ m) ^ k"
    and s: "lc_cached el (node_hash A) (2 ^ m) k (sc_rows_to_discard config) xs s w"
  shows "\<exists>tree. from_data_store (lc_types io flog el A) (2 ^ m) 0 0 s ((2 ^ m) ^ k) w = Ok tree \<and>
    gen_cached_proof (lc_types io flog el A) (2 ^ m) 0 0 tree i rows w = Ok (honest_proof (node_hash A) (2 ^ m) k xs i)"
proof -
  have r: "sc_rows_to_discard config < k" using fits by (simp add: cached_fits_def)
  note lc = cached_fits_lc [OF fits, THEN conjunct1] cached_fits_lc [OF fits, THEN conjunct2, THEN conjunct1]
  show ?thesis
    using lc_from_data_store [OF s r lc(1)]
      gen_cached_proof_honest [of "lc_types io flog el A", simplified, OF element_contract_axioms alg lc(2) _ lc_cached_tree [OF s r] xs i]
      rows discarded_rows_lc [of io flog el A "2 ^ m" k rows]
    by simp
qed

text \<open>The consistency checks accept the two compacted forms.\<close>

lemma lc_consistent:
  assumes "compact_fits flog m k (sc_rows_to_discard config)" and "tree_len (2 ^ m) k * el_byte_len el < isize_limit"
    and xs: "length xs = (2 ^ m) ^ k" and name: "fs_names w (data_path (sc_path config) (sc_id config)) = Some f"
  shows "fs_data w f = encode (kept_elements h 2 (2 ^ m) k (sc_rows_to_discard config) xs) \<Longrightarrow>
      lc_is_consistent flog el (tree_len (2 ^ m) k) (2 ^ m) config w = Ok True"
    and "fs_data w f = encode (kept_elements h 1 (2 ^ m) k (sc_rows_to_discard config) xs) \<Longrightarrow>
      lc_is_consistent_v1 flog el (tree_len (2 ^ m) k) (2 ^ m) config w = Ok True"
proof -
  let ?b = "2 ^ m :: nat" and ?c = "tree_len (2 ^ m) (k - Suc (sc_rows_to_discard config))" and ?bl = "el_byte_len el"
  note size = lc_sizes [OF assms(1,2)] and up = length_cached_rows [OF assms(1) xs]
  have "?b ^ k + ?c \<le> tree_len ?b k" using compact_sizes(3,4) [OF assms(1)] by linarith
  then have "(?b ^ k + ?c) * ?bl \<le> tree_len ?b k * ?bl" by (rule mult_le_mono1)
  then have le: "?b ^ k * ?bl + ?c * ?bl < usize_limit" using assms(2) unfolding distrib_right by linarith
  then have "?b ^ k * ?bl < usize_limit" by linarith
  with le size(1,2) up xs name
  show "fs_data w f = encode (kept_elements h 2 ?b k (sc_rows_to_discard config) xs) \<Longrightarrow>
      lc_is_consistent flog el (tree_len ?b k) ?b config w = Ok True"
    "fs_data w f = encode (kept_elements h 1 ?b k (sc_rows_to_discard config) xs) \<Longrightarrow>
      lc_is_consistent_v1 flog el (tree_len ?b k) ?b config w = Ok True"
    by (simp_all add: lc_is_consistent_def lc_is_consistent_v1_def kept_elements_def fs_open_def fs_metadata_len_def
        length_concat_as_ref distrib_right usize_mul_Ok usize_add_Ok)
qed

text \<open>The file after a compaction, found again later.\<close>

lemma compacted_file:
  fixes version :: nat
  assumes fits: "cached_fits (disk_types io flog el A) m k (sc_rows_to_discard config)"
    and fresh: "ds_fresh config w" and alg: "algorithm_contract A" and xs: "length xs = (2 ^ m) ^ k"
    and build: "from_byte_slice_with_config (disk_types io flog el A) (2 ^ m) (encode xs) config w = Ok (tree, w1)"
    and compact: "mt_compact (disk_types io flog el A) (2 ^ m) config version tree w1 = Ok (True, tree', w2)"
    and same: "same_file (data_path (sc_path config) (sc_id config)) w2 w3"
  obtains f where "fs_names w3 (data_path (sc_path config) (sc_id config)) = Some f"
    and "fs_data w3 f = encode (kept_elements (node_hash A) version (2 ^ m) k (sc_rows_to_discard config) xs)"
    and "\<And>i. i < (2 ^ m) ^ k \<Longrightarrow>
      gen_proof (disk_types io flog el A) (2 ^ m) 0 0 tree i w1 = Ok (honest_proof (node_hash A) (2 ^ m) k xs i)"
    and "mt_root tree = tree_root (node_hash A) (2 ^ m) k xs"
proof -
  have f: "tree_fits (disk_types io flog el A) m k" "sc_rows_to_discard config < k"
    using fits by (simp_all add: cached_fits_def)
  obtain s where s: "tree = base_tree s ((2 ^ m) ^ k) (tree_len (2 ^ m) k) (Suc k) (tree_root (node_hash A) (2 ^ m) k xs)"
    "disk_tree el (node_hash A) (2 ^ m) k xs config s w1"
    "w2 = fs_put (ds_file s) (encode (kept_elements (node_hash A) version (2 ^ m) k (sc_rows_to_discard config) xs)) w1"
    using built_and_compacted [OF f fresh alg xs build, of version] compact by auto
  have proves: "gen_proof (disk_types io flog el A) (2 ^ m) 0 0 tree i w1 = Ok (honest_proof (node_hash A) (2 ^ m) k xs i)"
    if "i < (2 ^ m) ^ k" for i
    using merkle_build.gen_base_proof_honest [OF disk_merkle_build [OF file_io_contract_axioms element_contract_axioms alg]
        disk_tree_built [OF s(2), of flog] xs f(1) that] s(1) by simp
  obtain g where "fs_names w3 (data_path (sc_path config) (sc_id config)) = Some g"
    "fs_data w3 g = encode (kept_elements (node_hash A) version (2 ^ m) k (sc_rows_to_discard config) xs)"
    using same s(2,3) by (auto simp: same_file_def disk_tree_def)
  then show thesis using that proves s(1) by (simp add: base_tree_def mt_root_def)
qed

end


section \<open>An instance\<close>

text \<open>
  Eight leaves under arity 2 in an empty directory, one row discarded, and a replica with the
  leaves behind an offset of three bytes: what the witnesses run on.
\<close>

abbreviation empty_fs :: fs where
  "empty_fs \<equiv> \<lparr>fs_dir = [], fs_data = (\<lambda>f. []), fs_next = 0, fs_creatable = (\<lambda>path. True)\<rparr>"

abbreviation test_config :: store_config where
  "test_config \<equiv> store_config_new ''/tmp'' ''x'' 1"

abbreviation disk_test_types :: "(fs, disk_store, item, xor128) merkle_types" where
  "disk_test_types \<equiv> disk_types model_io exact_flog item_element xor128_algorithm"

abbreviation disk_test_leaves :: "item list" where
  "disk_test_leaves \<equiv> replicate 8 item_zero"

abbreviation test_replica :: replica_config where
  "test_replica \<equiv> replica_config_new ''replica'' [3]"

lemma disk_test_fits:
  "cached_fits disk_test_types 1 3 (sc_rows_to_discard test_config)" "tree_fits disk_test_types 1 3"
  "sc_rows_to_discard test_config < 3" "ds_fresh test_config empty_fs" "length disk_test_leaves = (2 ^ 1) ^ 3"
  using exact_flog_rows [of 1]
  by (simp_all add: cached_fits_def tree_fits_def tree_shape_def item_element_def tree_len_sum numeral_3_eq_3
      store_config_new_def ds_fresh_def fs_exists_def fs_names_def)

lemma disk_test_rows:
  "discarded_rows disk_test_types (2 ^ 1) 3 (Some 1) = Ok (sc_rows_to_discard test_config)"
proof -
  have "get_merkle_tree_row_count exact_flog ((2 ^ 1) ^ 3) (2 ^ 1) = Ok 4"
    using row_count_power [of 1 3 exact_flog] disk_test_fits(2) by (simp add: tree_fits_def)
  then show ?thesis
    by (simp add: discarded_rows_def default_rows_to_discard_def store_config_new_def)
qed

lemmas disk_test_contracts =
  model_io.file_io_contract_axioms item.element_contract_axioms xor128_alg.algorithm_contract_axioms

lemma disk_test_compacted:
  fixes version :: nat
  obtains tree w1 tree' w2 where
    "from_byte_slice_with_config disk_test_types (2 ^ 1) (concat (map (el_as_ref item_element) disk_test_leaves)) test_config empty_fs
      = Ok (tree, w1)"
    "mt_compact disk_test_types (2 ^ 1) test_config version tree w1 = Ok (True, tree', w2)"
    "\<exists>f. fs_names w2 (data_path (sc_path test_config) (sc_id test_config)) = Some f"
proof -
  note M = mapped_layer.intro [OF disk_test_contracts(1,2)]
  obtain s w1 where built: "from_byte_slice_with_config disk_test_types (2 ^ 1) (concat (map (el_as_ref item_element) disk_test_leaves))
      test_config empty_fs = Ok (base_tree s ((2 ^ 1) ^ 3) (tree_len (2 ^ 1) 3) (Suc 3)
        (tree_root (node_hash xor128_algorithm) (2 ^ 1) 3 disk_test_leaves), w1)"
    "disk_tree item_element (node_hash xor128_algorithm) (2 ^ 1) 3 disk_test_leaves test_config s w1"
    using mapped_layer.built_disk_tree [OF M disk_test_fits(2,4) disk_test_contracts(3) disk_test_fits(5)] by blast
  show ?thesis
    using that [OF built(1)] built(2)
      mapped_layer.built_and_compacted [OF M disk_test_fits(2,3,4) disk_test_contracts(3) disk_test_fits(5) built(1), of version]
    by (auto simp: disk_tree_def)
qed

lemma disk_test_later:
  assumes "\<exists>f. fs_names w (data_path (sc_path test_config) (sc_id test_config)) = Some f"
  obtains w' where "same_file (data_path (sc_path test_config) (sc_id test_config)) w w'"
    and "replica_holds test_replica 0 (concat (map (el_as_ref item_element) disk_test_leaves)) w'"
proof -
  obtain f where f: "fs_names w (data_path (sc_path test_config) (sc_id test_config)) = Some f" using assms by blast
  have path: "data_path (sc_path test_config) (sc_id test_config) \<noteq> ''replica''"
    by (simp add: data_path_def path_join_def store_config_new_def)
  let ?w = "fs_link ''replica'' (Suc f) (fs_put (Suc f) ([1, 2, 3] @ concat (map (el_as_ref item_element) disk_test_leaves)) w)"
  have "length (concat (map (el_as_ref item_element) disk_test_leaves)) = 8 * 16"
    unfolding item.length_concat_as_ref by (simp add: item_element_def)
  then have "replica_holds test_replica 0 (concat (map (el_as_ref item_element) disk_test_leaves)) ?w"
    by (simp add: replica_holds_def replica_config_new_def)
  moreover have "same_file (data_path (sc_path test_config) (sc_id test_config)) w ?w"
    using f path by (simp add: same_file_def)
  ultimately show thesis by (rule that [rotated])
qed


section \<open>Properties\<close>

text \<open>
  C10: \<open>DiskStore\<close> is a store a tree can be built in, for every element type and every behaviour
  of the positioned file operations within their documentation: every method of the contract, and
  \<open>build\<close> with its rows written through a mapping of the file.
\<close>

theorem disk_store_is_a_tree_store:
  assumes "file_io_contract io" and "element_contract el"
  shows "tree_store el (disk_store io flog el :: (fs, disk_store, 'e, 'a) store)
    (ds_inv el) (ds_elems el) (ds_capacity el) (\<lambda>w. True) ds_fresh"
  by (rule mapped_layer.ds_tree_store [OF mapped_layer.intro [OF assms]])

theorem disk_store_is_a_tree_store_witness:
  "tree_store bytes32_element (disk_store model_io exact_flog bytes32_element :: (fs, disk_store, bytes32, xor128) store)
    (ds_inv bytes32_element) (ds_elems bytes32_element) (ds_capacity bytes32_element) (\<lambda>w. True) ds_fresh"
  by (rule disk_store_is_a_tree_store [OF model_io.file_io_contract_axioms bytes32.element_contract_axioms])

text \<open>
  C14: a tree built in a \<open>DiskStore\<close> under a configuration can be compacted in both data versions:
  the file then holds exactly the leaves (version 1 only) and the cached rows, the length is the
  number of those elements, the other files and the names are as before, and the size the store
  remembers is the old one.
\<close>

theorem compaction_keeps_the_cached_rows:
  assumes "file_io_contract io" and "element_contract el" and "algorithm_contract A"
    and "tree_fits (disk_types io flog el A) m k" and "sc_rows_to_discard config < k"
    and "ds_fresh config w" and "length xs = (2 ^ m) ^ k"
  shows "\<exists>tree s w1.
    from_byte_slice_with_config (disk_types io flog el A) (2 ^ m) (concat (map (el_as_ref el) xs)) config w = Ok (tree, w1)
    \<and> tree_data tree = BaseTree s \<and> fs_names w1 (data_path (sc_path config) (sc_id config)) = Some (ds_file s)
    \<and> ds_store_size s = tree_len (2 ^ m) k * el_byte_len el
    \<and> (\<forall>version. let kept = kept_elements (node_hash A) version (2 ^ m) k (sc_rows_to_discard config) xs in
         mt_compact (disk_types io flog el A) (2 ^ m) config version tree w1 =
           Ok (True, with_data (BaseTree (s\<lparr>ds_len := length kept\<rparr>)) tree,
             fs_put (ds_file s) (concat (map (el_as_ref el) kept)) w1))"
proof -
  note M = mapped_layer.intro [OF assms(1,2)]
  obtain s w1 where built: "from_byte_slice_with_config (disk_types io flog el A) (2 ^ m) (concat (map (el_as_ref el) xs)) config w =
      Ok (base_tree s ((2 ^ m) ^ k) (tree_len (2 ^ m) k) (Suc k) (tree_root (node_hash A) (2 ^ m) k xs), w1)"
    "disk_tree el (node_hash A) (2 ^ m) k xs config s w1"
    using mapped_layer.built_disk_tree [OF M assms(4,6,3,7)] by blast
  show ?thesis
    using built mapped_layer.built_and_compacted [OF M assms(4-6,3,7) built(1)]
    by (auto simp: Let_def disk_tree_def base_tree_def)
qed

theorem compaction_keeps_the_cached_rows_witness:
  "\<exists>tree s w1.
    from_byte_slice_with_config disk_test_types 2 (concat (map (el_as_ref item_element) disk_test_leaves)) test_config empty_fs
      = Ok (tree, w1)
    \<and> tree_data tree = BaseTree s \<and> ds_store_size s = 15 * 16
    \<and> (\<exists>w2. mt_compact disk_test_types 2 test_config 2 tree w1 =
          Ok (True, with_data (BaseTree (s\<lparr>ds_len := 3\<rparr>)) tree, w2))"
  using compaction_keeps_the_cached_rows [OF disk_test_contracts disk_test_fits(2-5)]
    length_cached_rows [of exact_flog 1 3 1 disk_test_leaves "node_hash xor128_algorithm"] exact_flog_rows [of 1]
  by (fastforce simp: kept_elements_def Let_def store_config_new_def compact_fits_def tree_shape_def tree_len_sum
      numeral_3_eq_3 item_element_def)

text \<open>
  C12: on a tree built in a \<open>DiskStore\<close> the cached proof, which rebuilds the discarded rows in
  memory, is the proof read from the rows themselves, for every choice of the rows to discard; it
  validates.
\<close>

theorem cached_proof_is_the_proof:
  assumes "file_io_contract io" and "element_contract el" and "algorithm_contract A"
    and fits: "cached_fits (disk_types io flog el A) m k r"
    and rows: "discarded_rows (disk_types io flog el A) (2 ^ m) k rows = Ok r"
    and fresh: "ds_fresh config w" and xs: "length xs = (2 ^ m) ^ k" and i: "i < (2 ^ m) ^ k"
  shows "\<exists>tree w1 p.
    from_byte_slice_with_config (disk_types io flog el A) (2 ^ m) (concat (map (el_as_ref el) xs)) config w = Ok (tree, w1)
    \<and> gen_cached_proof (disk_types io flog el A) (2 ^ m) 0 0 tree i rows w1 = Ok p
    \<and> gen_proof (disk_types io flog el A) (2 ^ m) 0 0 tree i w1 = Ok p
    \<and> proof_item p = Ok (xs ! i) \<and> proof_root p = Ok (mt_root tree)
    \<and> (heights_agree A (2 ^ m) \<longrightarrow> validate A (2 ^ m) p = Ok True)"
proof -
  let ?C = "disk_types io flog el A"
  note M = mapped_layer.intro [OF assms(1,2)] and B = disk_merkle_build [OF assms(1-3), of flog]
  have f: "tree_fits ?C m k" and b: "2 \<le> (2 ^ m :: nat)"
    using fits tree_shape_arity(2) [of m k] by (auto simp: cached_fits_def tree_fits_def)
  obtain s w1 where built: "from_byte_slice_with_config ?C (2 ^ m) (concat (map (el_as_ref el) xs)) config w =
      Ok (base_tree s ((2 ^ m) ^ k) (tree_len (2 ^ m) k) (Suc k) (tree_root (node_hash A) (2 ^ m) k xs), w1)"
    "disk_tree el (node_hash A) (2 ^ m) k xs config s w1"
    using mapped_layer.built_disk_tree [OF M f fresh assms(3) xs] by blast
  have "cached_tree ?C (2 ^ m) k r xs
      (base_tree s ((2 ^ m) ^ k) (tree_len (2 ^ m) k) (Suc k) (tree_root (node_hash A) (2 ^ m) k xs)) w1"
    by (rule mapped_layer.disk_tree_cached [OF M built(2)]) simp
  from gen_cached_proof_honest [of ?C, simplified, OF assms(2,3) fits rows this xs i]
    merkle_build.gen_base_proof_honest [OF B mapped_layer.disk_tree_built [OF M built(2)] xs f i]
    merkle_build.honest_proof_validates [OF B xs b i]
    honest_proof_shape(3) [of "2 ^ m" xs k i "node_hash A"] built(1) xs i
  show ?thesis
    by (simp add: honest_proof_def proof_item_def proof_root_def base_tree_def mt_root_def)
qed

theorem cached_proof_is_the_proof_witness:
  "\<exists>tree w1 p.
    from_byte_slice_with_config disk_test_types 2 (concat (map (el_as_ref item_element) disk_test_leaves)) test_config empty_fs
      = Ok (tree, w1)
    \<and> gen_cached_proof disk_test_types 2 0 0 tree 5 (Some 1) w1 = Ok p
    \<and> gen_proof disk_test_types 2 0 0 tree 5 w1 = Ok p \<and> validate xor128_algorithm 2 p = Ok True"
proof -
  have i: "5 < (2 ^ 1 :: nat) ^ 3" by simp
  show ?thesis
    using cached_proof_is_the_proof [OF disk_test_contracts disk_test_fits(1) disk_test_rows disk_test_fits(4,5) i]
      xor128_heights [of 2] unfolding power_one_right by blast
qed

text \<open>
  C9: the life of a tree in data version 2: built in a \<open>DiskStore\<close>, compacted, and later opened
  as a \<open>LevelCacheStore\<close> over the same file with a reader of a replica that holds the leaves. The
  file passes the consistency check, the root is the same, and for every leaf the cached proof is
  the proof of the tree that was built.
\<close>

theorem compacted_tree_keeps_its_proofs:
  assumes "file_io_contract io" and "element_contract el" and "algorithm_contract A"
    and fits: "cached_fits (disk_types io flog el A) m k (sc_rows_to_discard config)"
    and rows: "discarded_rows (disk_types io flog el A) (2 ^ m) k rows = Ok (sc_rows_to_discard config)"
    and fresh: "ds_fresh config w" and xs: "length xs = (2 ^ m) ^ k" and i: "i < (2 ^ m) ^ k"
    and build: "from_byte_slice_with_config (disk_types io flog el A) (2 ^ m) (concat (map (el_as_ref el) xs)) config w =
      Ok (tree, w1)"
    and compact: "mt_compact (disk_types io flog el A) (2 ^ m) config 2 tree w1 = Ok (True, tree', w2)"
    and later: "same_file (data_path (sc_path config) (sc_id config)) w2 w3"
    and replica: "replica_holds rc index (concat (map (el_as_ref el) xs)) w3"
  shows "lc_is_consistent flog el (tree_len (2 ^ m) k) (2 ^ m) config w3 = Ok True
    \<and> (\<exists>reader s opened p. er_new_from_config io rc index w3 = Ok reader
      \<and> lc_new_from_disk_with_reader flog el (tree_len (2 ^ m) k) (2 ^ m) config reader w3 = Ok (s, w3)
      \<and> from_data_store (lc_types io flog el A) (2 ^ m) 0 0 s ((2 ^ m) ^ k) w3 = Ok opened
      \<and> mt_root opened = mt_root tree
      \<and> gen_cached_proof (lc_types io flog el A) (2 ^ m) 0 0 opened i rows w3 = Ok p
      \<and> gen_proof (disk_types io flog el A) (2 ^ m) 0 0 tree i w1 = Ok p)"
proof -
  note M = mapped_layer.intro [OF assms(1,2)]
  note lc = cached_fits_lc [OF fits, THEN conjunct2, THEN conjunct2]
  have bytes: "tree_len (2 ^ m) k * el_byte_len el < isize_limit" and r: "sc_rows_to_discard config < k"
    using fits by (simp_all add: cached_fits_def tree_fits_def)
  obtain f where f: "fs_names w3 (data_path (sc_path config) (sc_id config)) = Some f"
    "fs_data w3 f = concat (map (el_as_ref el) (kept_elements (node_hash A) 2 (2 ^ m) k (sc_rows_to_discard config) xs))"
    "gen_proof (disk_types io flog el A) (2 ^ m) 0 0 tree i w1 = Ok (honest_proof (node_hash A) (2 ^ m) k xs i)"
    "mt_root tree = tree_root (node_hash A) (2 ^ m) k xs"
    using mapped_layer.compacted_file [OF M fits fresh assms(3) xs build compact later] i by metis
  have upper: "fs_data w3 f = concat (map (el_as_ref el) (cached_rows (node_hash A) (2 ^ m) k (sc_rows_to_discard config) xs))"
    using f(2) by (simp add: kept_elements_def)
  obtain reader where reader: "er_new_from_config io rc index w3 = Ok reader"
    "er_serves reader (concat (map (el_as_ref el) xs)) w3"
    using mapped_layer.replica_serves [OF M replica] by blast
  obtain s where s: "lc_new_from_disk_with_reader flog el (tree_len (2 ^ m) k) (2 ^ m) config reader w3 = Ok (s, w3)"
    "lc_cached el (node_hash A) (2 ^ m) k (sc_rows_to_discard config) xs s w3"
    using mapped_layer.lc_open(1) [OF M lc bytes xs f(1) upper reader(2)] by blast
  have "mt_root (base_tree s n len rc' root) = root" for n len rc' root by (simp add: base_tree_def mt_root_def)
  then show ?thesis
    using mapped_layer.lc_consistent(1) [OF M lc bytes xs f(1,2)] reader s f(3,4)
      mapped_layer.opened_tree_proves [OF M fits rows assms(3) xs i s(2)]
      mapped_layer.lc_from_data_store [OF M s(2) r cached_fits_lc [OF fits, THEN conjunct1]]
    by auto
qed

theorem compacted_tree_keeps_its_proofs_witness:
  "\<exists>tree w1 tree' w2 w3 reader s opened p.
    from_byte_slice_with_config disk_test_types 2 (concat (map (el_as_ref item_element) disk_test_leaves)) test_config empty_fs
      = Ok (tree, w1)
    \<and> mt_compact disk_test_types 2 test_config 2 tree w1 = Ok (True, tree', w2)
    \<and> er_new_from_config model_io test_replica 0 w3 = Ok reader
    \<and> lc_new_from_disk_with_reader exact_flog item_element 15 2 test_config reader w3 = Ok (s, w3)
    \<and> from_data_store (lc_types model_io exact_flog item_element xor128_algorithm) 2 0 0 s 8 w3 = Ok opened
    \<and> gen_cached_proof (lc_types model_io exact_flog item_element xor128_algorithm) 2 0 0 opened 5 (Some 1) w3 = Ok p
    \<and> gen_proof disk_test_types 2 0 0 tree 5 w1 = Ok p"
proof -
  obtain tree w1 tree' w2 where t:
    "from_byte_slice_with_config disk_test_types (2 ^ 1) (concat (map (el_as_ref item_element) disk_test_leaves)) test_config empty_fs
      = Ok (tree, w1)"
    "mt_compact disk_test_types (2 ^ 1) test_config 2 tree w1 = Ok (True, tree', w2)"
    "\<exists>f. fs_names w2 (data_path (sc_path test_config) (sc_id test_config)) = Some f"
    by (rule disk_test_compacted [of 2])
  obtain w3 where w3: "same_file (data_path (sc_path test_config) (sc_id test_config)) w2 w3"
    "replica_holds test_replica 0 (concat (map (el_as_ref item_element) disk_test_leaves)) w3"
    using disk_test_later [OF t(3)] by blast
  have "tree_len 2 3 = 15" by (simp add: tree_len_sum numeral_3_eq_3)
  moreover have "5 < (2 ^ 1 :: nat) ^ 3" by simp
  ultimately show ?thesis
    using compacted_tree_keeps_its_proofs [OF disk_test_contracts disk_test_fits(1) disk_test_rows disk_test_fits(4,5) _ t(1,2) w3, of 5] t(1,2)
    by simp blast
qed

text \<open>
  C15: the same in data version 1, where the leaves stay in the compacted file and no reader is
  needed.
\<close>

theorem compacted_tree_with_leaves_keeps_its_proofs:
  assumes "file_io_contract io" and "element_contract el" and "algorithm_contract A"
    and fits: "cached_fits (disk_types io flog el A) m k (sc_rows_to_discard config)"
    and rows: "discarded_rows (disk_types io flog el A) (2 ^ m) k rows = Ok (sc_rows_to_discard config)"
    and fresh: "ds_fresh config w" and xs: "length xs = (2 ^ m) ^ k" and i: "i < (2 ^ m) ^ k"
    and build: "from_byte_slice_with_config (disk_types io flog el A) (2 ^ m) (concat (map (el_as_ref el) xs)) config w =
      Ok (tree, w1)"
    and compact: "mt_compact (disk_types io flog el A) (2 ^ m) config 1 tree w1 = Ok (True, tree', w2)"
    and later: "same_file (data_path (sc_path config) (sc_id config)) w2 w3"
  shows "lc_is_consistent_v1 flog el (tree_len (2 ^ m) k) (2 ^ m) config w3 = Ok True
    \<and> (\<exists>(s :: 'r level_cache) opened p.
        lc_new_from_disk flog el (tree_len (2 ^ m) k) (2 ^ m) config w3 = Ok (s, w3)
      \<and> from_data_store (lc_types io flog el A) (2 ^ m) 0 0 s ((2 ^ m) ^ k) w3 = Ok opened
      \<and> mt_root opened = mt_root tree
      \<and> gen_cached_proof (lc_types io flog el A) (2 ^ m) 0 0 opened i rows w3 = Ok p
      \<and> gen_proof (disk_types io flog el A) (2 ^ m) 0 0 tree i w1 = Ok p)"
proof -
  note M = mapped_layer.intro [OF assms(1,2)]
  note lc = cached_fits_lc [OF fits, THEN conjunct2, THEN conjunct2]
  have bytes: "tree_len (2 ^ m) k * el_byte_len el < isize_limit" and r: "sc_rows_to_discard config < k"
    using fits by (simp_all add: cached_fits_def tree_fits_def)
  obtain f where f: "fs_names w3 (data_path (sc_path config) (sc_id config)) = Some f"
    "fs_data w3 f = concat (map (el_as_ref el) (kept_elements (node_hash A) 1 (2 ^ m) k (sc_rows_to_discard config) xs))"
    "gen_proof (disk_types io flog el A) (2 ^ m) 0 0 tree i w1 = Ok (honest_proof (node_hash A) (2 ^ m) k xs i)"
    "mt_root tree = tree_root (node_hash A) (2 ^ m) k xs"
    using mapped_layer.compacted_file [OF M fits fresh assms(3) xs build compact later] i by metis
  have "fs_data w3 f = concat (map (el_as_ref el) (xs @ cached_rows (node_hash A) (2 ^ m) k (sc_rows_to_discard config) xs))"
    using f(2) by (simp add: kept_elements_def)
  then obtain s :: "'r level_cache" where s: "lc_new_from_disk flog el (tree_len (2 ^ m) k) (2 ^ m) config w3 = Ok (s, w3)"
    "lc_cached el (node_hash A) (2 ^ m) k (sc_rows_to_discard config) xs s w3"
    using mapped_layer.lc_open(2) [OF M lc bytes xs f(1)] by blast
  have "mt_root (base_tree s n len rc' root) = root" for n len rc' root by (simp add: base_tree_def mt_root_def)
  then show ?thesis
    using mapped_layer.lc_consistent(2) [OF M lc bytes xs f(1,2)] s f(3,4)
      mapped_layer.opened_tree_proves [OF M fits rows assms(3) xs i s(2)]
      mapped_layer.lc_from_data_store [OF M s(2) r cached_fits_lc [OF fits, THEN conjunct1]]
    by auto
qed

theorem compacted_tree_with_leaves_keeps_its_proofs_witness:
  "\<exists>tree w1 tree' w2 w3 (s :: unit level_cache) opened p.
    from_byte_slice_with_config disk_test_types 2 (concat (map (el_as_ref item_element) disk_test_leaves)) test_config empty_fs
      = Ok (tree, w1)
    \<and> mt_compact disk_test_types 2 test_config 1 tree w1 = Ok (True, tree', w2)
    \<and> lc_new_from_disk exact_flog item_element 15 2 test_config w3 = Ok (s, w3)
    \<and> from_data_store (lc_types model_io exact_flog item_element xor128_algorithm) 2 0 0 s 8 w3 = Ok opened
    \<and> gen_cached_proof (lc_types model_io exact_flog item_element xor128_algorithm) 2 0 0 opened 5 (Some 1) w3 = Ok p
    \<and> gen_proof disk_test_types 2 0 0 tree 5 w1 = Ok p"
proof -
  obtain tree w1 tree' w2 where t:
    "from_byte_slice_with_config disk_test_types (2 ^ 1) (concat (map (el_as_ref item_element) disk_test_leaves)) test_config empty_fs
      = Ok (tree, w1)"
    "mt_compact disk_test_types (2 ^ 1) test_config 1 tree w1 = Ok (True, tree', w2)"
    "\<exists>f. fs_names w2 (data_path (sc_path test_config) (sc_id test_config)) = Some f"
    by (rule disk_test_compacted [of 1])
  obtain w3 where w3: "same_file (data_path (sc_path test_config) (sc_id test_config)) w2 w3"
    using disk_test_later [OF t(3)] by blast
  have "tree_len 2 3 = 15" by (simp add: tree_len_sum numeral_3_eq_3)
  moreover have "5 < (2 ^ 1 :: nat) ^ 3" by simp
  ultimately show ?thesis
    using compacted_tree_with_leaves_keeps_its_proofs [OF disk_test_contracts disk_test_fits(1) disk_test_rows disk_test_fits(4,5) _ t(1,2) w3, of 5] t(1,2)
    by simp blast
qed

end
