(* ===== verification/Level_Cache_Tree.thy ===== *)
theory Level_Cache_Tree
  imports Cached_Trees
begin

text \<open>
  Trees built in a \<open>LevelCacheStore\<close> from the bytes of the leaves: after the build the file holds the
  cached rows only, and the tree proves its leaves as soon as it has a reader for them.
\<close>

section \<open>From the leaves to the cached rows\<close>

context mapped_layer
begin

text \<open>The store before its build.\<close>

lemma lc_new_leaves:
  fixes flog :: "nat \<Rightarrow> nat \<Rightarrow> nat" and xs :: "'e list"
  assumes fresh: "ds_fresh config w" and fits: "compact_fits flog m k (sc_rows_to_discard config)"
    and bytes: "tree_len (2 ^ m) k * el_byte_len el < isize_limit" and xs: "length xs = (2 ^ m) ^ k"
  shows "\<exists>(s :: 'r level_cache) w'.
    lc_new_from_slice_with_config io flog el (tree_len (2 ^ m) k) (2 ^ m) (encode xs) config w = Ok (s, w') \<and>
    lc_leaves el (2 ^ m) k xs config s w' \<and> lc_reader s = None \<and>
    lc_cache_index_start s = row_start (2 ^ m) k (Suc (sc_rows_to_discard config)) * el_byte_len el"
proof -
  let ?b = "2 ^ m :: nat" and ?bl = "el_byte_len el" and ?path = "data_path (sc_path config) (sc_id config)"
  let ?f = "fs_next w" and ?n = "tree_len (2 ^ m) k * el_byte_len el"
  let ?w1 = "fs_put ?f (replicate ?n 0) (fs_link ?path ?f (snd (fs_alloc w)))"
  let ?s = "\<lparr>lc_len = 0, lc_elem_len = ?bl, lc_file = ?f, lc_data_width = ?b ^ k,
      lc_cache_index_start = row_start ?b k (Suc (sc_rows_to_discard config)) * ?bl, lc_loaded_from_disk = False,
      lc_store_size = ?n, lc_reader = (None :: 'r external_reader option)\<rparr>"
  note size = lc_sizes [OF fits bytes]
  have create: "fs_create_new ?path w = Ok (?f, fs_link ?path ?f (snd (fs_alloc w)))"
    using fresh by (simp add: fs_create_new_def ds_fresh_def split_beta)
  have set: "fs_set_len ?f ?n (fs_link ?path ?f (snd (fs_alloc w))) = Ok ?w1"
    using bytes by (simp add: fs_set_len_def Let_def)
  have mul: "usize_mul ?bl (tree_len ?b k) = Ok ?n" using bytes by (simp add: usize_mul_def mult.commute)
  have new: "lc_new_with_config flog el (tree_len ?b k) ?b config w = Ok (?s, ?w1)"
    using fresh create set size mul by (simp add: lc_new_with_config_def ds_fresh_def Let_def del: row_start.simps tree_len.simps)
  have len: "length (encode xs) = ?b ^ k * ?bl" using xs by (simp add: length_concat_as_ref)
  have le: "?b ^ k * ?bl \<le> ?n" using tree_len_ge by (rule mult_le_mono1)
  then have "usize_add 0 (length (encode xs)) = Ok (length (encode xs))"
    using bytes unfolding len by (intro usize_add_Ok [THEN trans]) (linarith, simp)
  moreover have "io_write_all_at io 0 (encode xs) (replicate ?n 0) = Ok (overwrite 0 (encode xs) (replicate ?n 0))"
    using le len by (intro write_all_at_Ok) simp
  ultimately have copy: "lc_store_copy_from_slice io 0 (encode xs) ?s ?w1 =
      Ok (?s, fs_put ?f (overwrite 0 (encode xs) (replicate ?n 0)) ?w1)"
    using le len by (simp add: lc_store_copy_from_slice_def)
  have "usize_div (length (encode xs)) ?bl = Ok (?b ^ k)" using len byte_len_pos by simp
  moreover have "usize_rem (length (encode xs)) ?bl = Ok 0" using len byte_len_pos by simp
  ultimately have "lc_new_from_slice_with_config io flog el (tree_len ?b k) ?b (encode xs) config w =
      Ok (?s\<lparr>lc_len := ?b ^ k\<rparr>, fs_put ?f (overwrite 0 (encode xs) (replicate ?n 0)) ?w1)"
    using new copy by (simp add: lc_new_from_slice_with_config_def)
  moreover have "lc_leaves el ?b k xs config (?s\<lparr>lc_len := ?b ^ k\<rparr>) (fs_put ?f (overwrite 0 (encode xs) (replicate ?n 0)) ?w1)"
    using xs le len by (simp add: lc_leaves_def length_overwrite overwrite_def del: row_start.simps tree_len.simps)
  ultimately show ?thesis by (intro exI conjI) (assumption, assumption, simp_all)
qed

text \<open>The tree, and the store it keeps.\<close>

lemma built_level_cache_tree:
  fixes A :: "('a, 'e) algorithm"
  assumes fits: "cached_fits (lc_types io flog el A :: (fs, 'r level_cache, 'e, 'a) merkle_types) m k (sc_rows_to_discard config)"
    and fresh: "ds_fresh config w" and xs: "length xs = (2 ^ m) ^ k"
  defines "up \<equiv> cached_rows (node_hash A) (2 ^ m) k (sc_rows_to_discard config) xs"
  shows "\<exists>(s :: 'r level_cache) w'. from_byte_slice_with_config (lc_types io flog el A) (2 ^ m) (encode xs) config w =
      Ok (base_tree s ((2 ^ m) ^ k) (tree_len (2 ^ m) k) (Suc k) (tree_root (node_hash A) (2 ^ m) k xs), w') \<and>
    fs_names w' (data_path (sc_path config) (sc_id config)) = Some (lc_file s) \<and>
    fs_data w' (lc_file s) = encode up \<and> lc_reader s = None \<and> lc_len s = tree_len (2 ^ m) k \<and>
    lc_elem_len s = el_byte_len el \<and> lc_data_width s = (2 ^ m) ^ k \<and>
    lc_cache_index_start s = row_start (2 ^ m) k (Suc (sc_rows_to_discard config)) * el_byte_len el"
proof -
  let ?C = "lc_types io flog el A :: (fs, 'r level_cache, 'e, 'a) merkle_types" and ?b = "2 ^ m :: nat"
  have f: "tree_fits ?C m k" and cf: "compact_fits flog m k (sc_rows_to_discard config)" and m: "m \<le> 12"
    and bytes: "tree_len ?b k * el_byte_len el < isize_limit"
    using fits by (simp_all add: cached_fits_def tree_fits_def compact_fits_def)
  obtain s :: "'r level_cache" and w1 where
    new: "lc_new_from_slice_with_config io flog el (tree_len ?b k) ?b (encode xs) config w = Ok (s, w1)"
    and leaves: "lc_leaves el ?b k xs config s w1" and s: "lc_reader s = None"
      "lc_cache_index_start s = row_start ?b k (Suc (sc_rows_to_discard config)) * el_byte_len el"
    using lc_new_leaves [OF fresh cf bytes xs, where 'r = 'r] by blast
  note build = lc_build_Ok [OF cf m bytes leaves, of A, folded up_def]
  have "1 < ?b ^ k" using tree_fits_facts(1) [OF f] .
  then have tree: "from_byte_slice_with_config ?C ?b (encode xs) config w =
      Ok (base_tree (s\<lparr>lc_len := tree_len ?b k\<rparr>) (?b ^ k) (tree_len ?b k) (Suc k) (tree_root (node_hash A) ?b k xs),
        fs_put (lc_file s) (encode up) w1)"
    using tree_fits_facts [OF f] new build byte_len_pos xs
    by (simp add: from_byte_slice_with_config_def Let_def length_concat_mod length_concat_div)
  show ?thesis
    using leaves s
    by (intro exI [of _ "s\<lparr>lc_len := tree_len ?b k\<rparr>"] exI [of _ "fs_put (lc_file s) (encode up) w1"] conjI tree)
      (simp_all add: lc_leaves_def del: row_start.simps)
qed

text \<open>Without a reader the leaf indices read the front of the file, where the cached rows are.\<close>

lemma unread_leaf:
  assumes s: "lc_len s = tree_len (2 ^ m) k" "lc_elem_len s = el_byte_len el" "lc_data_width s = (2 ^ m) ^ k"
      "lc_cache_index_start s = row_start (2 ^ m) k (Suc r) * el_byte_len el" "lc_reader s = None"
    and fits: "compact_fits flog m k r" "tree_len (2 ^ m) k * el_byte_len el < isize_limit" and xs: "length xs = (2 ^ m) ^ k"
    and data: "fs_data w (lc_file s) = encode (cached_rows h (2 ^ m) k r xs)"
    and i: "i < tree_len (2 ^ m) (k - Suc r)" "i < (2 ^ m) ^ k"
  shows "lc_read_at io el i s w = Ok (cached_rows h (2 ^ m) k r xs ! i)"
proof -
  let ?b = "2 ^ m :: nat" and ?bl = "el_byte_len el" and ?up = "cached_rows h (2 ^ m) k r xs"
  note size = compact_sizes [OF fits(1)]
  have up: "length ?up = tree_len ?b (k - Suc r)" by (rule length_cached_rows [OF fits(1) xs])
  have lt: "Suc i * ?bl \<le> ?b ^ k * ?bl" "?b ^ k * ?bl \<le> tree_len ?b k * ?bl" "?b ^ k * ?bl \<le> row_start ?b k (Suc r) * ?bl"
    "Suc i * ?bl \<le> length ?up * ?bl"
    using i up size(4) tree_len_ge [of ?b k] by (intro mult_le_mono1; simp del: row_start.simps)+
  have bl: "i * ?bl < Suc i * ?bl" "Suc i * ?bl - i * ?bl = ?bl" "i * ?bl + ?bl = Suc i * ?bl" using byte_len_pos by simp_all
  have lim: "Suc i * ?bl < usize_limit" "?b ^ k * ?bl < usize_limit" using lt fits(2) by linarith+
  have words: "usize_mul i ?bl = Ok (i * ?bl)" "usize_add (i * ?bl) ?bl = Ok (Suc i * ?bl)"
    "usize_mul (tree_len ?b k) ?bl = Ok (tree_len ?b k * ?bl)" "usize_mul (?b ^ k) ?bl = Ok (?b ^ k * ?bl)"
    "usize_sub (Suc i * ?bl) (i * ?bl) = Ok ?bl"
    using lim bl fits(2) by (simp_all add: usize_mul_def usize_add_def usize_sub_def)
  have range: "i * ?bl < tree_len ?b k * ?bl" "Suc i * ?bl \<le> tree_len ?b k * ?bl" "i * ?bl < ?b ^ k * ?bl"
    "\<not> row_start ?b k (Suc r) * ?bl \<le> i * ?bl"
    using lt bl(1) by linarith+
  have "take ?bl (drop (i * ?bl) (encode ?up)) = el_as_ref el (?up ! i)"
    using i(1) up take_as_ref [of 1 "drop i ?up"] by (simp add: drop_as_ref Cons_nth_drop_Suc [symmetric] as_ref_length)
  then have "io_read_exact_at io (i * ?bl) ?bl (fs_data w (lc_file s)) = Ok (el_as_ref el (?up ! i))"
    using read_exact_at_Ok [of "i * ?bl" ?bl "fs_data w (lc_file s)"] lt(4) data bl(3) by (simp add: length_concat_as_ref)
  then show ?thesis
    using words range s
    by (simp add: lc_read_at_def lc_check_range_def lc_in_bounds_def lc_store_read_range_def lc_adjusted_start_def
        from_slice_as_ref del: row_start.simps mult_Suc)
qed

text \<open>With the reader it is a cached tree.\<close>

lemma read_leaves:
  assumes fits: "cached_fits (lc_types io flog el A :: (fs, fs_file level_cache, 'e, 'a) merkle_types) m k r"
    and rows: "discarded_rows (lc_types io flog el A :: (fs, fs_file level_cache, 'e, 'a) merkle_types) (2 ^ m) k rows = Ok r"
    and alg: "algorithm_contract A" and xs: "length xs = (2 ^ m) ^ k" and i: "i < (2 ^ m) ^ k"
    and s: "lc_len s = tree_len (2 ^ m) k" "lc_elem_len s = el_byte_len el" "lc_data_width s = (2 ^ m) ^ k"
      "lc_cache_index_start s = row_start (2 ^ m) k (Suc r) * el_byte_len el"
    and data: "fs_data w (lc_file s) = encode (cached_rows (node_hash A) (2 ^ m) k r xs)"
    and replica: "replica_holds (replica_config_from path) 0 (encode xs) w"
  defines "tree \<equiv> base_tree s ((2 ^ m) ^ k) (tree_len (2 ^ m) k) (Suc k) (tree_root (node_hash A) (2 ^ m) k xs)"
  shows "\<exists>tree'. set_external_reader_path io path tree w = Ok tree' \<and>
    mt_read_at (lc_types io flog el A) (2 ^ m) 0 0 tree' i w = Ok (xs ! i) \<and>
    gen_cached_proof (lc_types io flog el A) (2 ^ m) 0 0 tree' i rows w = Ok (honest_proof (node_hash A) (2 ^ m) k xs i)"
proof -
  let ?C = "lc_types io flog el A :: (fs, fs_file level_cache, 'e, 'a) merkle_types" and ?b = "2 ^ m :: nat"
  have r: "r < k" and bytes: "tree_len ?b k * el_byte_len el < isize_limit"
    using fits by (simp_all add: cached_fits_def tree_fits_def)
  obtain reader where reader: "er_new_from_path io path w = Ok reader" "er_serves reader (encode xs) w"
    using replica_serves [OF replica] by (auto simp: er_new_from_path_def)
  let ?s = "s\<lparr>lc_reader := Some reader\<rparr>"
  let ?tree = "base_tree ?s (?b ^ k) (tree_len ?b k) (Suc k) (tree_root (node_hash A) ?b k xs)"
  have cached: "lc_cached el (node_hash A) ?b k r xs ?s w"
    using s data xs bytes reader(2) by (simp add: lc_cached_def del: row_start.simps)
  have tree': "set_external_reader_path io path tree w = Ok ?tree"
    using reader(1) by (simp add: set_external_reader_path_def tree_def base_tree_def lc_set_external_reader_def with_data_def)
  have ct: "cached_tree ?C ?b k r xs ?tree w" by (rule lc_cached_tree [OF cached r]) simp
  have len: "i < tree_len ?b k" using i tree_len_ge [of ?b k] by linarith
  have "tree_nodes (node_hash A) ?b k xs ! i = xs ! i"
    using take_tree_nodes [OF xs, of "node_hash A"] nth_take [OF i, of "tree_nodes (node_hash A) ?b k xs"] by simp
  moreover have "mt_read_at ?C ?b 0 0 ?tree i w = Ok (tree_nodes (node_hash (mt_A ?C)) ?b k xs ! i)"
    by (rule cached_tree_fields(5) [OF ct len]) (use i in simp)
  ultimately show ?thesis
    using tree' gen_cached_proof_honest [of ?C, simplified, OF element_contract_axioms alg fits rows ct xs i] by simp
qed

end


section \<open>Properties\<close>

text \<open>
  C11: building in a \<open>LevelCacheStore\<close> leaves the cached rows in the file and nothing else, and
  gives the Merkle root. Until \<open>set_external_reader_path\<close> gives the tree a file with the leaves,
  a read at a leaf index returns a node of the cached rows (when there are that many); from then
  on every leaf reads back, and its cached proof is the honest proof.
\<close>

theorem level_cache_tree_proves_with_its_reader:
  assumes "file_io_contract io" and "element_contract el" and "algorithm_contract A"
    and "cached_fits (lc_types io flog el A :: (fs, fs_file level_cache, 'e, 'a) merkle_types) m k (sc_rows_to_discard config)"
    and "discarded_rows (lc_types io flog el A :: (fs, fs_file level_cache, 'e, 'a) merkle_types) (2 ^ m) k rows =
      Ok (sc_rows_to_discard config)"
    and "ds_fresh config w" and "length xs = (2 ^ m) ^ k" and "i < (2 ^ m) ^ k"
  shows "\<exists>tree s w1.
    from_byte_slice_with_config (lc_types io flog el A) (2 ^ m) (concat (map (el_as_ref el) xs)) config w = Ok (tree, w1)
    \<and> tree_data tree = BaseTree s \<and> mt_root tree = merkle_hash (node_hash A) (2 ^ m) k xs
    \<and> fs_names w1 (data_path (sc_path config) (sc_id config)) = Some (lc_file s)
    \<and> (let upper = cached_rows (node_hash A) (2 ^ m) k (sc_rows_to_discard config) xs in
        fs_data w1 (lc_file s) = concat (map (el_as_ref el) upper)
        \<and> (i < length upper \<longrightarrow> mt_read_at (lc_types io flog el A) (2 ^ m) 0 0 tree i w1 = Ok (upper ! i)))
    \<and> (\<forall>path w2. fs_data w2 (lc_file s) = fs_data w1 (lc_file s) \<longrightarrow>
        replica_holds (replica_config_from path) 0 (concat (map (el_as_ref el) xs)) w2 \<longrightarrow>
        (\<exists>tree'. set_external_reader_path io path tree w2 = Ok tree'
          \<and> mt_read_at (lc_types io flog el A) (2 ^ m) 0 0 tree' i w2 = Ok (xs ! i)
          \<and> gen_cached_proof (lc_types io flog el A) (2 ^ m) 0 0 tree' i rows w2 =
              Ok (honest_proof (node_hash A) (2 ^ m) k xs i)))"
proof -
  let ?C = "lc_types io flog el A :: (fs, fs_file level_cache, 'e, 'a) merkle_types" and ?b = "2 ^ m :: nat"
  let ?r = "sc_rows_to_discard config"
  note M = mapped_layer.intro [OF assms(1,2)]
  obtain s :: "fs_file level_cache" and w1 where built:
    "from_byte_slice_with_config ?C ?b (concat (map (el_as_ref el) xs)) config w =
      Ok (base_tree s (?b ^ k) (tree_len ?b k) (Suc k) (tree_root (node_hash A) ?b k xs), w1)"
    and name: "fs_names w1 (data_path (sc_path config) (sc_id config)) = Some (lc_file s)"
    and data: "fs_data w1 (lc_file s) = concat (map (el_as_ref el) (cached_rows (node_hash A) ?b k ?r xs))"
    and s: "lc_reader s = None" "lc_len s = tree_len ?b k" "lc_elem_len s = el_byte_len el" "lc_data_width s = ?b ^ k"
      "lc_cache_index_start s = row_start ?b k (Suc ?r) * el_byte_len el"
    using mapped_layer.built_level_cache_tree [OF M assms(4,6,7)] by blast
  let ?tree = "base_tree s (?b ^ k) (tree_len ?b k) (Suc k) (tree_root (node_hash A) ?b k xs)"
  have cf: "compact_fits flog m k ?r" and bytes: "tree_len ?b k * el_byte_len el < isize_limit"
    using assms(4) by (simp_all add: cached_fits_def tree_fits_def compact_fits_def)
  have "mt_read_at ?C ?b 0 0 ?tree i w1 = Ok (cached_rows (node_hash A) ?b k ?r xs ! i)"
    if "i < length (cached_rows (node_hash A) ?b k ?r xs)"
    using mapped_layer.unread_leaf [OF M s(2-5,1) cf bytes assms(7) data _ assms(8)] that
      length_cached_rows [OF cf assms(7), of "node_hash A"]
    by (simp add: mt_read_at.simps base_tree_def)
  moreover have "tree_root (node_hash A) ?b k xs = merkle_hash (node_hash A) ?b k xs"
    using assms(7) by (intro tree_root_merkle_hash) simp_all
  moreover note mapped_layer.read_leaves [OF M assms(4,5,3,7,8) s(2-5)] data
  ultimately show ?thesis
    using built name by (intro exI [of _ ?tree] exI [of _ s] exI [of _ w1] conjI)
      (simp_all add: base_tree_def mt_root_def Let_def)
qed

theorem level_cache_tree_proves_with_its_reader_witness:
  "\<exists>tree w1 w2 tree'.
    from_byte_slice_with_config (lc_types model_io exact_flog item_element xor128_algorithm) 2
      (concat (map (el_as_ref item_element) disk_test_leaves)) test_config empty_fs = Ok (tree, w1)
    \<and> set_external_reader_path model_io ''replica'' tree w2 = Ok tree'
    \<and> mt_read_at (lc_types model_io exact_flog item_element xor128_algorithm) 2 0 0 tree' 5 w2 = Ok item_zero
    \<and> gen_cached_proof (lc_types model_io exact_flog item_element xor128_algorithm) 2 0 0 tree' 5 (Some 1) w2 =
        Ok (honest_proof (node_hash xor128_algorithm) 2 3 disk_test_leaves 5)"
proof -
  let ?C = "lc_types model_io exact_flog item_element xor128_algorithm :: (fs, fs_file level_cache, item, xor128) merkle_types"
  let ?bytes = "concat (map (el_as_ref item_element) disk_test_leaves)"
  have fits: "cached_fits ?C 1 3 (sc_rows_to_discard test_config)"
    using cached_fits_lc [OF disk_test_fits(1)] by blast
  have rows: "discarded_rows ?C (2 ^ 1) 3 (Some 1) = Ok (sc_rows_to_discard test_config)"
    using disk_test_rows discarded_rows_lc [of model_io exact_flog item_element xor128_algorithm] by metis
  have i: "5 < (2 ^ 1 :: nat) ^ 3" by simp
  obtain tree and s :: "fs_file level_cache" and w1 where
    built: "from_byte_slice_with_config ?C (2 ^ 1) ?bytes test_config empty_fs = Ok (tree, w1)"
    and later: "\<forall>path w2. fs_data w2 (lc_file s) = fs_data w1 (lc_file s) \<longrightarrow>
        replica_holds (replica_config_from path) 0 ?bytes w2 \<longrightarrow>
        (\<exists>tree'. set_external_reader_path model_io path tree w2 = Ok tree'
          \<and> mt_read_at ?C (2 ^ 1) 0 0 tree' 5 w2 = Ok (disk_test_leaves ! 5)
          \<and> gen_cached_proof ?C (2 ^ 1) 0 0 tree' 5 (Some 1) w2 =
              Ok (honest_proof (node_hash xor128_algorithm) (2 ^ 1) 3 disk_test_leaves 5))"
    using level_cache_tree_proves_with_its_reader [OF disk_test_contracts fits rows disk_test_fits(4,5) i] by blast
  let ?w2 = "fs_link ''replica'' (Suc (lc_file s)) (fs_put (Suc (lc_file s)) ?bytes w1)"
  have "length ?bytes = 8 * 16"
    unfolding item.length_concat_as_ref by (simp add: item_element_def)
  then have "replica_holds (replica_config_from ''replica'') 0 ?bytes ?w2"
    by (simp add: replica_holds_def replica_config_from_def)
  moreover have "fs_data ?w2 (lc_file s) = fs_data w1 (lc_file s)" by simp
  ultimately have "\<exists>tree'. set_external_reader_path model_io ''replica'' tree ?w2 = Ok tree'
      \<and> mt_read_at ?C (2 ^ 1) 0 0 tree' 5 ?w2 = Ok (disk_test_leaves ! 5)
      \<and> gen_cached_proof ?C (2 ^ 1) 0 0 tree' 5 (Some 1) ?w2 =
          Ok (honest_proof (node_hash xor128_algorithm) (2 ^ 1) 3 disk_test_leaves 5)"
    using later by blast
  moreover have "disk_test_leaves ! 5 = item_zero" by (rule nth_replicate) simp
  ultimately show ?thesis using built unfolding power_one_right by metis
qed

end
