(* ===== verification/Mmap_Store.thy ===== *)
theory Mmap_Store
  imports File_System Store_Contract
begin

text \<open>
  \<open>MmapStore\<close> of \<open>src/store/mmap.rs\<close>: a file that is read and written through one mapping of
  all of it. The mapping can be taken away (\<open>compact\<close>) and put back (\<open>reinit\<close>, which the writing
  methods call by themselves). The trait's default \<open>build\<close> runs over it.
\<close>

section \<open>The mapping\<close>

record mmap_store =
  ms_path :: path_buf
  ms_map :: "mapping option"
  ms_file :: fs_file
  ms_len :: nat
  ms_store_size :: nat

text \<open>\<open>MmapMut::map_mut(&file)\<close>: the whole file.\<close>

definition map_file :: "file_io \<Rightarrow> fs_file \<Rightarrow> fs \<Rightarrow> mapping outcome" where
  "map_file io f w =
     (let n = fs_metadata_len f w in
      and_then (io_map_mut io 0 n (fs_data w f)) (\<lambda>_. Ok \<lparr>mm_file = f, mm_offset = 0, mm_len = n\<rparr>))"

text \<open>\<open>deref\<close>: the bytes of the mapping; without one it panics.\<close>

definition ms_deref :: "file_io \<Rightarrow> mmap_store \<Rightarrow> fs \<Rightarrow> byte list outcome" where
  "ms_deref io s w =
     (case ms_map s of None \<Rightarrow> Panic UnwrapNone | Some m \<Rightarrow> Ok (io_map_read io m (fs_data w (mm_file m))))"

text \<open>\<open>self.map.as_mut().unwrap()[start..end].copy_from_slice(bytes)\<close>\<close>

definition ms_write :: "file_io \<Rightarrow> nat \<Rightarrow> nat \<Rightarrow> byte list \<Rightarrow> mmap_store \<Rightarrow> fs \<Rightarrow> fs outcome" where
  "ms_write io start end' bytes s w =
     (case ms_map s of
        None \<Rightarrow> Panic UnwrapNone
      | Some m \<Rightarrow>
          panic_unless (start \<le> end' \<and> end' \<le> mm_len m) IndexOutOfBounds (
          panic_unless (length bytes = end' - start) LengthMismatch (
          Ok (fs_put (mm_file m) (io_map_write io m start bytes (fs_data w (mm_file m))) w))))"

definition ms_reinit :: "file_io \<Rightarrow> mmap_store \<Rightarrow> fs \<Rightarrow> (mmap_store \<times> fs) outcome" where
  "ms_reinit io s w =
     and_then (map_file io (ms_file s) w) (\<lambda>m.
     let s = s\<lparr>ms_map := Some m\<rparr> in
     ensure (ms_map s \<noteq> None) MapNotInitialized (Ok (s, w)))"

text \<open>\<open>if self.map.is_none() { self.reinit()?; }\<close>\<close>

definition ms_mapped :: "file_io \<Rightarrow> mmap_store \<Rightarrow> fs \<Rightarrow> (mmap_store \<times> fs) outcome" where
  "ms_mapped io s w = (if ms_map s = None then ms_reinit io s w else Ok (s, w))"


section \<open>Constructors\<close>

definition ms_new_from_disk ::
  "file_io \<Rightarrow> 'e element \<Rightarrow> nat \<Rightarrow> nat \<Rightarrow> store_config \<Rightarrow> fs \<Rightarrow> (mmap_store \<times> fs) outcome" where
  "ms_new_from_disk io el n branches config w =
     (let path = data_path (sc_path config) (sc_id config) in
      and_then (fs_open path w) (\<lambda>f.
      let store_size = fs_metadata_len f w in
      and_then (usize_mul n (el_byte_len el)) (\<lambda>bytes.
      ensure (store_size = bytes) InvalidFormattedFile (
      and_then (map_file io f w) (\<lambda>m.
      Ok (\<lparr>ms_path = path, ms_map = Some m, ms_file = f, ms_len = n, ms_store_size = store_size\<rparr>, w))))))"

definition ms_new_with_config ::
  "file_io \<Rightarrow> 'e element \<Rightarrow> nat \<Rightarrow> nat \<Rightarrow> store_config \<Rightarrow> fs \<Rightarrow> (mmap_store \<times> fs) outcome" where
  "ms_new_with_config io el n branches config w =
     (let path = data_path (sc_path config) (sc_id config) in
      if fs_exists path w then ms_new_from_disk io el n branches config w
      else
        and_then (fs_create_new path w) (\<lambda>(f, w).
        and_then (usize_mul (el_byte_len el) n) (\<lambda>store_size.
        and_then (fs_set_len f store_size w) (\<lambda>w.
        and_then (map_file io f w) (\<lambda>m.
        Ok (\<lparr>ms_path = path, ms_map = Some m, ms_file = f, ms_len = 0, ms_store_size = store_size\<rparr>, w))))))"

text \<open>\<open>NamedTempFile::new\<close> creates the file under a new name, and \<open>keep\<close> leaves the name in place.\<close>

definition ms_new :: "file_io \<Rightarrow> 'e element \<Rightarrow> nat \<Rightarrow> fs \<Rightarrow> (mmap_store \<times> fs) outcome" where
  "ms_new io el n w =
     and_then (usize_mul (el_byte_len el) n) (\<lambda>store_size.
     and_then (io_named_tempfile io w) (\<lambda>(path, f, w).
     and_then (fs_set_len f store_size w) (\<lambda>w.
     and_then (map_file io f w) (\<lambda>m.
     Ok (\<lparr>ms_path = path, ms_map = Some m, ms_file = f, ms_len = 0, ms_store_size = store_size\<rparr>, w)))))"

definition ms_loaded_from_disk :: "mmap_store \<Rightarrow> bool" where
  "ms_loaded_from_disk s = False"

definition ms_new_from_slice_with_config ::
  "file_io \<Rightarrow> 'e element \<Rightarrow> nat \<Rightarrow> nat \<Rightarrow> byte list \<Rightarrow> store_config \<Rightarrow> fs \<Rightarrow> (mmap_store \<times> fs) outcome" where
  "ms_new_from_slice_with_config io el n branches data config w =
     and_then (usize_rem (length data) (el_byte_len el)) (\<lambda>r.
     ensure (r = 0) NotMultipleOfElement (
     and_then (ms_new_with_config io el n branches config w) (\<lambda>(s, w).
     if \<not> ms_loaded_from_disk s then
       and_then (ms_mapped io s w) (\<lambda>(s, w).
       let len = length data in
       and_then (ms_write io 0 len data s w) (\<lambda>w.
       and_then (usize_div len (el_byte_len el)) (\<lambda>len.
       Ok (s\<lparr>ms_len := len\<rparr>, w))))
     else Ok (s, w))))"

definition ms_new_from_slice ::
  "file_io \<Rightarrow> 'e element \<Rightarrow> nat \<Rightarrow> byte list \<Rightarrow> fs \<Rightarrow> (mmap_store \<times> fs) outcome" where
  "ms_new_from_slice io el n data w =
     and_then (usize_rem (length data) (el_byte_len el)) (\<lambda>r.
     ensure (r = 0) NotMultipleOfElement (
     and_then (ms_new io el n w) (\<lambda>(s, w).
     ensure (ms_map s \<noteq> None) MapNotInitialized (
     let len = length data in
     and_then (ms_write io 0 len data s w) (\<lambda>w.
     and_then (usize_div len (el_byte_len el)) (\<lambda>len.
     Ok (s\<lparr>ms_len := len\<rparr>, w)))))))"


section \<open>Writing and reading\<close>

definition ms_write_at ::
  "file_io \<Rightarrow> 'e element \<Rightarrow> 'e \<Rightarrow> nat \<Rightarrow> mmap_store \<Rightarrow> fs \<Rightarrow> (mmap_store \<times> fs) outcome" where
  "ms_write_at io el x index s w =
     and_then (usize_mul index (el_byte_len el)) (\<lambda>start.
     and_then (usize_add start (el_byte_len el)) (\<lambda>end'.
     and_then (ms_mapped io s w) (\<lambda>(s, w).
     and_then (ms_write io start end' (el_as_ref el x) s w) (\<lambda>w.
     and_then (usize_add index 1) (\<lambda>n.
     Ok (s\<lparr>ms_len := max (ms_len s) n\<rparr>, w))))))"

definition ms_copy_from_slice ::
  "file_io \<Rightarrow> 'e element \<Rightarrow> byte list \<Rightarrow> nat \<Rightarrow> mmap_store \<Rightarrow> fs \<Rightarrow> (mmap_store \<times> fs) outcome" where
  "ms_copy_from_slice io el buf start s w =
     and_then (usize_rem (length buf) (el_byte_len el)) (\<lambda>r.
     ensure (r = 0) BufNotMultiple (
     and_then (usize_mul start (el_byte_len el)) (\<lambda>map_start.
     and_then (usize_add map_start (length buf)) (\<lambda>map_end.
     and_then (ms_mapped io s w) (\<lambda>(s, w).
     and_then (ms_write io map_start map_end buf s w) (\<lambda>w.
     and_then (usize_add start (length buf div el_byte_len el)) (\<lambda>n.
     Ok (s\<lparr>ms_len := max (ms_len s) n\<rparr>, w))))))))"

text \<open>The range a read checks: it gives the bytes between \<open>start\<close> and \<open>end\<close>.\<close>

definition ms_range :: "file_io \<Rightarrow> 'e element \<Rightarrow> nat \<Rightarrow> nat \<Rightarrow> mmap_store \<Rightarrow> fs \<Rightarrow> byte list outcome" where
  "ms_range io el start end' s w =
     and_then (usize_mul (ms_len s) (el_byte_len el)) (\<lambda>len.
     ensure (start < len) OutOfRange (
     ensure (end' \<le> len) OutOfRange (
     and_then (ms_deref io s w) (\<lambda>bytes. slice_of bytes start end'))))"

definition ms_read_at :: "file_io \<Rightarrow> 'e element \<Rightarrow> nat \<Rightarrow> mmap_store \<Rightarrow> fs \<Rightarrow> 'e outcome" where
  "ms_read_at io el index s w =
     ensure (ms_map s \<noteq> None) MapNotInitialized (
     and_then (usize_mul index (el_byte_len el)) (\<lambda>start.
     and_then (usize_add start (el_byte_len el)) (\<lambda>end'.
     and_then (ms_range io el start end' s w) (\<lambda>bytes. el_from_slice el bytes))))"

definition ms_read_into ::
  "file_io \<Rightarrow> 'e element \<Rightarrow> nat \<Rightarrow> byte list \<Rightarrow> mmap_store \<Rightarrow> fs \<Rightarrow> byte list outcome" where
  "ms_read_into io el index buf s w =
     ensure (ms_map s \<noteq> None) MapNotInitialized (
     and_then (usize_mul index (el_byte_len el)) (\<lambda>start.
     and_then (usize_add start (el_byte_len el)) (\<lambda>end'.
     and_then (ms_range io el start end' s w) (\<lambda>bytes.
     panic_unless (length buf = length bytes) LengthMismatch (Ok bytes)))))"

definition ms_read_range_into :: "nat \<Rightarrow> nat \<Rightarrow> byte list \<Rightarrow> mmap_store \<Rightarrow> fs \<Rightarrow> byte list outcome" where
  "ms_read_range_into start end' buf s w = Panic NotImplemented"

definition ms_read_range ::
  "file_io \<Rightarrow> 'e element \<Rightarrow> nat \<Rightarrow> nat \<Rightarrow> mmap_store \<Rightarrow> fs \<Rightarrow> 'e list outcome" where
  "ms_read_range io el a b s w =
     ensure (ms_map s \<noteq> None) MapNotInitialized (
     and_then (usize_mul a (el_byte_len el)) (\<lambda>start.
     and_then (usize_mul b (el_byte_len el)) (\<lambda>end'.
     and_then (ms_range io el start end' s w) (\<lambda>bytes.
     panic_unless (el_byte_len el \<noteq> 0) AssertFailed (
     map_outcome (el_from_slice el) (chunks (el_byte_len el) bytes))))))"

definition ms_compact ::
  "nat \<Rightarrow> store_config \<Rightarrow> nat \<Rightarrow> mmap_store \<Rightarrow> fs \<Rightarrow> (bool \<times> mmap_store \<times> fs) outcome" where
  "ms_compact branches config store_version s w = Ok (ms_map s \<noteq> None, s\<lparr>ms_map := None\<rparr>, w)"

definition ms_delete :: "store_config \<Rightarrow> fs \<Rightarrow> fs outcome" where
  "ms_delete config w = Ok w"

definition ms_is_empty :: "mmap_store \<Rightarrow> bool" where
  "ms_is_empty s \<longleftrightarrow> ms_len s = 0"

definition ms_push :: "file_io \<Rightarrow> 'e element \<Rightarrow> 'e \<Rightarrow> mmap_store \<Rightarrow> fs \<Rightarrow> (mmap_store \<times> fs) outcome" where
  "ms_push io el x s w =
     (let l = ms_len s in
      and_then (ms_mapped io s w) (\<lambda>(s, w).
      and_then (usize_add l 1) (\<lambda>n.
      and_then (usize_mul n (el_byte_len el)) (\<lambda>bytes.
      (case ms_map s of
         None \<Rightarrow> Panic UnwrapNone
       | Some m \<Rightarrow> ensure (bytes \<le> mm_len m) NotEnoughSpace (ms_write_at io el x l s w))))))"


section \<open>The store\<close>

definition ms_ops :: "file_io \<Rightarrow> 'e element \<Rightarrow> (fs, mmap_store, 'e) store_ops" where
  "ms_ops io el =
     \<lparr>st_new_with_config = ms_new_with_config io el,
      st_new = ms_new io el,
      st_new_from_slice_with_config = ms_new_from_slice_with_config io el,
      st_new_from_slice = ms_new_from_slice io el,
      st_new_from_disk = ms_new_from_disk io el,
      st_write_at = ms_write_at io el,
      st_copy_from_slice = ms_copy_from_slice io el,
      st_compact = ms_compact,
      st_reinit = ms_reinit io,
      st_delete = ms_delete,
      st_read_at = ms_read_at io el,
      st_read_range = ms_read_range io el,
      st_read_into = ms_read_into io el,
      st_read_range_into = ms_read_range_into,
      st_len = ms_len,
      st_loaded_from_disk = ms_loaded_from_disk,
      st_is_empty = ms_is_empty,
      st_push = ms_push io el,
      st_sync = default_sync\<rparr>"

definition mmap_store :: "file_io \<Rightarrow> 'e element \<Rightarrow> (fs, mmap_store, 'e, 'a) store" where
  "mmap_store io el = with_default_build el (ms_ops io el)"

end
