(* ===== verification/Mmap_Store_Correct.thy ===== *)
theory Mmap_Store_Correct
  imports Mmap_Store Disk_Store_Correct
begin

text \<open>
  A mapped \<open>MmapStore\<close> does to its file what a \<open>DiskStore\<close> over the same file does: its contract
  comes from the contract of the \<open>DiskStore\<close> it stands for. Without its mapping it answers no
  read, and the next write maps the file again.
\<close>

section \<open>The DiskStore behind the mapping\<close>

definition ms_disk :: "'e element \<Rightarrow> mmap_store \<Rightarrow> disk_store" where
  "ms_disk el s =
     \<lparr>ds_len = ms_len s, ds_elem_len = el_byte_len el, ds_file = ms_file s, ds_loaded_from_disk = False,
      ds_store_size = ms_store_size s\<rparr>"

definition ms_mapping :: "mmap_store \<Rightarrow> mapping" where
  "ms_mapping s = \<lparr>mm_file = ms_file s, mm_offset = 0, mm_len = ms_store_size s\<rparr>"

text \<open>The store with its mapping, or without: \<open>ms_file_inv\<close> is what stays true in between.\<close>

definition ms_file_inv :: "'e element \<Rightarrow> mmap_store \<Rightarrow> fs \<Rightarrow> bool" where
  "ms_file_inv el s w \<longleftrightarrow> (ms_map s = None \<or> ms_map s = Some (ms_mapping s)) \<and> 0 < ms_store_size s \<and> ds_inv el (ms_disk el s) w"

definition ms_inv :: "'e element \<Rightarrow> mmap_store \<Rightarrow> fs \<Rightarrow> bool" where
  "ms_inv el s w \<longleftrightarrow> ms_map s = Some (ms_mapping s) \<and> ms_file_inv el s w"

definition ms_elems :: "'e element \<Rightarrow> mmap_store \<Rightarrow> fs \<Rightarrow> 'e list" where
  "ms_elems el s w = ds_elems el (ms_disk el s) w"

definition ms_capacity :: "'e element \<Rightarrow> mmap_store \<Rightarrow> fs \<Rightarrow> nat" where
  "ms_capacity el s w = ds_capacity el (ms_disk el s) w"

text \<open>A new store, over a file of zeros.\<close>

definition ms_zeros :: "'e element \<Rightarrow> path_buf \<Rightarrow> fs_file \<Rightarrow> nat \<Rightarrow> mmap_store" where
  "ms_zeros el path f n =
     \<lparr>ms_path = path, ms_map = Some \<lparr>mm_file = f, mm_offset = 0, mm_len = el_byte_len el * n\<rparr>, ms_file = f,
      ms_len = 0, ms_store_size = el_byte_len el * n\<rparr>"

lemma ms_disk_simps [simp]:
  "ds_len (ms_disk el s) = ms_len s" "ds_file (ms_disk el s) = ms_file s" "ds_elem_len (ms_disk el s) = el_byte_len el"
  "ds_store_size (ms_disk el s) = ms_store_size s"
  "ms_disk el (s\<lparr>ms_map := m\<rparr>) = ms_disk el s" "ms_disk el (s\<lparr>ms_len := n\<rparr>) = (ms_disk el s)\<lparr>ds_len := n\<rparr>"
  by (simp_all add: ms_disk_def)

lemma ms_mapping_simps [simp]:
  "mm_file (ms_mapping s) = ms_file s" "mm_len (ms_mapping s) = ms_store_size s" "mm_offset (ms_mapping s) = 0"
  "ms_mapping (s\<lparr>ms_map := m\<rparr>) = ms_mapping s" "ms_mapping (s\<lparr>ms_len := n\<rparr>) = ms_mapping s"
  by (simp_all add: ms_mapping_def)

context mapped_layer
begin

text \<open>The mapping comes back as it was.\<close>

lemma ms_mapped_Ok:
  assumes "ms_file_inv el s w"
  shows "ms_mapped io s w = Ok (s\<lparr>ms_map := Some (ms_mapping s)\<rparr>, w)" and "ms_inv el (s\<lparr>ms_map := Some (ms_mapping s)\<rparr>) w"
proof -
  have size: "ms_store_size s = length (fs_data w (ms_file s))" "0 < ms_store_size s"
    using assms ds_inv_facts(3) [of "ms_disk el s" w] by (simp_all add: ms_file_inv_def)
  have "s\<lparr>ms_map := Some (ms_mapping s)\<rparr> = s" if "ms_map s = Some (ms_mapping s)"
    using that by simp
  then show "ms_mapped io s w = Ok (s\<lparr>ms_map := Some (ms_mapping s)\<rparr>, w)"
    using assms size map_mut_Ok [OF size(2), of 0 "fs_data w (ms_file s)"]
    by (auto simp: ms_mapped_def ms_reinit_def map_file_def Let_def fs_metadata_len_def ms_file_inv_def ms_mapping_def)
  show "ms_inv el (s\<lparr>ms_map := Some (ms_mapping s)\<rparr>) w"
    using assms by (simp add: ms_inv_def ms_file_inv_def)
qed

lemma ms_inv_mapped: "ms_inv el s w \<Longrightarrow> ms_mapped io s w = Ok (s, w)"
  by (simp add: ms_mapped_def ms_inv_def)

text \<open>Reads and writes through the mapping are those of the file.\<close>

lemma ms_range_Ok:
  assumes inv: "ms_inv el s w" and ab: "a < b" "b \<le> ms_len s"
  shows "ms_range io el (a * el_byte_len el) (b * el_byte_len el) s w =
    Ok (encode (take (b - a) (drop a (ms_elems el s w))))"
proof -
  let ?bl = "el_byte_len el" and ?D = "fs_data w (ms_file s)"
  have ds: "ds_inv el (ms_disk el s) w" and map: "ms_map s = Some (ms_mapping s)"
    using inv by (simp_all add: ms_inv_def ms_file_inv_def)
  note f = ds_inv_facts [OF ds, unfolded ms_disk_simps]
  have b: "b \<le> ds_capacity el (ms_disk el s) w" using ab(2) f(7) by linarith
  have le: "a * ?bl \<le> b * ?bl" "b * ?bl \<le> ms_len s * ?bl" using ab by (auto intro: mult_le_mono1)
  have lt: "a * ?bl < b * ?bl" using ab(1) byte_len_pos by simp
  have fits: "b * ?bl \<le> length ?D" using f(5) f(8) [OF b] by linarith
  have "ms_deref io s w = Ok ?D"
    using map map_read_Ok [of "ms_mapping s" ?D] f(3) by (simp add: ms_deref_def)
  moreover have "slice_of ?D (a * ?bl) (b * ?bl) = Ok (encode (take (b - a) (drop a (decode_elements el ?D))))"
  proof -
    have "slice_of ?D (a * ?bl) (b * ?bl) = Ok (take ((b - a) * ?bl) (drop (a * ?bl) ?D))"
      using fits le(1) by (simp add: diff_mult_distrib)
    then show ?thesis using buffer_range [of a "b - a" ?D] ab(1) b f(4) by simp
  qed
  moreover have "take (b - a) (drop a (ms_elems el s w)) = take (b - a) (drop a (decode_elements el ?D))"
    using ab by (simp add: ms_elems_def ds_elems_def drop_take min_def)
  ultimately show ?thesis
    using f(9) [OF f(7)] le(2) lt by (simp add: ms_range_def)
qed

lemma ms_write_Ok:
  assumes inv: "ms_inv el s w" and fits: "i + length es \<le> ms_capacity el s w"
  defines "w' \<equiv> fs_put (ms_file s) (overwrite (i * el_byte_len el) (encode es) (fs_data w (ms_file s))) w"
    and "s' \<equiv> s\<lparr>ms_len := max (ms_len s) (i + length es)\<rparr>"
  shows "ms_write io (i * el_byte_len el) (i * el_byte_len el + length (encode es)) (encode es) s w = Ok w'"
    and "ms_inv el s' w'" and "ms_capacity el s' w' = ms_capacity el s w"
    and "written i es (ms_elems el s w) (ms_elems el s' w')"
proof -
  let ?bl = "el_byte_len el" and ?D = "fs_data w (ms_file s)"
  have ds: "ds_inv el (ms_disk el s) w" and map: "ms_map s = Some (ms_mapping s)"
    using inv by (simp_all add: ms_inv_def ms_file_inv_def)
  note f = ds_inv_facts [OF ds, unfolded ms_disk_simps]
  note wr = ds_write_Ok [OF ds fits [unfolded ms_capacity_def], simplified, folded w'_def]
  have "(i + length es) * ?bl \<le> length ?D"
    using f(5) f(8) [OF fits [unfolded ms_capacity_def]] by linarith
  then have le: "i * ?bl + length (encode es) \<le> length ?D" by (simp add: length_concat_as_ref distrib_right)
  then show "ms_write io (i * ?bl) (i * ?bl + length (encode es)) (encode es) s w = Ok w'"
    using map map_write_Ok [of "i * ?bl" "encode es" "ms_mapping s" ?D] f(3)
    by (simp add: ms_write_def w'_def)
  show "ms_capacity el s' w' = ms_capacity el s w" using wr(3) by (simp add: ms_capacity_def s'_def)
  show "ms_inv el s' w'" using wr(2) inv by (simp add: ms_inv_def ms_file_inv_def s'_def)
  show "written i es (ms_elems el s w) (ms_elems el s' w')" using wr(4) by (simp add: ms_elems_def s'_def)
qed

lemma ms_word:
  assumes "ms_inv el s w" and "i \<le> ms_capacity el s w"
  shows "usize_mul i (el_byte_len el) = Ok (i * el_byte_len el)" and "i < isize_limit"
proof -
  have ds: "ds_inv el (ms_disk el s) w" using assms(1) by (simp add: ms_inv_def ms_file_inv_def)
  show "usize_mul i (el_byte_len el) = Ok (i * el_byte_len el)"
    using ds_inv_facts(9) [OF ds] assms(2) by (simp add: ms_capacity_def)
  show "i < isize_limit" using ds_word [OF ds] assms(2) by (simp add: ms_capacity_def)
qed

text \<open>The writing methods: they map the file first, if they have to.\<close>

lemma ms_copy_from_slice_Ok:
  assumes "ms_file_inv el s w" and "i + length es \<le> ms_capacity el s w"
  shows "\<exists>s' w'. ms_copy_from_slice io el (encode es) i s w = Ok (s', w') \<and> ms_inv el s' w' \<and>
    ms_capacity el s' w' = ms_capacity el s w \<and> written i es (ms_elems el s w) (ms_elems el s' w')"
proof -
  let ?s = "s\<lparr>ms_map := Some (ms_mapping s)\<rparr>" and ?bl = "el_byte_len el"
  note m = ms_mapped_Ok [OF assms(1)]
  have same: "ms_capacity el ?s w = ms_capacity el s w" "ms_elems el ?s w = ms_elems el s w" "ms_len ?s = ms_len s"
    by (simp_all add: ms_capacity_def ms_elems_def)
  have cap: "i + length es \<le> ms_capacity el ?s w" using assms(2) same by simp
  note wr = ms_write_Ok [OF m(2) cap, simplified]
  have ds: "ds_inv el (ms_disk el s) w" using assms(1) by (simp add: ms_file_inv_def)
  have "(i + length es) * ?bl < usize_limit"
    using ds_inv_facts(6,8) [OF ds] assms(2) unfolding ms_capacity_def by (meson le_less_trans)
  then have add: "usize_add (i * ?bl) (length (encode es)) = Ok (i * ?bl + length (encode es))"
    by (intro usize_add_Ok) (simp add: length_concat_as_ref distrib_right)
  have "ms_copy_from_slice io el (encode es) i s w =
      Ok (?s\<lparr>ms_len := max (ms_len s) (i + length es)\<rparr>,
        fs_put (ms_file s) (overwrite (i * ?bl) (encode es) (fs_data w (ms_file s))) w)"
    using m(1) wr(1) add ms_word [OF m(2), of i] ms_word(2) [OF m(2) cap] cap byte_len_pos
    by (simp add: ms_copy_from_slice_def length_concat_mod length_concat_div)
  then show ?thesis using wr(2-4) same by simp
qed

lemma ms_write_at_copy: "ms_write_at io el x i s w = ms_copy_from_slice io el (encode [x]) i s w"
  using byte_len_pos as_ref_length [of x]
  by (simp add: ms_write_at_def ms_copy_from_slice_def cong del: and_then_weak_cong)

lemma ms_read_at_Ok:
  assumes "ms_inv el s w" and "i < ms_len s"
  shows "ms_read_at io el i s w = Ok (ms_elems el s w ! i)"
proof -
  have ds: "ds_inv el (ms_disk el s) w" and map: "ms_map s = Some (ms_mapping s)"
    using assms(1) by (simp_all add: ms_inv_def ms_file_inv_def)
  note f = ds_inv_facts [OF ds, unfolded ms_disk_simps]
  have i: "Suc i \<le> ds_capacity el (ms_disk el s) w" using assms(2) f(7) by simp
  have "length (ms_elems el s w) = ms_len s" using ds_length_elems [OF ds] by (simp add: ms_elems_def)
  then have "take (Suc i - i) (drop i (ms_elems el s w)) = [ms_elems el s w ! i]"
    using assms(2) by (simp add: take_Suc_conv_app_nth Cons_nth_drop_Suc [symmetric])
  moreover have "usize_add (i * el_byte_len el) (el_byte_len el) = Ok (Suc i * el_byte_len el)"
    using le_less_trans [OF f(8) [OF i] f(6)] by (subst usize_add_Ok) (simp_all add: add.commute)
  ultimately show ?thesis
    using ms_range_Ok [OF assms(1), of i "Suc i"] assms(2) map ms_word(1) [OF assms(1), of i] i
    by (simp add: ms_read_at_def from_slice_as_ref ms_capacity_def del: mult_Suc)
qed

lemma ms_read_at_outside:
  assumes "ms_inv el s w" and "ms_len s \<le> i"
  shows "\<not> is_ok (ms_read_at io el i s w)"
proof -
  have "ms_len s * el_byte_len el \<le> i * el_byte_len el" using assms(2) by (rule mult_le_mono1)
  then show ?thesis
    by (auto simp: ms_read_at_def ms_range_def is_ok_iff elim!: and_then_OkE split: if_splits)
      (auto simp: usize_mul_def split: if_splits)
qed

lemma ms_read_range_Ok:
  assumes "ms_inv el s w" and "a < b" and "b \<le> ms_len s"
  shows "ms_read_range io el a b s w = Ok (take (b - a) (drop a (ms_elems el s w)))"
proof -
  have ds: "ds_inv el (ms_disk el s) w" and map: "ms_map s = Some (ms_mapping s)"
    using assms(1) by (simp_all add: ms_inv_def ms_file_inv_def)
  have "b \<le> ms_capacity el s w" using ds_inv_facts(7) [OF ds] assms(3) by (simp add: ms_capacity_def)
  then have mul: "usize_mul a (el_byte_len el) = Ok (a * el_byte_len el)" "usize_mul b (el_byte_len el) = Ok (b * el_byte_len el)"
    using ms_word(1) [OF assms(1)] assms(2) by simp_all
  have "map_outcome (el_from_slice el) (chunks (el_byte_len el) (encode (take (b - a) (drop a (ms_elems el s w))))) =
      Ok (take (b - a) (drop a (ms_elems el s w)))"
    by (simp only: chunks_concat_as_ref map_from_slice_as_ref)
  then show ?thesis
    using ms_range_Ok [OF assms] mul map byte_len_pos by (simp add: ms_read_range_def)
qed


section \<open>The constructors\<close>

text \<open>A new file: it is mapped as a whole, so it must not be empty.\<close>

lemma ms_empty:
  assumes n: "0 < n" "n * el_byte_len el < isize_limit" and empty: "fs_data w f = []"
  obtains w' where "usize_mul (el_byte_len el) n = Ok (el_byte_len el * n)"
    and "fs_set_len f (el_byte_len el * n) w = Ok w'"
    and "map_file io f w' = Ok \<lparr>mm_file = f, mm_offset = 0, mm_len = el_byte_len el * n\<rparr>"
    and "ms_inv el (ms_zeros el path f n) w'" and "ms_elems el (ms_zeros el path f n) w' = []"
    and "ms_capacity el (ms_zeros el path f n) w' = n" and "fs_names w' = fs_names w"
proof -
  have size: "0 < el_byte_len el * n" "el_byte_len el * n < isize_limit" using n byte_len_pos by (simp_all add: mult.commute)
  let ?w = "fs_put f (replicate (el_byte_len el * n) 0) w"
  have set: "fs_set_len f (el_byte_len el * n) w = Ok ?w" using size(2) empty by (simp add: fs_set_len_def)
  have "io_map_mut io 0 (el_byte_len el * n) (fs_data ?w f) = Ok ()" by (rule map_mut_Ok [OF size(1)])
  then have map: "map_file io f ?w = Ok \<lparr>mm_file = f, mm_offset = 0, mm_len = el_byte_len el * n\<rparr>"
    by (simp add: map_file_def fs_metadata_len_def)
  show thesis
    by (rule that [OF _ set map])
      (use size byte_len_pos in \<open>simp_all add: ms_zeros_def ms_inv_def ms_file_inv_def ms_mapping_def ms_elems_def ms_capacity_def
        ms_disk_def ds_inv_def ds_elems_def ds_capacity_def usize_mul_def\<close>)
qed

lemma ms_new_Ok:
  assumes "0 < n" and "n * el_byte_len el < isize_limit"
  shows "\<exists>s w'. ms_new io el n w = Ok (s, w') \<and> ms_inv el s w' \<and> ms_elems el s w' = [] \<and> n \<le> ms_capacity el s w'"
proof -
  obtain path where path: "io_named_tempfile io w =
      Ok (path, fst (fs_alloc w), fs_link path (fst (fs_alloc w)) (snd (fs_alloc w)))"
    using named_tempfile_Ok by blast
  have "fs_data (fs_link path (fs_next w) (snd (fs_alloc w))) (fs_next w) = []" by simp
  then show ?thesis
  proof (rule ms_empty [OF assms, where path = path])
    fix w'
    let ?s = "ms_zeros el path (fs_next w) n"
    assume *: "usize_mul (el_byte_len el) n = Ok (el_byte_len el * n)"
      "fs_set_len (fs_next w) (el_byte_len el * n) (fs_link path (fs_next w) (snd (fs_alloc w))) = Ok w'"
      "map_file io (fs_next w) w' = Ok \<lparr>mm_file = fs_next w, mm_offset = 0, mm_len = el_byte_len el * n\<rparr>"
      and s: "ms_inv el ?s w'" "ms_elems el ?s w' = []" "ms_capacity el ?s w' = n"
    have "ms_new io el n w = Ok (?s, w')"
      using path * by (simp add: ms_new_def ms_zeros_def)
    with s show ?thesis by simp
  qed
qed

lemma ms_new_with_config_Ok:
  assumes "ds_fresh config w" and "0 < n" and "n * el_byte_len el < isize_limit"
  shows "\<exists>s w'. ms_new_with_config io el n branches config w = Ok (s, w') \<and> ms_inv el s w' \<and>
    ms_elems el s w' = [] \<and> ms_capacity el s w' = n \<and>
    fs_names w' (data_path (sc_path config) (sc_id config)) = Some (ms_file s)"
proof -
  let ?path = "data_path (sc_path config) (sc_id config)"
  let ?w = "fs_link ?path (fs_next w) (snd (fs_alloc w))"
  have create: "fs_create_new ?path w = Ok (fs_next w, ?w)"
    using assms(1) by (simp add: fs_create_new_def ds_fresh_def split_beta)
  have "fs_data ?w (fs_next w) = []" by simp
  then show ?thesis
  proof (rule ms_empty [OF assms(2,3), where path = ?path])
    fix w'
    let ?s = "ms_zeros el ?path (fs_next w) n"
    assume *: "usize_mul (el_byte_len el) n = Ok (el_byte_len el * n)"
      "fs_set_len (fs_next w) (el_byte_len el * n) ?w = Ok w'"
      "map_file io (fs_next w) w' = Ok \<lparr>mm_file = fs_next w, mm_offset = 0, mm_len = el_byte_len el * n\<rparr>"
      and s: "ms_inv el ?s w'" "ms_elems el ?s w' = []" "ms_capacity el ?s w' = n" "fs_names w' = fs_names ?w"
    have "ms_new_with_config io el n branches config w = Ok (?s, w')"
      using create assms(1) * by (simp add: ms_new_with_config_def ds_fresh_def ms_zeros_def)
    moreover have "ms_file ?s = fs_next w" by (simp add: ms_zeros_def)
    ultimately show ?thesis using s by simp
  qed
qed

text \<open>The leaves go to the front of the new store.\<close>

lemma ms_populate_Ok:
  assumes inv: "ms_inv el s w" and len: "ms_len s = 0" and fits: "length es \<le> ms_capacity el s w"
  shows "\<exists>w'. ms_write io 0 (length (encode es)) (encode es) s w = Ok w' \<and> ms_inv el (s\<lparr>ms_len := length es\<rparr>) w' \<and>
    ms_elems el (s\<lparr>ms_len := length es\<rparr>) w' = es \<and>
    ms_capacity el (s\<lparr>ms_len := length es\<rparr>) w' = ms_capacity el s w \<and> fs_names w' = fs_names w"
proof -
  have "ms_elems el s w = []" using len by (simp add: ms_elems_def ds_elems_def)
  then show ?thesis
    using ms_write_Ok [OF inv, of 0 es] fits len written_end [of "[]" es] by auto
qed

lemma ms_len_elems: "ms_inv el s w \<Longrightarrow> length (ms_elems el s w) = ms_len s"
  using ds_length_elems [of "ms_disk el s" w] by (simp add: ms_elems_def ms_inv_def ms_file_inv_def)

lemma ms_new_from_slice_Ok:
  assumes "0 < n" and "n * el_byte_len el < isize_limit" and "length es \<le> n"
  shows "\<exists>s w'. ms_new_from_slice io el n (encode es) w = Ok (s, w') \<and> ms_inv el s w' \<and>
    ms_elems el s w' = es \<and> n \<le> ms_capacity el s w'"
proof -
  obtain s w1 where new: "ms_new io el n w = Ok (s, w1)" "ms_inv el s w1" "ms_elems el s w1 = []" "n \<le> ms_capacity el s w1"
    using ms_new_Ok [OF assms(1,2)] by blast
  have "ms_len s = 0" using ms_len_elems [OF new(2)] new(3) by simp
  from ms_populate_Ok [OF new(2) this, of es] new assms(3) show ?thesis
    using byte_len_pos by (auto simp: ms_new_from_slice_def length_concat_mod length_concat_div ms_inv_def)
qed

lemma ms_new_from_slice_with_config_Ok:
  assumes "ds_fresh config w" and "0 < n" and "n * el_byte_len el < isize_limit" and "length es \<le> n"
  shows "\<exists>s w'. ms_new_from_slice_with_config io el n branches (encode es) config w = Ok (s, w') \<and>
    ms_inv el s w' \<and> ms_elems el s w' = es \<and> n \<le> ms_capacity el s w'"
proof -
  obtain s w1 where new: "ms_new_with_config io el n branches config w = Ok (s, w1)" "ms_inv el s w1"
    "ms_elems el s w1 = []" "ms_capacity el s w1 = n"
    using ms_new_with_config_Ok [OF assms(1-3)] by blast
  have "ms_len s = 0" using ms_len_elems [OF new(2)] new(3) by simp
  from ms_populate_Ok [OF new(2) this, of es] new assms(4) show ?thesis
    using byte_len_pos ms_inv_mapped [OF new(2)]
    by (auto simp: ms_new_from_slice_with_config_def ms_loaded_from_disk_def length_concat_mod length_concat_div)
qed

section \<open>The contract\<close>

lemma ms_store_contract:
  "store_contract el (ms_ops io el) (ms_inv el) (ms_elems el) (ms_capacity el) (\<lambda>w. True) ds_fresh"
proof
  fix s w i and x :: 'e and es :: "'e list"
  assume inv: "ms_inv el s w"
  then have finv: "ms_file_inv el s w" and ds: "ds_inv el (ms_disk el s) w"
    by (simp_all add: ms_inv_def ms_file_inv_def)
  note f = ds_inv_facts [OF ds]
  show "ms_capacity el s w * el_byte_len el < usize_limit" using f(6) by (simp add: ms_capacity_def)
  show "length (ms_elems el s w) \<le> ms_capacity el s w"
    using ms_len_elems [OF inv] f(7) by (simp add: ms_capacity_def)
  show "st_len (ms_ops io el) s = length (ms_elems el s w)"
    using ms_len_elems [OF inv] by (simp add: ms_ops_def)
  show "st_is_empty (ms_ops io el) s \<longleftrightarrow> ms_elems el s w = []"
    using ms_len_elems [OF inv] by (auto simp: ms_ops_def ms_is_empty_def)
  show "i < ms_capacity el s w \<Longrightarrow> \<exists>s' w'. st_write_at (ms_ops io el) x i s w = Ok (s', w') \<and> ms_inv el s' w' \<and>
      ms_capacity el s' w' = ms_capacity el s w \<and> written i [x] (ms_elems el s w) (ms_elems el s' w')"
    using ms_copy_from_slice_Ok [OF finv, of i "[x]"] by (simp add: ms_ops_def ms_write_at_copy)
  show "i + length es \<le> ms_capacity el s w \<Longrightarrow>
      \<exists>s' w'. st_copy_from_slice (ms_ops io el) (encode es) i s w = Ok (s', w') \<and> ms_inv el s' w' \<and>
        ms_capacity el s' w' = ms_capacity el s w \<and> written i es (ms_elems el s w) (ms_elems el s' w')"
    using ms_copy_from_slice_Ok [OF finv, of i es] by (simp add: ms_ops_def)
next
  fix config w n branches
  assume "ds_fresh config w" and "0 < n" and "n * el_byte_len el < isize_limit"
  from ms_new_with_config_Ok [OF this, of branches]
  show "\<exists>s w'. st_new_with_config (ms_ops io el) n branches config w = Ok (s, w') \<and> ms_inv el s w' \<and>
      ms_elems el s w' = [] \<and> n \<le> ms_capacity el s w' \<and> \<not> st_loaded_from_disk (ms_ops io el) s"
    by (auto simp: ms_ops_def ms_loaded_from_disk_def)
qed (simp_all add: ms_ops_def ms_len_elems ms_read_at_Ok ms_read_at_outside ms_read_range_Ok ms_new_Ok default_sync_def
    ms_new_from_slice_Ok ms_new_from_slice_with_config_Ok del: Product_Type.split_paired_Ex)

lemma ms_tree_store: "tree_store el (mmap_store io el) (ms_inv el) (ms_elems el) (ms_capacity el) (\<lambda>w. True) ds_fresh"
  unfolding mmap_store_def by (rule default_tree_store [OF ms_store_contract])

lemma ms_push_Ok:
  assumes "ms_file_inv el s w" and "ms_len s < ms_capacity el s w"
  shows "\<exists>s' w'. ms_push io el x s w = Ok (s', w') \<and> ms_inv el s' w' \<and> ms_elems el s' w' = ms_elems el s w @ [x]"
proof -
  let ?s = "s\<lparr>ms_map := Some (ms_mapping s)\<rparr>" and ?bl = "el_byte_len el"
  note m = ms_mapped_Ok [OF assms(1)]
  have ds: "ds_inv el (ms_disk el s) w" using assms(1) by (simp add: ms_file_inv_def)
  note f = ds_inv_facts [OF ds]
  have same: "ms_capacity el ?s w = ms_capacity el s w" "ms_elems el ?s w = ms_elems el s w" "ms_len ?s = ms_len s"
    by (simp_all add: ms_capacity_def ms_elems_def)
  have n: "Suc (ms_len s) \<le> ms_capacity el s w" using assms(2) by simp
  have "Suc (ms_len s) * ?bl \<le> ms_store_size s"
    using f(3,5) f(8) [OF n [unfolded ms_capacity_def]] by simp
  moreover have "usize_mul (Suc (ms_len s)) ?bl = Ok (Suc (ms_len s) * ?bl)" "usize_add (ms_len s) 1 = Ok (Suc (ms_len s))"
    using ms_word [OF m(2), of "Suc (ms_len s)"] n same by simp_all
  moreover have "ms_map ?s = Some (ms_mapping s)" by simp
  ultimately have "ms_push io el x s w = ms_copy_from_slice io el (encode [x]) (ms_len s) ?s w"
    using m(1) by (simp add: ms_push_def Let_def ms_write_at_copy del: mult_Suc)
  moreover have finv: "ms_file_inv el ?s w" using m(2) by (simp add: ms_inv_def)
  have "ms_len s = length (ms_elems el s w)" using ds_length_elems [OF ds] by (simp add: ms_elems_def)
  moreover obtain s' w' where "ms_copy_from_slice io el (encode [x]) (ms_len s) ?s w = Ok (s', w')" "ms_inv el s' w'"
    "written (ms_len s) [x] (ms_elems el ?s w) (ms_elems el s' w')"
    using ms_copy_from_slice_Ok [OF finv, of "ms_len s" "[x]"] n same by auto
  ultimately show ?thesis using same by (auto simp: written_end)
qed

text \<open>Without the mapping every read is refused, whatever the index.\<close>

lemma ms_unmapped_reads:
  assumes "ms_map s = None"
  shows "ms_read_at io el i s w = Err MapNotInitialized" and "ms_read_range io el a b s w = Err MapNotInitialized"
    and "ms_read_into io el i buf s w = Err MapNotInitialized"
  using assms by (simp_all add: ms_read_at_def ms_read_range_def ms_read_into_def)

end

interpretation bytes32_mmap_store: tree_store bytes32_element "mmap_store model_io bytes32_element"
  "ms_inv bytes32_element" "ms_elems bytes32_element" "ms_capacity bytes32_element" "\<lambda>w. True" ds_fresh
  by (rule bytes32_disk.ms_tree_store)

end
