(* ===== verification/Mmap_Life.thy ===== *)
theory Mmap_Life
  imports Mmap_Store_Correct
begin

text \<open>
  A \<open>MmapStore\<close> through any sequence of writes, compactions and re-mappings: the states it can
  reach, and what holds in each of them.
\<close>

section \<open>Steps\<close>

inductive mmap_step :: "file_io \<Rightarrow> 'e element \<Rightarrow> mmap_store \<times> fs \<Rightarrow> mmap_store \<times> fs \<Rightarrow> bool" for io el where
  write_at: "ms_write_at io el x i s w = Ok (s', w') \<Longrightarrow> mmap_step io el (s, w) (s', w')"
| copy_from_slice: "ms_copy_from_slice io el buf i s w = Ok (s', w') \<Longrightarrow> mmap_step io el (s, w) (s', w')"
| push: "ms_push io el x s w = Ok (s', w') \<Longrightarrow> mmap_step io el (s, w) (s', w')"
| compact: "ms_compact branches config version s w = Ok (r, s', w') \<Longrightarrow> mmap_step io el (s, w) (s', w')"
| reinit: "ms_reinit io s w = Ok (s', w') \<Longrightarrow> mmap_step io el (s, w) (s', w')"

inductive mmap_reachable :: "file_io \<Rightarrow> 'e element \<Rightarrow> nat \<Rightarrow> mmap_store \<times> fs \<Rightarrow> bool" for io el n where
  start: "ms_new io el n w = Ok (s, w') \<Longrightarrow> mmap_reachable io el n (s, w')"
| start_with_config:
    "ds_fresh config w \<Longrightarrow> ms_new_with_config io el n branches config w = Ok (s, w') \<Longrightarrow> mmap_reachable io el n (s, w')"
| next_step: "mmap_reachable io el n t \<Longrightarrow> mmap_step io el t u \<Longrightarrow> mmap_reachable io el n u"

inductive_cases mmap_stepE: "mmap_step io el (s, w) (s', w')"

context mapped_layer
begin

text \<open>A write that returns stays within the file, whatever its arguments were.\<close>

lemma ms_copy_partial:
  assumes inv: "ms_file_inv el s w" and copy: "ms_copy_from_slice io el buf i s w = Ok (s', w')"
  shows "ms_file_inv el s' w'" and "ms_capacity el s' w' = ms_capacity el s w" and "ms_len s \<le> ms_len s'"
proof -
  let ?bl = "el_byte_len el" and ?D = "fs_data w (ms_file s)" and ?n = "length buf div el_byte_len el"
  have ds: "ds_inv el (ms_disk el s) w" using inv by (simp add: ms_file_inv_def)
  have size: "ms_store_size s = length ?D" using ds_inv_facts(3) [OF ds] by simp
  have *: "?n * ?bl = length buf" "i * ?bl + length buf \<le> ms_store_size s"
    "s' = s\<lparr>ms_map := Some (ms_mapping s), ms_len := max (ms_len s) (i + ?n)\<rparr>"
    "w' = fs_put (ms_file s) (io_map_write io (ms_mapping s) (i * ?bl) buf ?D) w"
    using copy byte_len_pos unfolding ms_copy_from_slice_def ms_mapped_Ok(1) [OF inv]
    by (auto simp: ms_write_def usize_mul_def usize_add_def usize_rem_def elim!: and_then_OkE split: if_splits)
  have "io_map_write io (ms_mapping s) (i * ?bl) buf ?D = overwrite (i * ?bl) buf ?D"
    using *(2) size by (intro map_write_Ok [THEN trans]) simp_all
  then have w': "w' = fs_put (ms_file s) (overwrite (i * ?bl) buf ?D) w" "length (overwrite (i * ?bl) buf ?D) = length ?D"
    using *(2,4) size by (simp_all add: length_overwrite)
  have "(i + ?n) * ?bl \<le> ms_store_size s" using *(1,2) by (simp add: distrib_right)
  then have "i + ?n \<le> ms_store_size s div ?bl" using byte_len_pos by (simp add: less_eq_div_iff_mult_less_eq)
  then show "ms_file_inv el s' w'" "ms_capacity el s' w' = ms_capacity el s w"
    using inv w' unfolding *(3) by (auto simp: ms_file_inv_def ds_inv_def ms_capacity_def ds_capacity_def)
  show "ms_len s \<le> ms_len s'" unfolding *(3) by simp
qed

lemma mmap_step_inv:
  assumes "mmap_step io el (s, w) (s', w')" and inv: "ms_file_inv el s w"
  shows "ms_file_inv el s' w' \<and> ms_capacity el s' w' = ms_capacity el s w \<and> ms_len s \<le> ms_len s'"
proof -
  have copy: ?thesis if "ms_copy_from_slice io el buf i s w = Ok (s', w')" for buf i
    using ms_copy_partial [OF inv that] by blast
  have push: ?thesis if "ms_push io el x s w = Ok (s', w')" for x
  proof -
    let ?s = "s\<lparr>ms_map := Some (ms_mapping s)\<rparr>"
    have "ms_copy_from_slice io el (encode [x]) (ms_len s) ?s w = Ok (s', w')"
      using that ms_mapped_Ok(1) [OF inv]
      by (auto simp: ms_push_def Let_def ms_write_at_copy elim!: and_then_OkE split: option.splits if_splits)
    moreover have "ms_file_inv el ?s w" using ms_mapped_Ok(2) [OF inv] by (simp add: ms_inv_def)
    ultimately show ?thesis using ms_copy_partial [of ?s w] by (simp add: ms_capacity_def)
  qed
  have reinit: ?thesis if "ms_reinit io s w = Ok (s', w')"
  proof -
    have size: "ms_store_size s = length (fs_data w (ms_file s))"
      using inv ds_inv_facts(3) [of "ms_disk el s" w] by (simp add: ms_file_inv_def)
    then have "s' = s\<lparr>ms_map := Some (ms_mapping s)\<rparr> \<and> w' = w"
      using that by (auto simp: ms_reinit_def map_file_def Let_def fs_metadata_len_def ms_mapping_def elim!: and_then_OkE)
    then show ?thesis using inv by (auto simp: ms_file_inv_def ms_capacity_def)
  qed
  show ?thesis
    using assms(1)
    by (rule mmap_stepE) (use copy push reinit inv in \<open>auto simp: ms_write_at_copy ms_compact_def ms_file_inv_def ms_capacity_def\<close>)
qed

lemma mmap_reachable_inv:
  assumes "mmap_reachable io el n t" and "0 < n" and "n * el_byte_len el < isize_limit"
  shows "ms_file_inv el (fst t) (snd t) \<and> n \<le> ms_capacity el (fst t) (snd t)"
  using assms(1)
proof induction
  case (start w s w')
  then show ?case using ms_new_Ok [OF assms(2,3), of w] by (auto simp: ms_inv_def)
next
  case (start_with_config config w branches s w')
  then show ?case using ms_new_with_config_Ok [OF _ assms(2,3), of config w branches] by (auto simp: ms_inv_def)
next
  case (next_step t u)
  then show ?case using mmap_step_inv [of "fst t" "snd t" "fst u" "snd u"] by simp
qed

end


section \<open>Properties\<close>

text \<open>
  C16: \<open>MmapStore\<close> is a store a tree can be built in, for every element type and every behaviour of
  mappings and temporary files within their documentation; a size of zero, which cannot be
  mapped, is outside the contract.
\<close>

theorem mmap_store_is_a_tree_store:
  assumes "file_io_contract io" and "element_contract el"
  shows "tree_store el (mmap_store io el :: (fs, mmap_store, 'e, 'a) store)
    (ms_inv el) (ms_elems el) (ms_capacity el) (\<lambda>w. True) ds_fresh"
  by (rule mapped_layer.ms_tree_store [OF mapped_layer.intro [OF assms]])

theorem mmap_store_is_a_tree_store_witness:
  "tree_store bytes32_element (mmap_store model_io bytes32_element :: (fs, mmap_store, bytes32, unit) store)
    (ms_inv bytes32_element) (ms_elems bytes32_element) (ms_capacity bytes32_element) (\<lambda>w. True) ds_fresh"
  by (rule mmap_store_is_a_tree_store [OF model_io.file_io_contract_axioms bytes32.element_contract_axioms])

text \<open>
  C17: in every state that writes, pushes, \<open>compact\<close> and \<open>reinit\<close> can bring a new store to, its size is
  the size of its file, its elements fit, and: mapped, it reads back every element and every
  non-empty range; unmapped, \<open>read_at\<close>, \<open>read_range\<close> and \<open>read_into\<close> return the same error;
  \<open>compact\<close> tells which of the two it was and gives the elements up to the next \<open>reinit\<close>, and a push
  maps by itself and adds its element.
\<close>

theorem mmap_store_stays_valid:
  assumes "file_io_contract io" and "element_contract el"
    and "0 < n" and "n * el_byte_len el < isize_limit" and "mmap_reachable io el n (s, w)"
  shows "length (fs_data w (ms_file s)) = ms_store_size s
    \<and> n \<le> ms_capacity el s w \<and> length (ms_elems el s w) = ms_len s \<and> ms_len s \<le> ms_capacity el s w
    \<and> (ms_map s \<noteq> None \<longrightarrow> (\<forall>i < ms_len s. ms_read_at io el i s w = Ok (ms_elems el s w ! i))
        \<and> (\<forall>a b. a < b \<and> b \<le> ms_len s \<longrightarrow> ms_read_range io el a b s w = Ok (take (b - a) (drop a (ms_elems el s w)))))
    \<and> (ms_map s = None \<longrightarrow> (\<forall>i. ms_read_at io el i s w = Err MapNotInitialized)
        \<and> (\<forall>a b. ms_read_range io el a b s w = Err MapNotInitialized)
        \<and> (\<forall>i buf. ms_read_into io el i buf s w = Err MapNotInitialized))
    \<and> (\<forall>branches config version. ms_compact branches config version s w = Ok (ms_map s \<noteq> None, s\<lparr>ms_map := None\<rparr>, w))
    \<and> (\<exists>s'. ms_reinit io (s\<lparr>ms_map := None\<rparr>) w = Ok (s', w) \<and> ms_map s' \<noteq> None \<and> ms_elems el s' w = ms_elems el s w)
    \<and> (ms_len s < n \<longrightarrow> (\<forall>x. \<exists>s' w'. ms_push io el x s w = Ok (s', w') \<and> ms_map s' \<noteq> None
        \<and> ms_elems el s' w' = ms_elems el s w @ [x]))"
proof -
  note M = mapped_layer.intro [OF assms(1,2)]
  have inv: "ms_file_inv el s w" and cap: "n \<le> ms_capacity el s w"
    using mapped_layer.mmap_reachable_inv [OF M assms(5,3,4)] by simp_all
  then have ds: "ds_inv el (ms_disk el s) w" by (simp add: ms_file_inv_def)
  note f = mapped_layer.ds_inv_facts [OF M ds] and len = mapped_layer.ds_length_elems [OF M ds]
  have unmapped: "ms_file_inv el (s\<lparr>ms_map := None\<rparr>) w" using inv by (simp add: ms_file_inv_def)
  have reads: "ms_read_at io el i s w = Ok (ms_elems el s w ! i)" if "ms_map s \<noteq> None" "i < ms_len s" for i
    using mapped_layer.ms_read_at_Ok [OF M _ that(2)] that(1) inv by (auto simp: ms_inv_def ms_file_inv_def)
  have ranges: "ms_read_range io el a b s w = Ok (take (b - a) (drop a (ms_elems el s w)))"
    if "ms_map s \<noteq> None" "a < b" "b \<le> ms_len s" for a b
    using mapped_layer.ms_read_range_Ok [OF M _ that(2,3)] that(1) inv by (auto simp: ms_inv_def ms_file_inv_def)
  have again: "ms_reinit io (s\<lparr>ms_map := None\<rparr>) w = Ok (s\<lparr>ms_map := Some (ms_mapping s)\<rparr>, w)"
    using mapped_layer.ms_mapped_Ok(1) [OF M unmapped] by (simp add: ms_mapped_def)
  have push: "\<exists>s' w'. ms_push io el x s w = Ok (s', w') \<and> ms_map s' \<noteq> None \<and> ms_elems el s' w' = ms_elems el s w @ [x]"
    if "ms_len s < n" for x
    using mapped_layer.ms_push_Ok [OF M inv, of x] that cap by (fastforce simp: ms_inv_def)
  have sizes: "length (fs_data w (ms_file s)) = ms_store_size s" "length (ms_elems el s w) = ms_len s"
    "ms_len s \<le> ms_capacity el s w"
    using f(3,7) len by (simp_all add: ms_elems_def ms_capacity_def)
  show ?thesis
    using cap sizes reads ranges again push mapped_layer.ms_unmapped_reads [OF M]
    by (auto simp: ms_compact_def ms_elems_def)
qed

theorem mmap_store_stays_valid_witness:
  "\<exists>s w. mmap_reachable model_io bytes32_element 3 (s, w)
    \<and> ms_read_at model_io bytes32_element 0 s w = Err MapNotInitialized
    \<and> (\<forall>x. \<exists>s' w'. ms_push model_io bytes32_element x s w = Ok (s', w') \<and> ms_elems bytes32_element s' w' = ms_elems bytes32_element s w @ [x])"
proof -
  let ?w0 = "\<lparr>fs_dir = [], fs_data = (\<lambda>f. []), fs_next = 0, fs_creatable = (\<lambda>path. True)\<rparr>"
  have n: "0 < (3 :: nat)" "3 * el_byte_len bytes32_element < isize_limit" by (simp_all add: bytes32_element_def)
  obtain s w where new: "ms_new model_io bytes32_element 3 ?w0 = Ok (s, w)" "ms_elems bytes32_element s w = []"
    "ms_inv bytes32_element s w"
    using bytes32_disk.ms_new_Ok [OF n] by blast
  have "ms_len s = 0" using bytes32_disk.ms_len_elems [OF new(3)] new(2) by simp
  have "mmap_step model_io bytes32_element (s, w) (s\<lparr>ms_map := None\<rparr>, w)"
    by (rule mmap_step.compact) (simp add: ms_compact_def)
  with new(1) have r: "mmap_reachable model_io bytes32_element 3 (s\<lparr>ms_map := None\<rparr>, w)"
    by (meson mmap_reachable.start mmap_reachable.next_step)
  from mmap_store_stays_valid [OF model_io.file_io_contract_axioms bytes32.element_contract_axioms n r] \<open>ms_len s = 0\<close> r
  show ?thesis by fastforce
qed

end
