(* ===== verification/Existing_Files.thy ===== *)
theory Existing_Files
  imports Cached_Trees Mmap_Life
begin

text \<open>
  The constructors with a configuration whose file is already there: a \<open>DiskStore\<close> is opened as
  it is, a \<open>MmapStore\<close> never counts as loaded.
\<close>

definition mmap_types ::
  "file_io \<Rightarrow> (nat \<Rightarrow> nat \<Rightarrow> nat) \<Rightarrow> 'e element \<Rightarrow> ('a, 'e) algorithm \<Rightarrow> (fs, mmap_store, 'e, 'a) merkle_types" where
  "mmap_types io flog el A = \<lparr>mt_E = el, mt_A = A, mt_S = mmap_store io el, mt_flog = flog\<rparr>"

lemma mmap_types_simps [simp]:
  "mt_E (mmap_types io flog el A) = el" "mt_A (mmap_types io flog el A) = A"
  "mt_S (mmap_types io flog el A) = mmap_store io el" "mt_flog (mmap_types io flog el A) = flog"
  by (simp_all add: mmap_types_def)

lemma mmap_store_simps [simp]:
  "st_new_with_config (mmap_store io el) = ms_new_with_config io el"
  "st_new_from_slice_with_config (mmap_store io el) = ms_new_from_slice_with_config io el"
  "st_loaded_from_disk (mmap_store io el) = ms_loaded_from_disk"
  "st_is_empty (mmap_store io el) = ms_is_empty" "st_len (mmap_store io el) = ms_len"
  by (simp_all add: mmap_store_def ms_ops_def)

lemma mmap_merkle_build:
  assumes "file_io_contract io" and "element_contract el" and "algorithm_contract A"
  shows "merkle_build (mmap_types io flog el A) (ms_inv el) (ms_elems el) (ms_capacity el) (\<lambda>w. True) ds_fresh"
  using mapped_layer.ms_tree_store [OF mapped_layer.intro [OF assms(1,2)]] assms(3) by (simp add: merkle_build_def)

text \<open>A file of the size of the tree, under the name of the configuration.\<close>

definition existing_file :: "'e element \<Rightarrow> nat \<Rightarrow> store_config \<Rightarrow> fs_file \<Rightarrow> fs \<Rightarrow> bool" where
  "existing_file el n config f w \<longleftrightarrow>
     fs_names w (data_path (sc_path config) (sc_id config)) = Some f \<and> length (fs_data w f) = n * el_byte_len el"

context mapped_layer
begin

lemma disk_tree_file:
  assumes "disk_tree el h b k xs config s w"
  shows "existing_file el (tree_len b k) config (ds_file s) w"
  using assms ds_inv_facts(3) [of s w] by (simp add: existing_file_def disk_tree_def)

text \<open>The store a constructor finds in such a file.\<close>

lemma ds_found:
  assumes "existing_file el n config f w" and "n * el_byte_len el < isize_limit"
  defines "s \<equiv> \<lparr>ds_len = n, ds_elem_len = el_byte_len el, ds_file = f, ds_loaded_from_disk = True,
      ds_store_size = n * el_byte_len el\<rparr>"
  shows "ds_new_with_config el n b config w = Ok (s, w)" and "ds_inv el s w"
    and "ds_elems el s w = decode_elements el (fs_data w f)"
proof -
  have "usize_mul n (el_byte_len el) = Ok (n * el_byte_len el)" using assms(2) by (intro usize_mul_Ok) simp
  then show "ds_new_with_config el n b config w = Ok (s, w)"
    using assms(1) by (simp add: ds_new_with_config_def ds_new_from_disk_def fs_exists_def fs_open_def
        fs_metadata_len_def existing_file_def s_def Let_def)
  show inv: "ds_inv el s w" using assms(1,2) byte_len_pos by (simp add: ds_inv_def existing_file_def s_def)
  show "ds_elems el s w = decode_elements el (fs_data w f)"
    using ds_inv_facts(4) [OF inv] byte_len_pos by (simp add: ds_elems_def ds_capacity_def s_def)
qed

lemma ms_found:
  assumes "existing_file el n config f w" and "0 < n" and "n * el_byte_len el < isize_limit"
  shows "\<exists>s. ms_new_with_config io el n b config w = Ok (s, w) \<and> ms_inv el s w \<and> ms_len s = n \<and>
    ms_capacity el s w = n \<and> ms_file s = f"
proof -
  have size: "0 < n * el_byte_len el" using assms(2) byte_len_pos by simp
  have "usize_mul n (el_byte_len el) = Ok (n * el_byte_len el)" using assms(3) by (intro usize_mul_Ok) simp
  moreover have "io_map_mut io 0 (n * el_byte_len el) (fs_data w f) = Ok ()" by (rule map_mut_Ok [OF size])
  ultimately show ?thesis
    using assms size byte_len_pos
    by (simp add: ms_new_with_config_def ms_new_from_disk_def fs_exists_def fs_open_def map_file_def
        fs_metadata_len_def existing_file_def Let_def ms_inv_def ms_file_inv_def ms_mapping_def ms_capacity_def
        ms_disk_def ds_inv_def ds_capacity_def)
qed

end


section \<open>Properties\<close>

text \<open>
  C18: when the file of the configuration already holds a tree in a \<open>DiskStore\<close>,
  \<open>try_from_iter_with_config\<close> and \<open>from_par_iter_with_config\<close> return that tree and look at no item,
  while \<open>from_byte_slice_with_config\<close> always fails: it goes on to \<open>build\<close> with the loaded store.
\<close>

theorem existing_disk_tree_is_loaded:
  fixes el :: "'e element" and A :: "('a, 'e) algorithm"
  assumes "file_io_contract io" and "element_contract el" and "algorithm_contract A"
    and fits: "tree_fits (disk_types io flog el A) m k"
    and tree: "disk_tree el (node_hash A) (2 ^ m) k xs config s w"
  shows "\<exists>tree. built_tree (disk_types io flog el A) (ds_inv el) (ds_elems el) (2 ^ m) k xs tree w
    \<and> (\<forall>items. try_from_iter_with_config (disk_types io flog el A) (2 ^ m) (Some ((2 ^ m) ^ k)) items config w = Ok (tree, w))
    \<and> (\<forall>ys. length ys = (2 ^ m) ^ k \<longrightarrow>
        from_par_iter_with_config (disk_types io flog el A) (2 ^ m) ys config w = Ok (tree, w)
        \<and> from_byte_slice_with_config (disk_types io flog el A) (2 ^ m) (concat (map (el_as_ref el) ys)) config w =
            Err InconsistentData)"
proof -
  let ?C = "disk_types io flog el A" and ?b = "2 ^ m :: nat" and ?h = "node_hash A"
  note M = mapped_layer.intro [OF assms(1,2)] and B = disk_merkle_build [OF assms(1-3), of flog]
  have b: "0 < ?b" by simp
  have bytes: "tree_len ?b k * el_byte_len el < isize_limit" and xs: "length xs = ?b ^ k" and m: "m < 64"
    using fits tree by (simp_all add: tree_fits_def disk_tree_def)
  note file' = mapped_layer.disk_tree_file [OF M tree]
  let ?s = "\<lparr>ds_len = tree_len ?b k, ds_elem_len = el_byte_len el, ds_file = ds_file s, ds_loaded_from_disk = True,
      ds_store_size = tree_len ?b k * el_byte_len el\<rparr>"
  note found = mapped_layer.ds_found [OF M file' bytes]
  have "ds_elems el s w = take (tree_len ?b k) (decode_elements el (fs_data w (ds_file s)))"
    using mapped_layer.disk_tree_data(2) [OF M tree b] by (simp add: ds_elems_def)
  also have "\<dots> = ds_elems el ?s w" by (simp add: ds_elems_def)
  finally have elems: "ds_elems el ?s w = tree_nodes ?h ?b k xs" using tree by (simp add: disk_tree_def)
  have "tree_nodes ?h ?b k xs \<noteq> []" using length_tree_nodes [OF b xs, of ?h] tree_len_pos [of ?b k] by force
  then have "st_last (disk_store io flog el :: (fs, disk_store, 'e, 'a) store) ?s w = Ok (tree_root ?h ?b k xs)"
    using store_contract.last_Ok [OF tree_store.axioms(1) [OF mapped_layer.ds_tree_store [OF M, of flog]] found(2)] elems
      last_tree_nodes [OF b xs, of ?h] by metis
  then have load: "\<forall>items. try_from_iter_with_config ?C ?b (Some (?b ^ k)) items config w =
      Ok (base_tree ?s (?b ^ k) (tree_len ?b k) (Suc k) (tree_root ?h ?b k xs), w)"
    "length ys = ?b ^ k \<Longrightarrow> from_par_iter_with_config ?C ?b ys config w =
      Ok (base_tree ?s (?b ^ k) (tree_len ?b k) (Suc k) (tree_root ?h ?b k xs), w)" for ys
    using tree_fits_facts [OF fits] found(1)
    by (simp_all add: try_from_iter_with_config_def from_par_iter_with_config_def)
  have "from_byte_slice_with_config ?C ?b (concat (map (el_as_ref el) ys)) config w = Err InconsistentData"
    if "length ys = ?b ^ k" for ys
  proof -
    have mod: "length (concat (map (el_as_ref el) ys)) mod el_byte_len el = 0"
      "length (concat (map (el_as_ref el) ys)) div el_byte_len el = ?b ^ k"
      using element_contract.length_concat_mod [OF assms(2), of ys] element_contract.length_concat_div [OF assms(2), of ys] that
      by simp_all
    have "?b ^ k < tree_len ?b k" using tree_len_bound tree_fits_facts(1) [OF fits] fits
      by (cases k) (auto simp: tree_fits_def tree_shape_def)
    then have "length (ds_elems el ?s w) \<noteq> ?b ^ k"
      unfolding elems using length_tree_nodes [OF b xs, of ?h] by simp
    then have "st_build (disk_store io flog el) A ?b (?b ^ k) (Suc k) (Some config) ?s w = Err InconsistentData"
      by (rule tree_store.build_inconsistent [OF mapped_layer.ds_tree_store [OF M] found(2) _ m])
    then show ?thesis
      using tree_fits_facts [OF fits] mod found(1) element_contract.byte_len_pos [OF assms(2)]
      by (simp add: from_byte_slice_with_config_def ds_new_from_slice_with_config_def Let_def)
  qed
  moreover have "built_tree ?C (ds_inv el) (ds_elems el) ?b k xs
      (base_tree ?s (?b ^ k) (tree_len ?b k) (Suc k) (tree_root ?h ?b k xs)) w"
    using found(2) elems by (simp add: built_tree_def base_tree_def)
  ultimately show ?thesis using load by blast
qed

theorem existing_disk_tree_is_loaded_witness:
  "\<exists>first w tree. from_byte_slice_with_config disk_test_types 2
      (concat (map (el_as_ref item_element) disk_test_leaves)) test_config empty_fs = Ok (first, w)
    \<and> try_from_iter_with_config disk_test_types 2 (Some 8) [] test_config w = Ok (tree, w)
    \<and> from_byte_slice_with_config disk_test_types 2 (concat (map (el_as_ref item_element) disk_test_leaves)) test_config w =
        Err InconsistentData"
proof -
  note M = mapped_layer.intro [OF disk_test_contracts(1,2)]
  obtain s w where built: "from_byte_slice_with_config disk_test_types (2 ^ 1) (concat (map (el_as_ref item_element) disk_test_leaves))
      test_config empty_fs = Ok (base_tree s ((2 ^ 1) ^ 3) (tree_len (2 ^ 1) 3) (Suc 3)
        (tree_root (node_hash xor128_algorithm) (2 ^ 1) 3 disk_test_leaves), w)"
    "disk_tree item_element (node_hash xor128_algorithm) (2 ^ 1) 3 disk_test_leaves test_config s w"
    using mapped_layer.built_disk_tree [OF M disk_test_fits(2,4) disk_test_contracts(3) disk_test_fits(5)] by blast
  have "(2 ^ 1 :: nat) ^ 3 = 8" by simp
  with existing_disk_tree_is_loaded [OF disk_test_contracts disk_test_fits(2) built(2)] built(1) disk_test_fits(5)
  show ?thesis unfolding power_one_right by metis
qed

text \<open>
  C19: a \<open>MmapStore\<close> never counts as loaded: over a file of the right size
  \<open>try_from_iter_with_config\<close> and \<open>from_par_iter_with_config\<close> fail, since the store is full and
  \<open>build\<close> is called with it, and \<open>from_byte_slice_with_config\<close> writes its leaves over the file and
  builds the tree anew, whatever the file held.
\<close>

theorem existing_mmap_tree_is_overwritten:
  fixes el :: "'e element" and A :: "('a, 'e) algorithm"
  assumes "file_io_contract io" and "element_contract el" and "algorithm_contract A"
    and fits: "tree_fits (mmap_types io flog el A) m k"
    and found: "existing_file el (tree_len (2 ^ m) k) config f w" and ys: "length ys = (2 ^ m) ^ k"
  shows "try_from_iter_with_config (mmap_types io flog el A) (2 ^ m) (Some ((2 ^ m) ^ k)) items config w = Err InconsistentData
    \<and> from_par_iter_with_config (mmap_types io flog el A) (2 ^ m) ys config w = Err InconsistentData
    \<and> (\<exists>tree w'. from_byte_slice_with_config (mmap_types io flog el A) (2 ^ m) (concat (map (el_as_ref el) ys)) config w =
          Ok (tree, w') \<and> built_tree (mmap_types io flog el A) (ms_inv el) (ms_elems el) (2 ^ m) k ys tree w')"
proof -
  let ?C = "mmap_types io flog el A" and ?b = "2 ^ m :: nat"
  note M = mapped_layer.intro [OF assms(1,2)] and B = mmap_merkle_build [OF assms(1-3), of flog]
  have bytes: "tree_len ?b k * el_byte_len el < isize_limit" and m: "m < 64"
    using fits by (simp_all add: tree_fits_def)
  obtain s where s: "\<And>b. ms_new_with_config io el (tree_len ?b k) ?b config w = Ok (s, w)" "ms_inv el s w"
    "ms_len s = tree_len ?b k" "ms_capacity el s w = tree_len ?b k"
    using mapped_layer.ms_found [OF M found tree_len_pos bytes] by blast
  have more: "?b ^ k < tree_len ?b k"
    using tree_len_bound tree_fits_facts(1) [OF fits] fits by (cases k) (auto simp: tree_fits_def tree_shape_def)
  have "length (ms_elems el s w) \<noteq> ?b ^ k"
    using mapped_layer.ms_len_elems [OF M s(2)] s(3) more by simp
  then have build: "st_build (mmap_store io el :: (fs, mmap_store, 'e, 'a) store) A ?b (?b ^ k) (Suc k) (Some config) s w =
      Err InconsistentData"
    by (rule tree_store.build_inconsistent [OF mapped_layer.ms_tree_store [OF M] s(2) _ m])
  have nonempty: "\<not> ms_is_empty s" using s(3) tree_len_pos [of ?b k] by (simp add: ms_is_empty_def)
  have refused: "try_from_iter_with_config ?C ?b (Some (?b ^ k)) items config w = Err InconsistentData"
    "from_par_iter_with_config ?C ?b ys config w = Err InconsistentData"
    using tree_fits_facts [OF fits] s(1) build nonempty ys
    by (simp_all add: try_from_iter_with_config_def from_par_iter_with_config_def ms_loaded_from_disk_def
        populate_data_def populate_data_par_def)
  let ?s = "s\<lparr>ms_len := length ys\<rparr>"
  have zero: "ms_inv el (s\<lparr>ms_len := 0\<rparr>) w" "ms_capacity el (s\<lparr>ms_len := 0\<rparr>) w = tree_len ?b k"
    using s(2,4) by (auto simp: ms_inv_def ms_file_inv_def ds_inv_def ms_capacity_def ds_capacity_def)
  obtain w' where "ms_write io 0 (length (concat (map (el_as_ref el) ys))) (concat (map (el_as_ref el) ys)) (s\<lparr>ms_len := 0\<rparr>) w = Ok w'"
    and after: "ms_inv el ?s w'" "ms_elems el ?s w' = ys" "ms_capacity el ?s w' = tree_len ?b k"
    using mapped_layer.ms_populate_Ok [OF M zero(1), of ys] zero(2) ys more by auto
  then have wr: "ms_write io 0 (length (concat (map (el_as_ref el) ys))) (concat (map (el_as_ref el) ys)) s w = Ok w'"
    by (simp add: ms_write_def)
  have sizes: "length (concat (map (el_as_ref el) ys)) mod el_byte_len el = 0"
    "length (concat (map (el_as_ref el) ys)) div el_byte_len el = ?b ^ k" "0 < el_byte_len el"
    using element_contract.length_concat_mod [OF assms(2), of ys] element_contract.length_concat_div [OF assms(2), of ys] ys
      element_contract.byte_len_pos [OF assms(2)] by simp_all
  have new: "ms_new_from_slice_with_config io el (tree_len ?b k) ?b (concat (map (el_as_ref el) ys)) config w = Ok (?s, w')"
    using s(1) mapped_layer.ms_inv_mapped [OF M s(2)] wr sizes ys
    by (simp add: ms_new_from_slice_with_config_def ms_loaded_from_disk_def)
  obtain root s3 w3 where
    "st_build (mt_S ?C) (mt_A ?C) ?b (?b ^ k) (Suc k) (Some config) ?s w' = Ok (root, s3, w3)"
    "built_tree ?C (ms_inv el) (ms_elems el) ?b k ys (base_tree s3 (?b ^ k) (tree_len ?b k) (Suc k) root) w3"
    using merkle_build.build_tree [OF B fits after(1,2) ys, of "Some config"] after(3) by auto
  then show ?thesis
    using refused new sizes tree_fits_facts [OF fits] by (simp add: from_byte_slice_with_config_def Let_def)
qed

theorem existing_mmap_tree_is_overwritten_witness:
  "\<exists>w. try_from_iter_with_config (mmap_types model_io exact_flog item_element xor128_algorithm) 2 (Some 8) [] test_config w =
      Err InconsistentData
    \<and> (\<exists>tree w'. from_byte_slice_with_config (mmap_types model_io exact_flog item_element xor128_algorithm) 2
        (concat (map (el_as_ref item_element) disk_test_leaves)) test_config w = Ok (tree, w'))"
proof -
  let ?C = "mmap_types model_io exact_flog item_element xor128_algorithm"
  let ?w = "fs_put 0 (replicate (15 * 16) 7) (fs_link (data_path (sc_path test_config) (sc_id test_config)) 0 empty_fs)"
  have fits: "tree_fits ?C 1 3" using disk_test_fits(2) by (simp add: tree_fits_def)
  have "tree_len (2 ^ 1) 3 = 15" by (simp add: tree_len_sum numeral_3_eq_3)
  then have found: "existing_file item_element (tree_len (2 ^ 1) 3) test_config 0 ?w"
    by (simp add: existing_file_def item_element_def)
  have "(2 ^ 1 :: nat) ^ 3 = 8" by simp
  with existing_mmap_tree_is_overwritten [OF disk_test_contracts fits found disk_test_fits(5), of "[]"]
  show ?thesis unfolding power_one_right by metis
qed

end
