(* ===== verification/Parallel.thy ===== *)
theory Parallel
  imports Build_Correct Test_Tree
begin

text \<open>
  The two places where the crate writes a store from concurrent threads, \<open>process_layer\<close> of the
  trait and \<open>populate_data_par\<close>, as step relations: any piece may take its next step at any time,
  and the lock makes each step atomic. Whatever the order, no step fails, and the store ends as
  the sequential loops leave it.
\<close>

section \<open>Runs of counted steps\<close>

text \<open>
  Every step takes one off what is left and keeps an invariant: a run of \<open>t\<close> steps takes off \<open>t\<close>,
  and where a step is always possible there are runs up to the end.
\<close>

lemma counted_run:
  assumes step: "\<And>x y. Q x \<Longrightarrow> R x y \<Longrightarrow> Q y \<and> left x = Suc (left y)" and run: "(R ^^ t) x y" and start: "Q x"
  shows "Q y \<and> left y + t = left x"
  using run
proof (induction t arbitrary: y)
  case 0
  then show ?case using start by simp
next
  case (Suc t)
  then obtain z where "(R ^^ t) x z" and z: "R z y" by auto
  then have "Q z \<and> left z + t = left x" using Suc.IH by simp
  then show ?case using step [OF _ z] by simp
qed

lemma counted_run_exists:
  assumes step: "\<And>x y. Q x \<Longrightarrow> R x y \<Longrightarrow> Q y \<and> left x = Suc (left y)"
    and enabled: "\<And>x. Q x \<Longrightarrow> left x \<noteq> 0 \<Longrightarrow> \<exists>y. R x y" and start: "Q x" and t: "t \<le> left x"
  shows "\<exists>y. (R ^^ t) x y"
  using t
proof (induction t)
  case (Suc t)
  then obtain y where run: "(R ^^ t) x y" by auto
  have "Q y" "left y \<noteq> 0" using counted_run [of Q R left, OF step run start] Suc.prems by auto
  then show ?case using run enabled [of y] by (auto intro: relcompp.intros)
qed auto


section \<open>A region filled piece by piece\<close>

text \<open>
  Behind \<open>pre\<close> the elements \<open>out\<close> are to be written; those at the positions \<open>P\<close> are. Between
  pieces the store may hold anything.
\<close>

definition filled :: "'e list \<Rightarrow> 'e list \<Rightarrow> nat set \<Rightarrow> 'e list \<Rightarrow> bool" where
  "filled pre out P ys \<longleftrightarrow>
     length pre \<le> length ys \<and> length ys \<le> length pre + length out \<and> take (length pre) ys = pre \<and>
     (\<forall>j \<in> P. j < length out \<and> length pre + j < length ys \<and> ys ! (length pre + j) = out ! j)"

lemma filled_start: "filled pre out {} pre"
  by (simp add: filled_def)

lemma filled_end:
  assumes "filled pre out {..<length out} ys"
  shows "ys = pre @ out"
proof (rule nth_equalityI)
  have f: "length pre \<le> length ys" "length ys \<le> length pre + length out" "take (length pre) ys = pre"
    "\<And>j. j < length out \<Longrightarrow> length pre + j < length ys \<and> ys ! (length pre + j) = out ! j"
    using assms by (auto simp: filled_def)
  have "length pre + length out \<le> length ys"
    using f(1) f(4) [of "length out - 1"] by (cases "length out") simp_all
  then show len: "length ys = length (pre @ out)" using f(2) by simp
  fix j
  assume "j < length ys"
  show "ys ! j = (pre @ out) ! j"
  proof (cases "j < length pre")
    case True
    then show ?thesis using f(3) by (metis nth_append nth_take)
  next
    case False
    then show ?thesis using f(4) [of "j - length pre"] \<open>j < length ys\<close> len by (simp add: nth_append)
  qed
qed

lemma filled_written:
  assumes fill: "filled pre out P ys" and wr: "written (length pre + a) (take c (drop a out)) ys zs"
    and c: "a + c \<le> length out"
  shows "filled pre out (P \<union> {a..<a + c}) zs"
proof -
  have f: "length pre \<le> length ys" "length ys \<le> length pre + length out" "take (length pre) ys = pre"
    "\<And>j. j \<in> P \<Longrightarrow> j < length out \<and> length pre + j < length ys \<and> ys ! (length pre + j) = out ! j"
    using fill by (auto simp: filled_def)
  have len: "length (take c (drop a out)) = c" using c by simp
  have w: "length zs = max (length ys) (length pre + a + c)" "\<And>j. j < c \<Longrightarrow> zs ! (length pre + a + j) = out ! (a + j)"
    "\<And>j. j < length ys \<Longrightarrow> j < length pre + a \<or> length pre + a + c \<le> j \<Longrightarrow> zs ! j = ys ! j"
    using wr c unfolding written_def len by auto
  have inside: "length pre + j < length zs \<and> zs ! (length pre + j) = out ! j" if "a \<le> j" "j < a + c" for j
    using w(1) w(2) [of "j - a"] that by (simp add: add.assoc)
  have "take (length pre) zs = take (length pre) ys"
    using f(1) w(1,3) by (intro nth_equalityI) simp_all
  moreover have "j < length out \<and> length pre + j < length zs \<and> zs ! (length pre + j) = out ! j"
    if "j \<in> P \<union> {a..<a + c}" for j
  proof (cases "a \<le> j \<and> j < a + c")
    case True
    then show ?thesis using inside c by simp
  next
    case False
    then have "j \<in> P" using that by auto
    then have "j < length out" "length pre + j < length ys" "ys ! (length pre + j) = out ! j" using f(4) by auto
    then show ?thesis using w(1) w(3) [of "length pre + j"] False by auto
  qed
  ultimately show ?thesis using f(1-3) w(1) c by (simp add: filled_def)
qed


section \<open>process_layer\<close>

text \<open>A piece waits, holds the bytes it has hashed under the read lock, or has written them.\<close>

datatype piece = Waiting | Holding "byte list" | Written

inductive layer_step ::
  "'e element \<Rightarrow> ('w, 's, 'e, 'z) store_ops_scheme \<Rightarrow> ('a, 'e) algorithm \<Rightarrow> nat \<Rightarrow> nat \<Rightarrow> nat \<Rightarrow> nat \<Rightarrow> nat \<Rightarrow>
     piece list \<times> 's \<times> 'w \<Rightarrow> piece list \<times> 's \<times> 'w \<Rightarrow> bool"
for el S A branches width level read_start write_start where
  read_piece:
    "i < length ps \<Longrightarrow> ps ! i = Waiting \<Longrightarrow>
     layer_read_chunk el S A branches width level read_start
       (step_range read_start (read_start + width) BUILD_CHUNK_NODES ! i) s w = Ok bytes \<Longrightarrow>
     layer_step el S A branches width level read_start write_start (ps, s, w) (ps[i := Holding bytes], s, w)"
| write_piece:
    "i < length ps \<Longrightarrow> ps ! i = Holding bytes \<Longrightarrow>
     layer_write_chunk S branches read_start write_start
       (step_range read_start (read_start + width) BUILD_CHUNK_NODES ! i) bytes s w = Ok (s', w') \<Longrightarrow>
     layer_step el S A branches width level read_start write_start (ps, s, w) (ps[i := Written], s', w')"

text \<open>The steps that are left.\<close>

definition piece_work :: "piece \<Rightarrow> nat" where
  "piece_work p = (case p of Waiting \<Rightarrow> 2 | Holding bytes \<Rightarrow> 1 | Written \<Rightarrow> 0)"

definition layer_work :: "piece list \<Rightarrow> nat" where
  "layer_work ps = sum_list (map piece_work ps)"

lemma sum_list_map_update:
  fixes f :: "'x \<Rightarrow> nat"
  shows "i < length xs \<Longrightarrow> sum_list (map f (xs[i := y])) + f (xs ! i) = sum_list (map f xs) + f y"
proof (induction xs arbitrary: i)
  case (Cons x xs)
  then show ?case by (cases i) force+
qed simp

lemma layer_step_work:
  assumes "layer_step el S A b width level rs ws (ps, s, w) (ps', s', w')"
  shows "layer_work ps = Suc (layer_work ps')" and "length ps' = length ps"
proof -
  have "layer_work ps = Suc (layer_work ps') \<and> length ps' = length ps"
    using assms
  proof cases
    case (read_piece i bytes)
    then show ?thesis
      using sum_list_map_update [of i ps piece_work "Holding bytes"] by (simp add: layer_work_def piece_work_def)
  next
    case (write_piece i bytes)
    then show ?thesis
      using sum_list_map_update [of i ps piece_work Written] by (simp add: layer_work_def piece_work_def)
  qed
  then show "layer_work ps = Suc (layer_work ps')" "length ps' = length ps" by simp_all
qed

lemma layer_work_0: "layer_work ps = 0 \<longleftrightarrow> (\<forall>i < length ps. ps ! i = Written)"
proof -
  have "piece_work p = 0 \<longleftrightarrow> p = Written" for p by (cases p) (simp_all add: piece_work_def)
  then show ?thesis by (auto simp: layer_work_def all_set_conv_all_nth)
qed

text \<open>The rows a piece reads and the nodes it makes of them.\<close>

lemma next_row_piece:
  assumes "0 < b" and "length row = q * b" and "p = r * b" and "length (take c (drop p row)) = n * b" and "p \<le> length row"
  shows "next_row h b (take c (drop p row)) = take n (drop r (next_row h b row))" and "r + n \<le> q"
proof -
  let ?x = "take p row" and ?y = "take c (drop p row)" and ?z = "drop c (drop p row)"
  have x: "length ?x = r * b" using assms(3,5) by simp
  have "row = ?x @ ?y @ ?z" by (simp only: append_take_drop_id)
  then have "next_row h b row = next_row h b ?x @ next_row h b ?y @ next_row h b ?z"
    using chunks_append_mult [OF assms(1) x, of "?y @ ?z"] chunks_append_mult [OF assms(1,4), of ?z]
    by (metis map_append next_row_def)
  moreover have "length (next_row h b ?x) = r" "length (next_row h b ?y) = n"
    using length_next_row [OF assms(1) x] length_next_row [OF assms(1,4)] by simp_all
  ultimately show "next_row h b ?y = take n (drop r (next_row h b row))" by simp
  have "length ?y \<le> length row - p" by simp
  then have "r * b + n * b \<le> q * b" using assms(2-5) by linarith
  then show "r + n \<le> q" using assms(1) by (simp flip: distrib_right)
qed

text \<open>
  Piece \<open>i\<close> covers the nodes from \<open>i * (BUILD_CHUNK_NODES div b)\<close> on of the next row; the pieces
  that have been written cover these.
\<close>

definition piece_nodes :: "nat \<Rightarrow> nat \<Rightarrow> nat \<Rightarrow> nat set" where
  "piece_nodes b width i =
     {i * (BUILD_CHUNK_NODES div b) ..< i * (BUILD_CHUNK_NODES div b) + min BUILD_CHUNK_NODES (width - i * BUILD_CHUNK_NODES) div b}"

definition written_nodes :: "nat \<Rightarrow> nat \<Rightarrow> piece list \<Rightarrow> nat set" where
  "written_nodes b width ps = (\<Union>i \<in> {i. i < length ps \<and> ps ! i = Written}. piece_nodes b width i)"

definition piece_bytes :: "'e element \<Rightarrow> ('e list \<Rightarrow> 'e) \<Rightarrow> nat \<Rightarrow> 'e list \<Rightarrow> nat \<Rightarrow> byte list" where
  "piece_bytes el h b row i =
     concat (map (el_as_ref el) (next_row h b
       (take (min BUILD_CHUNK_NODES (length row - i * BUILD_CHUNK_NODES)) (drop (i * BUILD_CHUNK_NODES) row))))"

lemma written_nodes_update:
  assumes "i < length ps"
  shows "written_nodes b width (ps[i := Written]) = written_nodes b width ps \<union> piece_nodes b width i"
    and "ps ! i = Waiting \<Longrightarrow> written_nodes b width (ps[i := Holding bytes]) = written_nodes b width ps"
proof -
  have "{k. k < length (ps[i := Written]) \<and> ps[i := Written] ! k = Written} = insert i {k. k < length ps \<and> ps ! k = Written}"
    using assms by (auto simp: nth_list_update split: if_splits)
  then show "written_nodes b width (ps[i := Written]) = written_nodes b width ps \<union> piece_nodes b width i"
    by (simp only: written_nodes_def UN_insert Un_commute)
  assume wait: "ps ! i = Waiting"
  have "ps[i := Holding bytes] ! k = Written \<longleftrightarrow> ps ! k = Written" if "k < length ps" for k
    using that wait by (cases "k = i") simp_all
  then have "{k. k < length (ps[i := Holding bytes]) \<and> ps[i := Holding bytes] ! k = Written} = {k. k < length ps \<and> ps ! k = Written}"
    by auto
  then show "written_nodes b width (ps[i := Holding bytes]) = written_nodes b width ps"
    by (simp only: written_nodes_def)
qed

lemma chunk_arity:
  assumes "0 < b" and "BUILD_CHUNK_NODES mod b = 0"
  shows "0 < BUILD_CHUNK_NODES div b" and "i * BUILD_CHUNK_NODES = (i * (BUILD_CHUNK_NODES div b)) * b"
    and "i * BUILD_CHUNK_NODES div b = i * (BUILD_CHUNK_NODES div b)"
proof -
  have c: "BUILD_CHUNK_NODES = (BUILD_CHUNK_NODES div b) * b" using assms(2) by (simp add: mod_0_imp_dvd)
  have "BUILD_CHUNK_NODES \<noteq> 0" by (simp add: BUILD_CHUNK_NODES_def)
  then show "0 < BUILD_CHUNK_NODES div b" using c by (metis mult_0 neq0_conv)
  show i: "i * BUILD_CHUNK_NODES = (i * (BUILD_CHUNK_NODES div b)) * b" using c by (metis mult.assoc)
  show "i * BUILD_CHUNK_NODES div b = i * (BUILD_CHUNK_NODES div b)" unfolding i using assms(1) by simp
qed

lemma all_nodes_written:
  assumes b: "0 < b" "BUILD_CHUNK_NODES mod b = 0" and width: "width = q * b"
    and n: "\<And>i. i * BUILD_CHUNK_NODES < width \<Longrightarrow> i < length ps" and all: "\<And>i. i < length ps \<Longrightarrow> ps ! i = Written"
  shows "{..<q} \<subseteq> written_nodes b width ps"
proof
  fix j
  assume j: "j \<in> {..<q}"
  let ?c = "BUILD_CHUNK_NODES div b" and ?i = "j div (BUILD_CHUNK_NODES div b)"
  note c = chunk_arity [OF b]
  have lo: "?i * ?c \<le> j" by simp
  have "j mod ?c < ?c" using c(1) by simp
  then have hi: "j < ?i * ?c + ?c" using div_mult_mod_eq [of j ?c] by linarith
  have "?i * BUILD_CHUNK_NODES \<le> j * b" unfolding c(2) using lo by (rule mult_le_mono1)
  also have "\<dots> < width" using j b(1) by (simp add: width)
  finally have i: "?i < length ps" by (rule n)
  have "(width - ?i * BUILD_CHUNK_NODES) div b = q - ?i * ?c"
    unfolding c(2) width using b(1) by (simp flip: diff_mult_distrib)
  then have "j \<in> piece_nodes b width ?i"
    using lo hi j by (auto simp: piece_nodes_def min_def)
  then show "j \<in> written_nodes b width ps" using i all by (auto simp: written_nodes_def)
qed

definition layer_inv ::
  "'e element \<Rightarrow> ('s \<Rightarrow> 'w \<Rightarrow> bool) \<Rightarrow> ('s \<Rightarrow> 'w \<Rightarrow> 'e list) \<Rightarrow> ('s \<Rightarrow> 'w \<Rightarrow> nat) \<Rightarrow> nat \<Rightarrow> ('e list \<Rightarrow> 'e) \<Rightarrow> nat \<Rightarrow>
     'e list \<Rightarrow> 'e list \<Rightarrow> piece list \<times> 's \<times> 'w \<Rightarrow> bool" where
  "layer_inv el valid elems capacity cap h b pre row = (\<lambda>(ps, s, w).
     valid s w \<and> capacity s w = cap \<and>
     (\<forall>i. i < length ps \<longleftrightarrow> i * BUILD_CHUNK_NODES < length row) \<and>
     filled (pre @ row) (next_row h b row) (written_nodes b (length row) ps) (elems s w) \<and>
     (\<forall>i < length ps. \<forall>bytes. ps ! i = Holding bytes \<longrightarrow> bytes = piece_bytes el h b row i))"

context store_contract
begin

text \<open>Both steps of a piece succeed, whatever the others have done.\<close>

lemma piece_steps_Ok:
  assumes I: "layer_inv el inv elems capacity cap (node_hash A level) b pre row (ps, s, w)"
    and q: "length row = q * b" and b: "0 < b" "BUILD_CHUNK_NODES mod b = 0"
    and cap: "length pre + length row + q \<le> cap" and i: "i < length ps"
  shows "layer_read_chunk el S A b (length row) level (length pre) (length pre + i * BUILD_CHUNK_NODES) s w =
      Ok (piece_bytes el (node_hash A level) b row i)"
    and "\<exists>s' w'. layer_write_chunk S b (length pre) (length pre + length row) (length pre + i * BUILD_CHUNK_NODES)
        (piece_bytes el (node_hash A level) b row i) s w = Ok (s', w') \<and> inv s' w' \<and> capacity s' w' = cap \<and>
      filled (pre @ row) (next_row (node_hash A level) b row) (written_nodes b (length row) ps \<union> piece_nodes b (length row) i)
        (elems s' w')"
proof -
  let ?p = "i * BUILD_CHUNK_NODES" and ?r = "i * (BUILD_CHUNK_NODES div b)" and ?h = "node_hash A level"
  let ?c = "min BUILD_CHUNK_NODES (length row - i * BUILD_CHUNK_NODES)"
  let ?out = "next_row ?h b row"
  have s: "inv s w" "capacity s w = cap" and p: "?p < length row"
    and fill: "filled (pre @ row) ?out (written_nodes b (length row) ps) (elems s w)"
    using I i by (auto simp: layer_inv_def)
  note pr = chunk_arity(2) [OF b, of i]
  note size = layer_chunk_whole [OF q b pr p]
  have front: "take (length (pre @ row)) (elems s w) = pre @ row" "length (pre @ row) \<le> length (elems s w)"
    using fill by (simp_all add: filled_def)
  have "length pre + ?p + ?c \<le> length (pre @ row)" using size(3) by simp
  then have "take ?c (drop (length pre + ?p) (elems s w)) = take ?c (drop (length pre + ?p) (take (length (pre @ row)) (elems s w)))"
    by (simp add: drop_take min_def)
  also have "\<dots> = take ?c (drop ?p row)" unfolding front(1) by simp
  finally have "st_read_range S (length pre + ?p) (length pre + ?p + ?c) s w = Ok (take ?c (drop ?p row))"
    using read_range_Ok [OF s(1), of "length pre + ?p" "length pre + ?p + ?c"] size(2,3) front(2) by simp
  from layer_chunk_bytes [OF q b pr p this]
  show "layer_read_chunk el S A b (length row) level (length pre) (length pre + ?p) s w = Ok (piece_bytes el ?h b row i)"
    by (simp add: piece_bytes_def)
  note piece = next_row_piece [OF b(1) q pr size(1) less_imp_le [OF p]]
  have out: "length ?out = q" using b(1) q by (rule length_next_row)
  then have es: "length (take (?c div b) (drop ?r ?out)) = ?c div b" using piece(2) by simp
  have fit: "length pre + length row + ?r + length (take (?c div b) (drop ?r ?out)) \<le> capacity s w"
    unfolding es s(2) using piece(2) cap by linarith
  obtain s' w' where wr: "st_copy_from_slice S (concat (map (el_as_ref el) (take (?c div b) (drop ?r ?out))))
      (length pre + length row + ?r) s w = Ok (s', w')"
    and s': "inv s' w'" "capacity s' w' = cap"
      "written (length pre + length row + ?r) (take (?c div b) (drop ?r ?out)) (elems s w) (elems s' w')"
    using copy_from_slice_Ok [OF s(1) fit] s(2) by auto
  have "length pre + length row + ?r < usize_limit" using fit capacity_word [OF s(1)] by linarith
  then have "layer_write_chunk S b (length pre) (length pre + length row) (length pre + ?p) (piece_bytes el ?h b row i) s w = Ok (s', w')"
    using wr chunk_arity(3) [OF b, of i] piece(1) by (simp add: layer_write_chunk_def piece_bytes_def)
  moreover have "filled (pre @ row) ?out (written_nodes b (length row) ps \<union> {?r ..< ?r + ?c div b}) (elems s' w')"
    using piece(2) out s'(3) by (intro filled_written [OF fill]) simp_all
  ultimately show "\<exists>s' w'. layer_write_chunk S b (length pre) (length pre + length row) (length pre + ?p)
        (piece_bytes el ?h b row i) s w = Ok (s', w') \<and> inv s' w' \<and> capacity s' w' = cap \<and>
      filled (pre @ row) ?out (written_nodes b (length row) ps \<union> piece_nodes b (length row) i) (elems s' w')"
    using s' by (auto simp: piece_nodes_def)
qed

lemma layer_step_inv:
  assumes I: "layer_inv el inv elems capacity cap (node_hash A level) b pre row (ps, s, w)"
    and q: "length row = q * b" and b: "0 < b" "BUILD_CHUNK_NODES mod b = 0"
    and cap: "length pre + length row + q \<le> cap"
    and step: "layer_step el S A b (length row) level (length pre) (length pre + length row) (ps, s, w) t"
  shows "layer_inv el inv elems capacity cap (node_hash A level) b pre row t"
proof -
  have at: "step_range (length pre) (length pre + length row) BUILD_CHUNK_NODES ! i = length pre + i * BUILD_CHUNK_NODES"
    if "i < length ps" for i
    using I that step_range_nth(2) [of BUILD_CHUNK_NODES "length pre" i "length pre + length row"]
    by (simp add: layer_inv_def BUILD_CHUNK_NODES_def)
  have st: "inv s w" "capacity s w = cap" and len: "\<And>i. i < length ps \<longleftrightarrow> i * BUILD_CHUNK_NODES < length row"
    and fill: "filled (pre @ row) (next_row (node_hash A level) b row) (written_nodes b (length row) ps) (elems s w)"
    and hold: "\<And>i bytes. i < length ps \<Longrightarrow> ps ! i = Holding bytes \<Longrightarrow> bytes = piece_bytes el (node_hash A level) b row i"
    using I by (auto simp: layer_inv_def)
  show ?thesis
    using step
  proof cases
    case (read_piece i bytes)
    then have bytes: "bytes = piece_bytes el (node_hash A level) b row i"
      using piece_steps_Ok(1) [OF I q b cap, of i] at [of i] by simp
    have "bytes' = piece_bytes el (node_hash A level) b row k"
      if "k < length ps" "ps[i := Holding bytes] ! k = Holding bytes'" for k bytes'
      using that hold [of k bytes'] read_piece(2) bytes by (cases "k = i") simp_all
    then show ?thesis
      unfolding read_piece(1) using st len fill written_nodes_update(2) [OF read_piece(2,3)] by (simp add: layer_inv_def)
  next
    case (write_piece i bytes s' w')
    have bytes: "bytes = piece_bytes el (node_hash A level) b row i" by (rule hold [OF write_piece(2,3)])
    obtain s'' w'' where written: "layer_write_chunk S b (length pre) (length pre + length row) (length pre + i * BUILD_CHUNK_NODES)
        (piece_bytes el (node_hash A level) b row i) s w = Ok (s'', w'')" and t: "inv s'' w''" "capacity s'' w'' = cap"
        "filled (pre @ row) (next_row (node_hash A level) b row)
          (written_nodes b (length row) ps \<union> piece_nodes b (length row) i) (elems s'' w'')"
      using piece_steps_Ok(2) [OF I q b cap write_piece(2)] by auto
    have "s'' = s'" "w'' = w'" using written write_piece(4) unfolding bytes at [OF write_piece(2)] by simp_all
    moreover have "bytes' = piece_bytes el (node_hash A level) b row k"
      if "k < length ps" "ps[i := Written] ! k = Holding bytes'" for k bytes'
      using that hold [of k bytes'] by (cases "k = i") simp_all
    ultimately show ?thesis
      unfolding write_piece(1) using t len written_nodes_update(1) [OF write_piece(2), of b "length row"]
      by (simp add: layer_inv_def)
  qed
qed

lemma layer_start:
  assumes "inv s w" and "elems s w = pre @ row"
  shows "layer_inv el inv elems capacity (capacity s w) h b pre row
    (replicate (length (step_range (length pre) (length pre + length row) BUILD_CHUNK_NODES)) Waiting, s, w)"
proof -
  let ?n = "length (step_range (length pre) (length pre + length row) BUILD_CHUNK_NODES)"
  have "{i. i < length (replicate ?n Waiting) \<and> replicate ?n Waiting ! i = Written} = {}" by auto
  then have "written_nodes b (length row) (replicate ?n Waiting) = {}" by (simp only: written_nodes_def UN_empty)
  moreover have "i < ?n \<longleftrightarrow> i * BUILD_CHUNK_NODES < length row" for i
    using step_range_nth(1) [of BUILD_CHUNK_NODES i "length pre" "length pre + length row"]
    by (simp add: BUILD_CHUNK_NODES_def)
  ultimately show ?thesis using assms filled_start [of "pre @ row"] by (simp add: layer_inv_def)
qed

lemma layer_step_enabled:
  assumes I: "layer_inv el inv elems capacity cap (node_hash A level) b pre row (ps, s, w)"
    and q: "length row = q * b" and b: "0 < b" "BUILD_CHUNK_NODES mod b = 0"
    and cap: "length pre + length row + q \<le> cap" and i: "i < length ps" "ps ! i \<noteq> Written"
  shows "\<exists>p s' w'. layer_step el S A b (length row) level (length pre) (length pre + length row)
    (ps, s, w) (ps[i := p], s', w')"
proof -
  have at: "step_range (length pre) (length pre + length row) BUILD_CHUNK_NODES ! i = length pre + i * BUILD_CHUNK_NODES"
    using I i(1) step_range_nth(2) [of BUILD_CHUNK_NODES "length pre" i "length pre + length row"]
    by (simp add: layer_inv_def BUILD_CHUNK_NODES_def)
  show ?thesis
  proof (cases "ps ! i")
    case Waiting
    show ?thesis
      by (intro exI, rule layer_step.read_piece [OF i(1) Waiting])
        (simp only: at piece_steps_Ok(1) [OF I q b cap i(1)])
  next
    case (Holding bytes)
    then have bytes: "bytes = piece_bytes el (node_hash A level) b row i" using I i(1) by (simp add: layer_inv_def)
    obtain s' w' where wr: "layer_write_chunk S b (length pre) (length pre + length row) (length pre + i * BUILD_CHUNK_NODES)
        bytes s w = Ok (s', w')"
      unfolding bytes using piece_steps_Ok(2) [OF I q b cap i(1)] by auto
    have "layer_step el S A b (length row) level (length pre) (length pre + length row)
        (ps, s, w) (ps[i := Written], s', w')"
      by (rule layer_step.write_piece [OF i(1) Holding]) (simp only: at wr)
    then show ?thesis by blast
  next
    case Written
    then show ?thesis using i(2) by simp
  qed
qed

lemma layer_counted:
  assumes "length row = q * b" and "0 < b" "BUILD_CHUNK_NODES mod b = 0" and "length pre + length row + q \<le> cap"
    and "layer_inv el inv elems capacity cap (node_hash A level) b pre row x \<and> length (fst x) = n"
    and "layer_step el S A b (length row) level (length pre) (length pre + length row) x y"
  shows "(layer_inv el inv elems capacity cap (node_hash A level) b pre row y \<and> length (fst y) = n) \<and>
    layer_work (fst x) = Suc (layer_work (fst y))"
  using assms layer_step_inv [OF _ assms(1-4)] layer_step_work [of el S A b "length row" level]
  by (cases x; cases y) fastforce

lemma layer_finished:
  assumes I: "layer_inv el inv elems capacity cap h b pre row (ps, s, w)"
    and q: "length row = q * b" and b: "0 < b" "BUILD_CHUNK_NODES mod b = 0" and all: "layer_work ps = 0"
  shows "inv s w \<and> elems s w = pre @ row @ next_row h b row"
proof -
  have s: "inv s w" and n: "\<And>i. i < length ps \<longleftrightarrow> i * BUILD_CHUNK_NODES < length row"
    and fill: "filled (pre @ row) (next_row h b row) (written_nodes b (length row) ps) (elems s w)"
    using I by (simp_all add: layer_inv_def)
  have "{..<q} \<subseteq> written_nodes b (length row) ps"
    using all n by (intro all_nodes_written [OF b q]) (simp_all add: layer_work_0)
  then have "filled (pre @ row) (next_row h b row) {..<length (next_row h b row)} (elems s w)"
    using fill length_next_row [OF b(1) q] by (auto simp: filled_def)
  then show ?thesis using s filled_end by fastforce
qed

end


section \<open>populate_data_par\<close>

text \<open>A block is hashed and written under the write lock in one step.\<close>

inductive leaf_step ::
  "('w, 's, 'e, 'a) merkle_types \<Rightarrow> 'e list \<Rightarrow> bool list \<times> 's \<times> 'w \<Rightarrow> bool list \<times> 's \<times> 'w \<Rightarrow> bool"
for C xs where
  write_block:
    "i < length bs \<Longrightarrow> \<not> bs ! i \<Longrightarrow>
     write_leaf_block C (i, chunks BUILD_DATA_BLOCK_SIZE xs ! i) (s, w) = Ok (s', w') \<Longrightarrow>
     leaf_step C xs (bs, s, w) (bs[i := True], s', w')"

definition blocks_left :: "bool list \<Rightarrow> nat" where
  "blocks_left bs = sum_list (map (\<lambda>b. if b then 0 else 1) bs)"

lemma leaf_step_left:
  assumes "leaf_step C xs (bs, s, w) (bs', s', w')"
  shows "blocks_left bs = Suc (blocks_left bs')" and "length bs' = length bs"
proof -
  have "blocks_left bs = Suc (blocks_left bs') \<and> length bs' = length bs"
    using assms
  proof cases
    case (write_block i)
    then show ?thesis
      using sum_list_map_update [of i bs "\<lambda>b. if b then 0 else 1" True] by (simp add: blocks_left_def)
  qed
  then show "blocks_left bs = Suc (blocks_left bs')" "length bs' = length bs" by simp_all
qed

lemma blocks_left_0: "blocks_left bs = 0 \<longleftrightarrow> (\<forall>i < length bs. bs ! i)"
proof -
  have "blocks_left bs = 0 \<longleftrightarrow> False \<notin> set bs" by (induction bs) (simp_all add: blocks_left_def)
  then show ?thesis by (metis in_set_conv_nth)
qed

lemma block_size: "0 < BUILD_DATA_BLOCK_SIZE"
  by (simp add: BUILD_DATA_BLOCK_SIZE_def BUILD_CHUNK_NODES_def)

lemmas block_index = chunks_piece(1) [OF block_size]

text \<open>The leaves of the blocks that have been written.\<close>

definition written_leaves :: "nat \<Rightarrow> bool list \<Rightarrow> nat set" where
  "written_leaves n bs = {j. j < n \<and> bs ! (j div BUILD_DATA_BLOCK_SIZE)}"

context merkle_build
begin

definition leaf_inv :: "nat \<Rightarrow> 'e list \<Rightarrow> bool list \<times> 's \<times> 'w \<Rightarrow> bool" where
  "leaf_inv cap xs = (\<lambda>(bs, s, w). inv s w \<and> capacity s w = cap \<and>
     length bs = length (chunks BUILD_DATA_BLOCK_SIZE xs) \<and>
     filled [] (leaf_hashes xs) (written_leaves (length xs) bs) (elems s w))"

lemma leaf_block_Ok:
  assumes I: "leaf_inv cap xs (bs, s, w)" and cap: "length xs \<le> cap" and i: "i < length bs"
  shows "\<exists>s' w'. write_leaf_block C (i, chunks BUILD_DATA_BLOCK_SIZE xs ! i) (s, w) = Ok (s', w') \<and>
    leaf_inv cap xs (bs[i := True], s', w')"
proof -
  let ?B = BUILD_DATA_BLOCK_SIZE
  let ?a = "i * ?B" and ?c = "min ?B (length xs - i * ?B)"
  have s: "inv s w" "capacity s w = cap" "length bs = length (chunks ?B xs)"
    and fill: "filled [] (leaf_hashes xs) (written_leaves (length xs) bs) (elems s w)"
    using I by (simp_all add: leaf_inv_def)
  note B = block_size
  have a: "?a < length xs" using i s(3) by (simp add: block_index)
  have chunk: "chunks ?B xs ! i = take ?c (drop ?a xs)"
    using chunks_piece(2) [OF B a] by (simp add: min_def)
  have len: "length (take ?c (drop ?a xs)) = ?c" by simp
  have "?B * i + length (take ?c (drop ?a xs)) \<le> capacity s w"
    unfolding len s(2) using a cap by (simp add: mult.commute)
  from write_leaf_block_Ok [OF s(1) this]
  obtain s' w' where wr: "write_leaf_block C (i, chunks ?B xs ! i) (s, w) = Ok (s', w')"
    and s': "inv s' w'" "capacity s' w' = cap"
      "written (?B * i) (leaf_hashes (take ?c (drop ?a xs))) (elems s w) (elems s' w')"
    unfolding chunk s(2) by auto
  have "filled [] (leaf_hashes xs) (written_leaves (length xs) bs \<union> {?a..<?a + ?c}) (elems s' w')"
    using s'(3) a by (intro filled_written [OF fill]) (simp_all add: take_map drop_map mult.commute)
  moreover have "written_leaves (length xs) (bs[i := True]) = written_leaves (length xs) bs \<union> {?a..<?a + ?c}"
  proof (rule set_eqI)
    fix j
    have in_block: "j div ?B = i \<longleftrightarrow> ?a \<le> j \<and> j < ?a + ?B"
    proof
      assume "j div ?B = i"
      then have "?a + j mod ?B = j" using div_mult_mod_eq [of j ?B] by simp
      then show "?a \<le> j \<and> j < ?a + ?B" using mod_less_divisor [OF B, of j] by (intro conjI) linarith+
    next
      show "?a \<le> j \<and> j < ?a + ?B \<Longrightarrow> j div ?B = i" by (intro div_nat_eqI) (simp_all add: mult.commute)
    qed
    show "j \<in> written_leaves (length xs) (bs[i := True]) \<longleftrightarrow>
        j \<in> written_leaves (length xs) bs \<union> {?a..<?a + ?c}"
      using i in_block a by (cases "j div ?B = i") (auto simp: written_leaves_def)
  qed
  ultimately show ?thesis using wr s s' by (auto simp: leaf_inv_def)
qed

lemma leaf_start:
  assumes "inv s w" and "elems s w = []"
  shows "leaf_inv (capacity s w) xs (replicate (length (chunks BUILD_DATA_BLOCK_SIZE xs)) False, s, w)"
proof -
  have "j div BUILD_DATA_BLOCK_SIZE * BUILD_DATA_BLOCK_SIZE \<le> j" for j by simp
  then have "j div BUILD_DATA_BLOCK_SIZE < length (chunks BUILD_DATA_BLOCK_SIZE xs)" if "j < length xs" for j
    unfolding block_index using that le_less_trans by blast
  then have "written_leaves (length xs) (replicate (length (chunks BUILD_DATA_BLOCK_SIZE xs)) False) = {}"
    by (auto simp: written_leaves_def)
  then show ?thesis using assms filled_start [of "[]"] by (simp add: leaf_inv_def)
qed

lemma leaf_counted:
  assumes "length xs \<le> cap" and "leaf_inv cap xs x \<and> length (fst x) = n" and "leaf_step C xs x y"
  shows "(leaf_inv cap xs y \<and> length (fst y) = n) \<and> blocks_left (fst x) = Suc (blocks_left (fst y))"
proof -
  have "leaf_inv cap xs y"
    using assms(3)
  proof cases
    case (write_block i bs s w s' w')
    then show ?thesis using leaf_block_Ok [OF _ assms(1), of bs s w i] assms(2) by auto
  qed
  then show ?thesis using assms(2,3) leaf_step_left [of C xs] by (cases x; cases y) fastforce
qed

lemma leaf_finished:
  assumes I: "leaf_inv cap xs (bs, s, w)" and all: "blocks_left bs = 0"
  shows "inv s w \<and> elems s w = leaf_hashes xs"
proof -
  have s: "inv s w" "length bs = length (chunks BUILD_DATA_BLOCK_SIZE xs)"
    and fill: "filled [] (leaf_hashes xs) (written_leaves (length xs) bs) (elems s w)"
    using I by (simp_all add: leaf_inv_def)
  have "j div BUILD_DATA_BLOCK_SIZE * BUILD_DATA_BLOCK_SIZE \<le> j" for j by simp
  then have "j div BUILD_DATA_BLOCK_SIZE < length bs" if "j < length xs" for j
    unfolding s(2) block_index using that le_less_trans by blast
  then have "written_leaves (length xs) bs = {..<length (leaf_hashes xs)}"
    using all by (auto simp: written_leaves_def blocks_left_0)
  then have "filled [] (leaf_hashes xs) {..<length (leaf_hashes xs)} (elems s w)" using fill by simp
  from filled_end [OF this] show ?thesis using s(1) by simp
qed

end


text \<open>Runs of every length up to the bound exist, in particular one that finishes.\<close>

lemma full_layer_run:
  assumes "store_contract el S valid elems capacity world fresh" and "valid s w"
    and "elems s w = pre @ row" and "length row = q * b" and "0 < b" and "BUILD_CHUNK_NODES mod b = 0"
    and "length pre + length row + q \<le> capacity s w"
    and "n = length (step_range (length pre) (length pre + length row) BUILD_CHUNK_NODES)" and "t \<le> 2 * n"
  shows "\<exists>x. (layer_step el S A b (length row) level (length pre) (length pre + length row) ^^ t)
    (replicate n Waiting, s, w) x"
proof -
  let ?Q = "\<lambda>x. layer_inv el valid elems capacity (capacity s w) (node_hash A level) b pre row x \<and> length (fst x) = n"
  let ?R = "layer_step el S A b (length row) level (length pre) (length pre + length row)"
  have step: "?Q y \<and> layer_work (fst x) = Suc (layer_work (fst y))" if "?Q x" "?R x y" for x y
    by (rule store_contract.layer_counted [OF assms(1,4-7) that])
  have enabled: "\<exists>y. ?R x y" if Q: "?Q x" and left: "layer_work (fst x) \<noteq> 0" for x
  proof -
    obtain ps s1 w1 where x: "x = (ps, s1, w1)" by (cases x)
    obtain i where "i < length ps" "ps ! i \<noteq> Written" using left unfolding x by (auto simp: layer_work_0)
    then show ?thesis
      using store_contract.layer_step_enabled [OF assms(1) _ assms(4-7)] Q unfolding x by fastforce
  qed
  have "?Q (replicate n Waiting, s, w)"
    unfolding assms(8) using store_contract.layer_start [OF assms(1-3)] by simp
  moreover have "t \<le> layer_work (fst (replicate n Waiting, s, w))"
    using assms(9) by (simp add: layer_work_def piece_work_def map_replicate_const sum_list_replicate)
  ultimately show ?thesis
    using counted_run_exists [of ?Q ?R "\<lambda>x. layer_work (fst x)", OF step enabled] by blast
qed

text \<open>
  C20: \<open>process_layer\<close> finishes in every order. Behind any elements \<open>pre\<close> a row is
  hashed in pieces of \<open>BUILD_CHUNK_NODES\<close>, each with a read step and a write step. However the
  steps of the pieces interleave: no step fails, every piece that is not written can take its next
  step, each run takes two steps per piece and no more, and when all are taken the store holds what
  the sequential loop leaves: the old elements and the next row behind them.
\<close>

theorem process_layer_in_any_order:
  assumes "store_contract el S valid elems capacity world fresh" and "valid s w"
    and "elems s w = pre @ row" and "length row = q * b" and "0 < b" and "BUILD_CHUNK_NODES mod b = 0"
    and "length pre + length row + q \<le> capacity s w"
    and "n = length (step_range (length pre) (length pre + length row) BUILD_CHUNK_NODES)"
    and "(layer_step el S A b (length row) level (length pre) (length pre + length row) ^^ t)
      (replicate n Waiting, s, w) (ps, s', w')"
  shows "t \<le> 2 * n \<and>
    (\<forall>i < n. ps ! i \<noteq> Written \<longrightarrow> (\<exists>p s'' w''. layer_step el S A b (length row) level (length pre)
      (length pre + length row) (ps, s', w') (ps[i := p], s'', w''))) \<and>
    (t = 2 * n \<longrightarrow> elems s' w' = pre @ row @ next_row (node_hash A level) b row \<and>
      (\<exists>s1 w1. default_process_layer el S A b (length row) level (length pre) (length pre + length row) s w = Ok (s1, w1) \<and>
        elems s1 w1 = elems s' w'))"
proof -
  let ?h = "node_hash A level"
  have start: "layer_inv el valid elems capacity (capacity s w) ?h b pre row (replicate n Waiting, s, w)"
    unfolding assms(8) by (rule store_contract.layer_start [OF assms(1-3)])
  let ?Q = "\<lambda>x. layer_inv el valid elems capacity (capacity s w) ?h b pre row x \<and> length (fst x) = n"
  have step: "?Q y \<and> layer_work (fst x) = Suc (layer_work (fst y))"
    if "?Q x" "layer_step el S A b (length row) level (length pre) (length pre + length row) x y" for x y
    by (rule store_contract.layer_counted [OF assms(1,4-7) that])
  have run: "layer_inv el valid elems capacity (capacity s w) ?h b pre row (ps, s', w')"
    "layer_work ps + t = 2 * n" "length ps = n"
    using counted_run [of ?Q, OF step assms(9)] start
    by (simp_all add: layer_work_def piece_work_def map_replicate_const sum_list_replicate)
  show ?thesis
    using run(2) store_contract.layer_step_enabled [OF assms(1) run(1) assms(4-7)]
      store_contract.layer_finished [OF assms(1) run(1) assms(4-6)]
      store_contract.process_layer_Ok [OF assms(1-7), of A level] assms(3) run(3) by auto
qed

theorem process_layer_in_any_order_witness:
  "\<exists>row ps s'. row = replicate 8192 item_zero \<and>
    (layer_step item_element (vec_store_ops item_element) xor128_algorithm 2 8192 0 0 8192 ^^ 4)
      ([Waiting, Waiting], row, ()) (ps, s', ()) \<and>
    s' = row @ next_row (node_hash xor128_algorithm 0) 2 row"
proof -
  let ?S = "vec_store_ops item_element :: (unit, item vec_store, item) store_ops"
  obtain row where row: "row = replicate 8192 item_zero" by simp
  have S: "store_contract item_element ?S (\<lambda>s w. vec_inv item_element s) (\<lambda>s w. s) (\<lambda>s w. vec_capacity item_element)
      (\<lambda>w. True) (\<lambda>config w. True)"
    by (rule element_contract.vec_store_contract [OF item.element_contract_axioms])
  have len: "length row = 8192" unfolding row by (simp only: length_replicate)
  have cap: "length ([] :: item list) + length row + 4096 \<le> vec_capacity item_element" "vec_inv item_element row"
    by (simp_all add: len vec_capacity_def vec_inv_def item_element_def)
  have q: "length row = 4096 * 2" and pos: "0 < (2 :: nat)" and mod: "BUILD_CHUNK_NODES mod 2 = 0"
    and pre: "row = [] @ row"
    by (simp_all add: len BUILD_CHUNK_NODES_def)
  have n: "2 = length (step_range (length ([] :: item list)) (length ([] :: item list) + length row) BUILD_CHUNK_NODES)"
    unfolding len using step_range_mult [of 4096 0 2] by (simp add: BUILD_CHUNK_NODES_def)
  obtain ps s' where run: "(layer_step item_element ?S xor128_algorithm 2 (length row) 0 (length ([] :: item list))
      (length ([] :: item list) + length row) ^^ 4) (replicate 2 Waiting, row, ()) (ps, s', ())"
    using full_layer_run [OF S cap(2) pre q pos mod cap(1) n, of 4 xor128_algorithm 0 "()"] by auto
  have "s' = [] @ row @ next_row (node_hash xor128_algorithm 0) 2 row"
    using process_layer_in_any_order [OF S cap(2) pre q pos mod cap(1) n run] by simp
  then show ?thesis using run row unfolding len by (intro exI [of _ row] exI [of _ ps] exI [of _ s']) (simp add: numeral_2_eq_2)
qed

text \<open>
  C22: \<open>populate_data_par\<close> finishes in every order. The blocks of \<open>BUILD_DATA_BLOCK_SIZE\<close>
  items are written in any order, also behind the end of what the store holds: no write fails,
  every block that is not written can be, and when all are the store holds the leaf hashes in
  the order of the items, as after the sequential loop.
\<close>

theorem populate_in_any_order:
  assumes "merkle_build C valid elems capacity world fresh" and "valid s w" and "elems s w = []"
    and "length xs \<le> capacity s w" and "n = length (chunks BUILD_DATA_BLOCK_SIZE xs)"
    and "(leaf_step C xs ^^ t) (replicate n False, s, w) (bs, s', w')"
  shows "t \<le> n \<and>
    (\<forall>i < n. \<not> bs ! i \<longrightarrow> (\<exists>s'' w''. leaf_step C xs (bs, s', w') (bs[i := True], s'', w''))) \<and>
    (t = n \<longrightarrow> elems s' w' = map (leaf_hash (mt_A C)) xs \<and>
      (\<exists>s1 w1. populate_data_par C s xs w = Ok (s1, w1) \<and> elems s1 w1 = elems s' w'))"
proof -
  note B = assms(1)
  have start: "merkle_build.leaf_inv C valid elems capacity (capacity s w) xs (replicate n False, s, w)"
    unfolding assms(5) by (rule merkle_build.leaf_start [OF assms(1-3)])
  let ?Q = "\<lambda>x. merkle_build.leaf_inv C valid elems capacity (capacity s w) xs x \<and> length (fst x) = n"
  have step: "?Q y \<and> blocks_left (fst x) = Suc (blocks_left (fst y))" if "?Q x" "leaf_step C xs x y" for x y
    by (rule merkle_build.leaf_counted [OF B assms(4) that])
  have run: "merkle_build.leaf_inv C valid elems capacity (capacity s w) xs (bs, s', w')"
    "blocks_left bs + t = n" "length bs = n"
    using counted_run [of ?Q, OF step assms(6)] start
    by (simp_all add: blocks_left_def map_replicate_const sum_list_replicate)
  have next_block: "\<exists>s'' w''. leaf_step C xs (bs, s', w') (bs[i := True], s'', w'')" if "i < n" "\<not> bs ! i" for i
    using merkle_build.leaf_block_Ok [OF B run(1) assms(4), of i] that run(3) leaf_step.write_block [of i bs C xs s' w'] by blast
  show ?thesis
    using run(2) next_block merkle_build.leaf_finished [OF B run(1)] merkle_build.populate_data_par_Ok [OF assms(1-4)]
    by auto
qed

theorem populate_in_any_order_witness:
  "\<exists>xs bs s'. xs = replicate 300000 item_zero \<and>
    (leaf_step test_types xs ^^ 2) ([False, False], [], ()) (bs, s', ()) \<and> s' = map (leaf_hash xor128_algorithm) xs"
proof -
  obtain xs where xs: "xs = replicate 300000 item_zero" by simp
  have len: "length xs = 300000" unfolding xs by (simp only: length_replicate)
  have cap: "vec_inv item_element []" "length xs \<le> vec_capacity item_element"
    by (simp_all add: len vec_capacity_def vec_inv_def item_element_def)
  have "1 < length (chunks BUILD_DATA_BLOCK_SIZE xs)" "\<not> 2 < length (chunks BUILD_DATA_BLOCK_SIZE xs)"
    unfolding block_index len by (simp_all add: BUILD_DATA_BLOCK_SIZE_def BUILD_CHUNK_NODES_def)
  then have n: "2 = length (chunks BUILD_DATA_BLOCK_SIZE xs)" by linarith
  note order = populate_in_any_order [OF test_build cap(1) refl cap(2) n]
  have none: "(leaf_step test_types xs ^^ 0) (replicate 2 False, [], ()) (replicate 2 False, [], ())" by simp
  obtain s1 where 1: "leaf_step test_types xs (replicate 2 False, [], ()) ((replicate 2 False)[1 := True], s1, ())"
    using order [OF none, THEN conjunct2, THEN conjunct1, rule_format, of 1] by auto
  then have one: "(leaf_step test_types xs ^^ 1) (replicate 2 False, [], ()) ((replicate 2 False)[1 := True], s1, ())"
    by (simp only: relpowp_1)
  obtain s2 where 2: "leaf_step test_types xs ((replicate 2 False)[1 := True], s1, ()) ((replicate 2 False)[1 := True, 0 := True], s2, ())"
    using order [OF one, THEN conjunct2, THEN conjunct1, rule_format, of 0] by auto
  have two: "(leaf_step test_types xs ^^ 2) (replicate 2 False, [], ()) ((replicate 2 False)[1 := True, 0 := True], s2, ())"
    using one 2 by (simp only: numeral_2_eq_2 One_nat_def relpowp_Suc_I)
  then show ?thesis using order [OF two] xs by (auto simp: numeral_2_eq_2)
qed

end
