(* ===== verification/Parallel_Mapped.thy ===== *)
theory Parallel_Mapped
  imports Parallel Cached_Trees
begin

text \<open>
  The threads of the \<open>process_layer\<close> of \<open>DiskStore\<close> and \<open>LevelCacheStore\<close>, which read the row
  below through the store and write the next row through a mapping of the file: a piece reads and
  hashes under the read lock and copies its bytes into its own part of the mapping without one. As
  a step relation any piece may take its next step; whatever the order, the file ends as the
  sequential loop of \<open>Mapped_Layer\<close> leaves it.
\<close>

section \<open>A region of a file filled piece by piece\<close>

text \<open>The bytes of \<open>out\<close> at the positions \<open>P\<close> are in place behind \<open>p\<close>, all other bytes outside the region are as before.\<close>

definition patched :: "nat \<Rightarrow> 'x list \<Rightarrow> nat set \<Rightarrow> 'x list \<Rightarrow> 'x list \<Rightarrow> bool" where
  "patched p out P xs ys \<longleftrightarrow>
     length ys = length xs \<and> p + length out \<le> length xs \<and>
     (\<forall>j < length out. j \<in> P \<longrightarrow> ys ! (p + j) = out ! j) \<and>
     (\<forall>j < length xs. j < p \<or> p + length out \<le> j \<longrightarrow> ys ! j = xs ! j)"

lemma patched_start: "p + length out \<le> length xs \<Longrightarrow> patched p out {} xs xs"
  by (simp add: patched_def)

lemma nth_overwrite:
  assumes "p + length es \<le> length xs" and "j < length xs"
  shows "overwrite p es xs ! j = (if p \<le> j \<and> j < p + length es then es ! (j - p) else xs ! j)"
  using assms by (auto simp: overwrite_def nth_append min_def)

lemma patched_end:
  assumes "patched p out P xs ys" and "{..<length out} \<subseteq> P"
  shows "ys = overwrite p out xs"
proof (rule nth_equalityI)
  have a: "length ys = length xs" "p + length out \<le> length xs"
    "\<And>j. j < length out \<Longrightarrow> ys ! (p + j) = out ! j"
    "\<And>j. j < length xs \<Longrightarrow> j < p \<or> p + length out \<le> j \<Longrightarrow> ys ! j = xs ! j"
    using assms by (auto simp: patched_def)
  show "length ys = length (overwrite p out xs)" using a(1,2) by (simp add: length_overwrite)
  fix j
  assume j: "j < length ys"
  show "ys ! j = overwrite p out xs ! j"
  proof (cases "p \<le> j \<and> j < p + length out")
    case True
    then have k: "j - p < length out" "p + (j - p) = j" by linarith+
    show ?thesis using True a(1-2) a(3) [OF k(1), unfolded k(2)] j by (simp add: nth_overwrite)
  next
    case False
    then show ?thesis using a(1,2,4) j by (auto simp: nth_overwrite)
  qed
qed

lemma patched_overwrite:
  assumes pat: "patched p out P xs ys" and c: "a + c \<le> length out"
  shows "patched p out (P \<union> {a..<a + c}) xs (overwrite (p + a) (take c (drop a out)) ys)"
proof -
  have a: "length ys = length xs" "p + length out \<le> length xs"
    "\<And>j. j < length out \<Longrightarrow> j \<in> P \<Longrightarrow> ys ! (p + j) = out ! j"
    "\<And>j. j < length xs \<Longrightarrow> j < p \<or> p + length out \<le> j \<Longrightarrow> ys ! j = xs ! j"
    using pat by (auto simp: patched_def)
  have len: "length (take c (drop a out)) = c" using c by simp
  have in_file: "p + a + length (take c (drop a out)) \<le> length ys" unfolding len using a(1,2) c by linarith
  note nth = nth_overwrite [OF in_file, unfolded len]
  have "overwrite (p + a) (take c (drop a out)) ys ! (p + j) = out ! j"
    if "j < length out" "j \<in> P \<union> {a..<a + c}" for j
  proof (cases "a \<le> j \<and> j < a + c")
    case True
    then have k: "j - a < c" "a + (j - a) = j" "a \<le> length out" using c by linarith+
    then have "take c (drop a out) ! (j - a) = out ! j" by (simp only: nth_take nth_drop)
    then show ?thesis using True nth [of "p + j"] a(1,2) that(1) by (simp add: add.assoc)
  next
    case False
    then show ?thesis using nth [of "p + j"] a that by auto
  qed
  moreover have "overwrite (p + a) (take c (drop a out)) ys ! j = xs ! j"
    if "j < length xs" "j < p \<or> p + length out \<le> j" for j
    using that nth [of j] a(1,4) c by auto
  moreover have "length (overwrite (p + a) (take c (drop a out)) ys) = length xs"
    using in_file a(1) len by (simp add: length_overwrite)
  ultimately show ?thesis using a(2) by (simp add: patched_def)
qed


section \<open>process_layer over a mapping\<close>

inductive mapped_step ::
  "file_io \<Rightarrow> 'e element \<Rightarrow> (fs, 's, 'e, 'z) store_ops_scheme \<Rightarrow> fs_file \<Rightarrow> ('a, 'e) algorithm \<Rightarrow> nat \<Rightarrow>
     nat \<Rightarrow> nat \<Rightarrow> nat \<Rightarrow> nat \<Rightarrow> 's \<Rightarrow> piece list \<times> fs \<Rightarrow> piece list \<times> fs \<Rightarrow> bool"
for io el S f A branches width level read_start write_start s where
  read_mapped:
    "i < length ps \<Longrightarrow> ps ! i = Waiting \<Longrightarrow>
     layer_read_chunk el S A branches width level read_start
       (step_range read_start (read_start + width) BUILD_CHUNK_NODES ! i) s w = Ok bytes \<Longrightarrow>
     mapped_step io el S f A branches width level read_start write_start s (ps, w) (ps[i := Holding bytes], w)"
| write_mapped:
    "i < length ps \<Longrightarrow> ps ! i = Holding bytes \<Longrightarrow>
     m = \<lparr>mm_file = f, mm_offset = write_start * el_byte_len el, mm_len = width * el_byte_len el\<rparr> \<Longrightarrow>
     wcw = (BUILD_CHUNK_NODES div 2 ^ log2_pow2 branches) * el_byte_len el \<Longrightarrow>
     mapped_write io m wcw (step_range 0 (width * el_byte_len el) wcw ! i) bytes w = Ok w' \<Longrightarrow>
     mapped_step io el S f A branches width level read_start write_start s (ps, w) (ps[i := Written], w')"

lemma mapped_step_work:
  assumes "mapped_step io el S f A b width level rs ws s (ps, w) (ps', w')"
  shows "layer_work ps = Suc (layer_work ps')" and "length ps' = length ps"
proof -
  have "layer_work ps = Suc (layer_work ps') \<and> length ps' = length ps"
    using assms
  proof cases
    case (read_mapped i bytes)
    then show ?thesis
      using sum_list_map_update [of i ps piece_work "Holding bytes"] by (simp add: layer_work_def piece_work_def)
  next
    case (write_mapped i bytes)
    then show ?thesis
      using sum_list_map_update [of i ps piece_work Written] by (simp add: layer_work_def piece_work_def)
  qed
  then show "layer_work ps = Suc (layer_work ps')" "length ps' = length ps" by simp_all
qed

text \<open>The bytes of the nodes that have been written.\<close>

definition node_bytes :: "nat \<Rightarrow> nat set \<Rightarrow> nat set" where
  "node_bytes n N = {j. j div n \<in> N}"

lemma node_bytes_simps:
  "node_bytes n {} = {}" "node_bytes n (M \<union> N) = node_bytes n M \<union> node_bytes n N"
  by (auto simp: node_bytes_def)

lemma node_bytes_range:
  assumes "0 < n"
  shows "node_bytes n {a..<a + c} = {a * n..<a * n + c * n}"
proof (rule set_eqI)
  fix j
  have "a \<le> j div n \<longleftrightarrow> a * n \<le> j" "j div n < a + c \<longleftrightarrow> j < (a + c) * n"
    using assms by (simp_all add: less_eq_div_iff_mult_less_eq div_less_iff_less_mult)
  then show "j \<in> node_bytes n {a..<a + c} \<longleftrightarrow> j \<in> {a * n..<a * n + c * n}"
    by (simp add: node_bytes_def distrib_right)
qed

lemma node_bytes_all:
  assumes "0 < n" and "{..<q} \<subseteq> N"
  shows "{..<q * n} \<subseteq> node_bytes n N"
  using assms by (auto simp: node_bytes_def less_mult_imp_div_less)

definition mapped_inv ::
  "'e element \<Rightarrow> fs_file \<Rightarrow> ('e list \<Rightarrow> 'e) \<Rightarrow> nat \<Rightarrow> nat \<Rightarrow> 'e list \<Rightarrow> fs \<Rightarrow> piece list \<times> fs \<Rightarrow> bool" where
  "mapped_inv el f h b ws row w0 = (\<lambda>(ps, w).
     (\<exists>data. w = fs_put f data w0 \<and>
       patched (ws * el_byte_len el) (concat (map (el_as_ref el) (next_row h b row)))
         (node_bytes (el_byte_len el) (written_nodes b (length row) ps)) (fs_data w0 f) data) \<and>
     (\<forall>i. i < length ps \<longleftrightarrow> i * BUILD_CHUNK_NODES < length row) \<and>
     (\<forall>i < length ps. \<forall>bytes. ps ! i = Holding bytes \<longrightarrow> bytes = piece_bytes el h b row i))"

context mapped_layer
begin

text \<open>Where the bytes of a piece belong.\<close>

lemma piece_bytes_range:
  assumes q: "length row = q * b" and b: "0 < b" "BUILD_CHUNK_NODES mod b = 0" and p: "i * BUILD_CHUNK_NODES < length row"
  defines "r \<equiv> i * (BUILD_CHUNK_NODES div b)"
    and "d \<equiv> min BUILD_CHUNK_NODES (length row - i * BUILD_CHUNK_NODES) div b"
  shows "r < q" and "r * el_byte_len el + d * el_byte_len el \<le> q * el_byte_len el"
    and "d * el_byte_len el \<le> (BUILD_CHUNK_NODES div b) * el_byte_len el"
    and "piece_bytes el h b row i = take (d * el_byte_len el) (drop (r * el_byte_len el) (encode (next_row h b row)))"
    and "length (piece_bytes el h b row i) = d * el_byte_len el"
proof -
  note pr = chunk_arity(2) [OF b, of i, folded r_def]
  note whole = layer_chunk_whole [OF q b pr p]
  note piece = next_row_piece [OF b(1) q pr whole(1) less_imp_le [OF p], folded d_def]
  have "r * b < q * b" using p pr q by simp
  then show "r < q" by simp
  show "r * el_byte_len el + d * el_byte_len el \<le> q * el_byte_len el"
    using mult_le_mono1 [OF piece(2), of "el_byte_len el"] by (simp add: distrib_right)
  have "d \<le> BUILD_CHUNK_NODES div b" unfolding d_def by (intro div_le_mono) simp
  then show "d * el_byte_len el \<le> (BUILD_CHUNK_NODES div b) * el_byte_len el" by (rule mult_le_mono1)
  have bytes: "piece_bytes el h b row i = encode (take d (drop r (next_row h b row)))"
    using piece(1) [of h] by (simp add: piece_bytes_def)
  then show "piece_bytes el h b row i = take (d * el_byte_len el) (drop (r * el_byte_len el) (encode (next_row h b row)))"
    by (simp only: take_as_ref drop_as_ref)
  have "length (take d (drop r (next_row h b row))) = d" using piece(2) length_next_row [OF b(1) q, of h] by simp
  then show "length (piece_bytes el h b row i) = d * el_byte_len el" unfolding bytes by (simp only: length_concat_as_ref)
qed

text \<open>Both steps of a piece succeed, whatever the others have done.\<close>

lemma mapped_read_Ok:
  assumes I: "mapped_inv el f (node_hash A level) b ws row w0 (ps, w)"
    and q: "length row = q * b" and b: "0 < b" "BUILD_CHUNK_NODES mod b = 0"
    and reads: "reads_row el S f rs ws row s w0" and i: "i < length ps"
  shows "layer_read_chunk el S A b (length row) level rs
      (step_range rs (rs + length row) BUILD_CHUNK_NODES ! i) s w = Ok (piece_bytes el (node_hash A level) b row i)"
proof -
  let ?p = "i * BUILD_CHUNK_NODES" and ?c = "min BUILD_CHUNK_NODES (length row - i * BUILD_CHUNK_NODES)"
  obtain data where w: "w = fs_put f data w0"
    and pat: "patched (ws * el_byte_len el) (encode (next_row (node_hash A level) b row))
      (node_bytes (el_byte_len el) (written_nodes b (length row) ps)) (fs_data w0 f) data"
    and p: "?p < length row"
    using I i by (auto simp: mapped_inv_def)
  note pr = chunk_arity(2) [OF b, of i]
  note whole = layer_chunk_whole [OF q b pr p]
  have at: "step_range rs (rs + length row) BUILD_CHUNK_NODES ! i = rs + ?p"
    using p step_range_nth(2) [of BUILD_CHUNK_NODES rs i "rs + length row"] by (simp add: BUILD_CHUNK_NODES_def)
  have dl: "length data = length (fs_data w0 f)" and "ws * el_byte_len el \<le> length data"
    and "\<And>j. j < ws * el_byte_len el \<Longrightarrow> data ! j = fs_data w0 f ! j"
    using pat by (auto simp: patched_def)
  then have "take (ws * el_byte_len el) data = take (ws * el_byte_len el) (fs_data w0 f)"
    by (intro nth_equalityI) simp_all
  then have "st_read_range S (rs + ?p) (rs + ?p + ?c) s w = Ok (take ?c (drop ?p row))"
    using reads whole(2,3) dl unfolding reads_row_def w by blast
  from layer_chunk_bytes [OF q b pr p this] show ?thesis by (simp add: piece_bytes_def at)
qed

lemma mapped_write_Ok:
  assumes I: "mapped_inv el f (node_hash A level) b ws row w0 (ps, w)"
    and q: "length row = q * b" and b: "0 < b" "BUILD_CHUNK_NODES mod b = 0" and i: "i < length ps"
  shows "\<exists>w'. mapped_write io \<lparr>mm_file = f, mm_offset = ws * el_byte_len el, mm_len = length row * el_byte_len el\<rparr>
        ((BUILD_CHUNK_NODES div b) * el_byte_len el)
        (step_range 0 (length row * el_byte_len el) ((BUILD_CHUNK_NODES div b) * el_byte_len el) ! i)
        (piece_bytes el (node_hash A level) b row i) w = Ok w' \<and>
      mapped_inv el f (node_hash A level) b ws row w0 (ps[i := Written], w')"
proof -
  let ?bl = "el_byte_len el" and ?n = "BUILD_CHUNK_NODES div b" and ?r = "i * (BUILD_CHUNK_NODES div b)"
  let ?out = "encode (next_row (node_hash A level) b row)" and ?bs = "piece_bytes el (node_hash A level) b row i"
  let ?m = "\<lparr>mm_file = f, mm_offset = ws * ?bl, mm_len = length row * ?bl\<rparr>"
  define d where "d = min BUILD_CHUNK_NODES (length row - i * BUILD_CHUNK_NODES) div b"
  obtain data where w: "w = fs_put f data w0"
    and pat: "patched (ws * ?bl) ?out (node_bytes ?bl (written_nodes b (length row) ps)) (fs_data w0 f) data"
    and len: "\<And>i. i < length ps \<longleftrightarrow> i * BUILD_CHUNK_NODES < length row"
    and hold: "\<And>k bytes. k < length ps \<Longrightarrow> ps ! k = Holding bytes \<Longrightarrow> bytes = piece_bytes el (node_hash A level) b row k"
    using I by (auto simp: mapped_inv_def)
  note range = piece_bytes_range [OF q b len [THEN iffD1, OF i], folded d_def]
  have out: "length ?out = q * ?bl" using length_next_row [OF b(1) q] by (simp add: length_concat_as_ref)
  have bl: "0 < ?bl" by (rule byte_len_pos)
  have "q \<le> length row" using q b(1) by simp
  then have qrow: "q * ?bl \<le> length row * ?bl" by (rule mult_le_mono1)
  have n0: "0 < ?n * ?bl" using chunk_arity(1) [OF b] bl by (rule mult_pos_pos)
  have "?r * ?bl < q * ?bl" using range(1) bl by simp
  then have pos: "step_range 0 (length row * ?bl) (?n * ?bl) ! i = ?r * ?bl"
    using step_range_nth(2) [OF n0, of 0 i "length row * ?bl"] qrow by (simp add: mult.assoc)
  have fit: "ws * ?bl + ?r * ?bl + d * ?bl \<le> length data" using pat range(2) out by (simp add: patched_def)
  have "d * ?bl \<le> length row * ?bl - ?r * ?bl" using range(2) qrow by linarith
  then have wr: "mapped_write io ?m (?n * ?bl) (?r * ?bl) ?bs w = Ok (fs_put f (overwrite (ws * ?bl + ?r * ?bl) ?bs data) w0)"
    using map_write_Ok [of "?r * ?bl" ?bs ?m data] fit range(2,3) qrow by (simp add: mapped_write_def w range(5))
  have "patched (ws * ?bl) ?out (node_bytes ?bl (written_nodes b (length row) ps) \<union> {?r * ?bl..<?r * ?bl + d * ?bl})
      (fs_data w0 f) (overwrite (ws * ?bl + ?r * ?bl) ?bs data)"
    unfolding range(4) using range(2) out by (intro patched_overwrite [OF pat]) simp
  moreover have "node_bytes ?bl (written_nodes b (length row) (ps[i := Written])) =
      node_bytes ?bl (written_nodes b (length row) ps) \<union> {?r * ?bl..<?r * ?bl + d * ?bl}"
    unfolding written_nodes_update(1) [OF i] piece_nodes_def node_bytes_simps(2) node_bytes_range [OF bl] d_def ..
  moreover have "bytes' = piece_bytes el (node_hash A level) b row k"
    if "k < length ps" "ps[i := Written] ! k = Holding bytes'" for k bytes'
    using that hold [of k bytes'] by (cases "k = i") simp_all
  ultimately have "mapped_inv el f (node_hash A level) b ws row w0
      (ps[i := Written], fs_put f (overwrite (ws * ?bl + ?r * ?bl) ?bs data) w0)"
    using len by (auto simp: mapped_inv_def)
  then show ?thesis unfolding pos using wr by blast
qed

lemma mapped_start:
  assumes "(ws + q) * el_byte_len el \<le> length (fs_data w f)" and "length row = q * b" and "0 < b"
  shows "mapped_inv el f h b ws row w
    (replicate (length (step_range rs (rs + length row) BUILD_CHUNK_NODES)) Waiting, w)"
proof -
  let ?ps = "replicate (length (step_range rs (rs + length row) BUILD_CHUNK_NODES)) Waiting"
  have "{i. i < length ?ps \<and> ?ps ! i = Written} = {}" by auto
  then have "written_nodes b (length row) ?ps = {}" by (simp only: written_nodes_def UN_empty)
  moreover have "i < length ?ps \<longleftrightarrow> i * BUILD_CHUNK_NODES < length row" for i
    using step_range_nth(1) [of BUILD_CHUNK_NODES i rs "rs + length row"] by (simp add: BUILD_CHUNK_NODES_def)
  moreover have "ws * el_byte_len el + length (concat (map (el_as_ref el) (next_row h b row))) \<le> length (fs_data w f)"
    using assms(1) length_next_row [OF assms(3,2)] by (simp add: length_concat_as_ref distrib_right)
  from patched_start [OF this] have "patched (ws * el_byte_len el) (concat (map (el_as_ref el) (next_row h b row)))
      (node_bytes (el_byte_len el) {}) (fs_data w f) (fs_data w f)"
    by (simp only: node_bytes_simps)
  moreover have "w = fs_put f (fs_data w f) w" by simp
  ultimately show ?thesis unfolding mapped_inv_def by fastforce
qed

lemma mapped_step_inv:
  assumes I: "mapped_inv el f (node_hash A level) b ws row w0 (ps, w)"
    and q: "length row = q * b" and b: "0 < b" "BUILD_CHUNK_NODES mod b = 0" and sh: "2 ^ log2_pow2 b = b"
    and reads: "reads_row el S f rs ws row s w0"
    and step: "mapped_step io el S f A b (length row) level rs ws s (ps, w) t"
  shows "mapped_inv el f (node_hash A level) b ws row w0 t"
  using step
proof cases
  case (read_mapped i bytes)
  have bytes: "bytes = piece_bytes el (node_hash A level) b row i"
    using mapped_read_Ok [OF I q b reads read_mapped(2)] read_mapped(4) by simp
  have "bytes' = piece_bytes el (node_hash A level) b row k"
    if "k < length ps" "ps[i := Holding bytes] ! k = Holding bytes'" for k bytes'
    using that I read_mapped(2) bytes by (cases "k = i") (simp_all add: mapped_inv_def)
  then show ?thesis
    unfolding read_mapped(1) using I written_nodes_update(2) [OF read_mapped(2,3)] by (simp add: mapped_inv_def)
next
  case (write_mapped i bytes m wcw w')
  have "bytes = piece_bytes el (node_hash A level) b row i"
    using I write_mapped(2,3) by (simp add: mapped_inv_def)
  then show ?thesis
    using mapped_write_Ok [OF I q b write_mapped(2)] write_mapped(1,4-6) unfolding sh by auto
qed

lemma mapped_step_enabled:
  assumes I: "mapped_inv el f (node_hash A level) b ws row w0 (ps, w)"
    and q: "length row = q * b" and b: "0 < b" "BUILD_CHUNK_NODES mod b = 0" and sh: "2 ^ log2_pow2 b = b"
    and reads: "reads_row el S f rs ws row s w0" and i: "i < length ps" "ps ! i \<noteq> Written"
  shows "\<exists>p w'. mapped_step io el S f A b (length row) level rs ws s (ps, w) (ps[i := p], w')"
proof (cases "ps ! i")
  case Waiting
  show ?thesis
    by (intro exI, rule mapped_step.read_mapped [OF i(1) Waiting]) (rule mapped_read_Ok [OF I q b reads i(1)])
next
  case (Holding bytes)
  then have bytes: "bytes = piece_bytes el (node_hash A level) b row i" using I i(1) by (simp add: mapped_inv_def)
  obtain w' where wr: "mapped_write io \<lparr>mm_file = f, mm_offset = ws * el_byte_len el, mm_len = length row * el_byte_len el\<rparr>
        ((BUILD_CHUNK_NODES div b) * el_byte_len el)
        (step_range 0 (length row * el_byte_len el) ((BUILD_CHUNK_NODES div b) * el_byte_len el) ! i) bytes w = Ok w'"
    using mapped_write_Ok [OF I q b i(1)] unfolding bytes by blast
  have "mapped_step io el S f A b (length row) level rs ws s (ps, w) (ps[i := Written], w')"
    by (rule mapped_step.write_mapped [OF i(1) Holding refl refl]) (use wr sh in simp)
  then show ?thesis by blast
next
  case Written
  then show ?thesis using i(2) by simp
qed

lemma mapped_counted:
  assumes "length row = q * b" and "0 < b" "BUILD_CHUNK_NODES mod b = 0" and sh: "2 ^ log2_pow2 b = b" and "reads_row el S f rs ws row s w0"
    and "mapped_inv el f (node_hash A level) b ws row w0 x \<and> length (fst x) = n"
    and "mapped_step io el S f A b (length row) level rs ws s x y"
  shows "(mapped_inv el f (node_hash A level) b ws row w0 y \<and> length (fst y) = n) \<and>
    layer_work (fst x) = Suc (layer_work (fst y))"
  using assms mapped_step_inv [OF _ assms(1-5)] mapped_step_work [of io el S f A b "length row" level]
  by (cases x; cases y) fastforce

lemma mapped_finished:
  assumes I: "mapped_inv el f h b ws row w0 (ps, w)"
    and q: "length row = q * b" and b: "0 < b" "BUILD_CHUNK_NODES mod b = 0" and all: "layer_work ps = 0"
  shows "w = fs_put f (overwrite (ws * el_byte_len el) (concat (map (el_as_ref el) (next_row h b row))) (fs_data w0 f)) w0"
proof -
  let ?out = "concat (map (el_as_ref el) (next_row h b row))"
  obtain data where w: "w = fs_put f data w0"
    and pat: "patched (ws * el_byte_len el) ?out (node_bytes (el_byte_len el) (written_nodes b (length row) ps)) (fs_data w0 f) data"
    and n: "\<And>i. i < length ps \<longleftrightarrow> i * BUILD_CHUNK_NODES < length row"
    using I by (auto simp: mapped_inv_def)
  have "{..<q} \<subseteq> written_nodes b (length row) ps"
    using all n by (intro all_nodes_written [OF b q]) (simp_all add: layer_work_0)
  from node_bytes_all [OF byte_len_pos this]
  have "{..<length ?out} \<subseteq> node_bytes (el_byte_len el) (written_nodes b (length row) ps)"
    using length_next_row [OF b(1) q] by (simp add: length_concat_as_ref)
  from patched_end [OF pat this] show ?thesis unfolding w by simp
qed

end

lemma full_mapped_run:
  assumes "file_io_contract io" and "element_contract el" and "ds_inv el s w" and "ds_elems el s w = pre @ row"
    and "length row = q * 2 ^ m" and "m \<le> 12" and "length pre + length row + q \<le> ds_capacity el s w"
    and "n = length (step_range (length pre) (length pre + length row) BUILD_CHUNK_NODES)" and "t \<le> 2 * n"
  shows "\<exists>x. (mapped_step io el (ds_ops io flog el) (ds_file s) A (2 ^ m) (length row) level (length pre)
    (length pre + length row) s ^^ t) (replicate n Waiting, w) x"
proof -
  note M = mapped_layer.intro [OF assms(1,2)]
  note facts = mapped_layer.ds_layer_facts [OF M assms(3,4,7)]
  have sh: "2 ^ log2_pow2 (2 ^ m) = (2 ^ m :: nat)" by simp
  have b: "0 < (2 ^ m :: nat)" "BUILD_CHUNK_NODES mod 2 ^ m = 0" using chunk_nodes_mod [OF assms(6)] by simp_all
  let ?ws = "length pre + length row"
  let ?Q = "\<lambda>x. mapped_inv el (ds_file s) (node_hash A level) (2 ^ m) ?ws row w x \<and> length (fst x) = n"
  let ?R = "mapped_step io el (ds_ops io flog el) (ds_file s) A (2 ^ m) (length row) level (length pre) ?ws s"
  have step: "?Q y \<and> layer_work (fst x) = Suc (layer_work (fst y))" if "?Q x" "?R x y" for x y
    by (rule mapped_layer.mapped_counted [OF M assms(5) b sh facts(1) that])
  have enabled: "\<exists>y. ?R x y" if Q: "?Q x" and left: "layer_work (fst x) \<noteq> 0" for x
  proof -
    obtain ps w1 where x: "x = (ps, w1)" by (cases x)
    obtain i where "i < length ps" "ps ! i \<noteq> Written" using left unfolding x by (auto simp: layer_work_0)
    then show ?thesis
      using mapped_layer.mapped_step_enabled [OF M _ assms(5) b sh facts(1)] Q unfolding x by fastforce
  qed
  have "?Q (replicate n Waiting, w)"
    unfolding assms(8) using mapped_layer.mapped_start [OF M facts(2) assms(5) b(1)] by simp
  moreover have "t \<le> layer_work (fst (replicate n Waiting, w))"
    using assms(9) by (simp add: layer_work_def piece_work_def map_replicate_const sum_list_replicate)
  ultimately show ?thesis
    using counted_run_exists [of ?Q ?R "\<lambda>x. layer_work (fst x)", OF step enabled] by blast
qed

text \<open>
  C21: the threads of \<open>DiskStore::process_layer\<close> finish in every order. Each piece of the row
  is read and hashed in one step and copied into its part of the mapping in another. However the
  steps interleave no step fails, every piece that is not written can take its next step, each run
  takes two steps per piece and no more, and when all are taken the file system is the very one
  that the sequential loop returns.
\<close>

theorem mapped_layer_in_any_order:
  assumes "file_io_contract io" and "element_contract el" and "ds_inv el s w" and "ds_elems el s w = pre @ row"
    and "length row = q * 2 ^ m" and "row \<noteq> []" and "m \<le> 12"
    and "length pre + length row + q \<le> ds_capacity el s w"
    and "n = length (step_range (length pre) (length pre + length row) BUILD_CHUNK_NODES)"
    and "(mapped_step io el (ds_ops io flog el) (ds_file s) A (2 ^ m) (length row) level (length pre)
      (length pre + length row) s ^^ t) (replicate n Waiting, w) (ps, w')"
  shows "t \<le> 2 * n \<and>
    (\<forall>i < n. ps ! i \<noteq> Written \<longrightarrow> (\<exists>p w''. mapped_step io el (ds_ops io flog el) (ds_file s) A (2 ^ m) (length row)
      level (length pre) (length pre + length row) s (ps, w') (ps[i := p], w''))) \<and>
    (t = 2 * n \<longrightarrow>
      ds_process_layer io flog el A (2 ^ m) (length row) level (length pre) (length pre + length row) s w = Ok (s, w'))"
proof -
  let ?h = "node_hash A level" and ?ws = "length pre + length row"
  note M = mapped_layer.intro [OF assms(1,2)]
  have b: "0 < (2 ^ m :: nat)" "BUILD_CHUNK_NODES mod 2 ^ m = 0" using chunk_nodes_mod [OF assms(7)] by simp_all
  note facts = mapped_layer.ds_layer_facts [OF M assms(3,4,8)]
  have sh: "2 ^ log2_pow2 (2 ^ m) = (2 ^ m :: nat)" by simp
  have start: "mapped_inv el (ds_file s) ?h (2 ^ m) ?ws row w (replicate n Waiting, w)"
    unfolding assms(9) by (rule mapped_layer.mapped_start [OF M facts(2) assms(5) b(1)])
  let ?Q = "\<lambda>x. mapped_inv el (ds_file s) ?h (2 ^ m) ?ws row w x \<and> length (fst x) = n"
  let ?R = "mapped_step io el (ds_ops io flog el) (ds_file s) A (2 ^ m) (length row) level (length pre) ?ws s"
  have step: "?Q y \<and> layer_work (fst x) = Suc (layer_work (fst y))" if "?Q x" "?R x y" for x y
    by (rule mapped_layer.mapped_counted [OF M assms(5) b sh facts(1) that])
  have run: "mapped_inv el (ds_file s) ?h (2 ^ m) ?ws row w (ps, w')" "layer_work ps + t = 2 * n" "length ps = n"
    using counted_run [of ?Q ?R, OF step assms(10)] start
    by (simp_all add: layer_work_def piece_work_def map_replicate_const sum_list_replicate)
  have next_step: "\<exists>p w''. mapped_step io el (ds_ops io flog el) (ds_file s) A (2 ^ m) (length row)
      level (length pre) ?ws s (ps, w') (ps[i := p], w'')" if "i < n" "ps ! i \<noteq> Written" for i
    using mapped_layer.mapped_step_enabled [OF M run(1) assms(5) b sh facts(1), of i] that run(3) by simp
  have "ds_process_layer io flog el A (2 ^ m) (length row) level (length pre) ?ws s w = Ok (s, w')" if "t = 2 * n"
  proof -
    have "layer_work ps = 0" using run(2) that by simp
    from mapped_layer.mapped_finished [OF M run(1) assms(5) b this]
    show ?thesis
      using mapped_layer.mapped_layer_Ok [OF M assms(7,5,6) facts, where A = A and level = level]
      by (simp add: ds_process_layer_def)
  qed
  then show ?thesis using run(2) next_step by auto
qed

theorem mapped_layer_in_any_order_witness:
  "\<exists>row s w ps w'. row = replicate 8192 item_zero \<and> ds_inv item_element s w \<and> ds_elems item_element s w = row \<and>
    (mapped_step model_io item_element (ds_ops model_io exact_flog item_element) (ds_file s) xor128_algorithm 2 8192 0 0
      8192 s ^^ 4) ([Waiting, Waiting], w) (ps, w') \<and>
    ds_process_layer model_io exact_flog item_element xor128_algorithm 2 8192 0 0 8192 s w = Ok (s, w')"
proof -
  obtain row where row: "row = replicate 8192 item_zero" by simp
  have len: "length row = 8192" unfolding row by (simp only: length_replicate)
  note I = model_io.file_io_contract_axioms item.element_contract_axioms
  note C = mapped_layer.ds_store_contract [OF mapped_layer.intro [OF I], of exact_flog]
  have "12288 * el_byte_len item_element < isize_limit" "length row \<le> 12288"
    by (simp_all add: item_element_def len)
  then obtain s w where s: "ds_inv item_element s w" "ds_elems item_element s w = row" "12288 \<le> ds_capacity item_element s w"
    using store_contract.new_from_slice_Ok [OF C TrueI, where w = empty_fs and n = 12288 and es = row] by auto
  have q: "length row = 4096 * 2 ^ 1" and m: "1 \<le> (12 :: nat)"
    and cap: "length ([] :: item list) + length row + 4096 \<le> ds_capacity item_element s w"
    using s(3) by (auto simp: len)
  have ne: "row \<noteq> []" using len by (metis list.size(3) zero_neq_numeral)
  have elems: "ds_elems item_element s w = [] @ row" using s(2) by simp
  have n: "2 = length (step_range (length ([] :: item list)) (length ([] :: item list) + length row) BUILD_CHUNK_NODES)"
    unfolding len using step_range_mult [of 4096 0 2] by (simp add: BUILD_CHUNK_NODES_def)
  obtain ps w' where run: "(mapped_step model_io item_element (ds_ops model_io exact_flog item_element) (ds_file s)
      xor128_algorithm (2 ^ 1) (length row) 0 (length ([] :: item list)) (length ([] :: item list) + length row) s ^^ 4)
      (replicate 2 Waiting, w) (ps, w')"
    using full_mapped_run [OF I s(1) elems q m cap n, of 4 exact_flog xor128_algorithm 0] by auto
  have "ds_process_layer model_io exact_flog item_element xor128_algorithm (2 ^ 1) (length row) 0 (length ([] :: item list))
      (length ([] :: item list) + length row) s w = Ok (s, w')"
    using mapped_layer_in_any_order [OF I s(1) elems q ne m cap n run] by simp
  then show ?thesis
    using run row s(1,2) unfolding len
    by (intro exI [of _ row] exI [of _ s] exI [of _ w] exI [of _ ps] exI [of _ w']) (simp add: numeral_2_eq_2)
qed

end
