(* ===== verification/Store_Iter.thy ===== *)
theory Store_Iter
  imports Disk_Store_Correct Test_Tree
begin

text \<open>
  The macro \<open>impl_parallel_iter!\<close> of \<open>src/store/mod.rs\<close>: \<open>VecStore\<close> and \<open>DiskStore\<close> as
  indexed parallel iterators. A producer is a range of a store that can be split; what is left
  of it is read from both ends by a double-ended iterator. How \<open>rayon\<close> splits and drains is a
  parameter, the datatype \<open>plan\<close>: whatever it chooses, the elements come out in order.
\<close>

section \<open>Producers\<close>

record 's producer =
  pr_current :: nat
  pr_end :: nat
  pr_store :: 's

record 's store_iter =
  it_current :: nat
  it_end :: nat
  it_err :: bool
  it_store :: 's

definition producer_new :: "nat \<Rightarrow> nat \<Rightarrow> 's \<Rightarrow> 's producer" where
  "producer_new current end' store = \<lparr>pr_current = current, pr_end = end', pr_store = store\<rparr>"

definition producer_len :: "'s producer \<Rightarrow> nat outcome" where
  "producer_len p = usize_sub (pr_end p) (pr_current p)"

definition producer_is_empty :: "'s producer \<Rightarrow> bool outcome" where
  "producer_is_empty p = and_then (producer_len p) (\<lambda>len. Ok (len = 0))"

definition producer_into_iter :: "'s producer \<Rightarrow> 's store_iter" where
  "producer_into_iter p =
     \<lparr>it_current = pr_current p, it_end = pr_end p, it_err = False, it_store = pr_store p\<rparr>"

definition producer_split_at :: "'s producer \<Rightarrow> nat \<Rightarrow> ('s producer \<times> 's producer) outcome" where
  "producer_split_at p index =
     and_then (producer_len p) (\<lambda>len.
     if len = 0 then Ok (producer_new 0 0 (pr_store p), producer_new 0 0 (pr_store p))
     else
       let current = pr_current p in
       and_then (usize_add current (min len index)) (\<lambda>first_end.
       panic_unless (first_end \<ge> current) AssertFailed (
       and_then (usize_add current len) (\<lambda>end'.
       panic_unless (end' \<ge> first_end) AssertFailed (
       Ok (producer_new current first_end (pr_store p), producer_new first_end end' (pr_store p)))))))"

text \<open>\<open>opt_len\<close>, \<open>len\<close> and \<open>with_producer\<close> of a store\<close>

definition store_opt_len :: "('w, 's, 'e, 'z) store_ops_scheme \<Rightarrow> 's \<Rightarrow> nat option" where
  "store_opt_len S s = Some (st_len S s)"

definition store_par_len :: "('w, 's, 'e, 'z) store_ops_scheme \<Rightarrow> 's \<Rightarrow> nat" where
  "store_par_len S s = st_len S s"

definition store_with_producer ::
  "('w, 's, 'e, 'z) store_ops_scheme \<Rightarrow> 's \<Rightarrow> ('s producer \<Rightarrow> 'r) \<Rightarrow> 'r" where
  "store_with_producer S s callback = callback (producer_new 0 (st_len S s) s)"


section \<open>The iterator\<close>

definition iter_len :: "'s store_iter \<Rightarrow> nat outcome" where
  "iter_len it = panic_unless (it_current it \<le> it_end it) AssertFailed (usize_sub (it_end it) (it_current it))"

definition iter_is_done :: "'s store_iter \<Rightarrow> bool outcome" where
  "iter_is_done it =
     (if it_err it then Ok False else and_then (iter_len it) (\<lambda>len. Ok (len = 0)))"

definition iter_next ::
  "('w, 's, 'e, 'z) store_ops_scheme \<Rightarrow> 'w \<Rightarrow> 's store_iter \<Rightarrow> ('e option \<times> 's store_iter) outcome" where
  "iter_next S w it =
     and_then (iter_is_done it) (\<lambda>finished.
     if finished then Ok (None, it)
     else
       case st_read_at S (it_current it) (it_store it) w of
         Ok el \<Rightarrow> and_then (usize_add (it_current it) 1) (\<lambda>c. Ok (Some el, it\<lparr>it_current := c\<rparr>))
       | Err e \<Rightarrow> Ok (None, it\<lparr>it_err := True\<rparr>)
       | Panic p \<Rightarrow> Panic p
       | Diverge \<Rightarrow> Diverge)"

definition iter_next_back ::
  "('w, 's, 'e, 'z) store_ops_scheme \<Rightarrow> 'w \<Rightarrow> 's store_iter \<Rightarrow> ('e option \<times> 's store_iter) outcome" where
  "iter_next_back S w it =
     and_then (iter_is_done it) (\<lambda>finished.
     if finished then Ok (None, it)
     else
       and_then (usize_sub (it_end it) 1) (\<lambda>i.
       case st_read_at S i (it_store it) w of
         Ok el \<Rightarrow> and_then (usize_sub (it_end it) 1) (\<lambda>c. Ok (Some el, it\<lparr>it_end := c\<rparr>))
       | Err e \<Rightarrow> Ok (None, it\<lparr>it_err := True\<rparr>)
       | Panic p \<Rightarrow> Panic p
       | Diverge \<Rightarrow> Diverge))"


section \<open>What rayon does with a producer\<close>

text \<open>
  A plan splits a producer at any index or drains it, asking for its next element from the
  front (\<open>True\<close>) or from the back (\<open>False\<close>).
\<close>

datatype plan = Drain "bool list" | SplitAt nat plan plan

fun drain ::
  "('w, 's, 'e, 'z) store_ops_scheme \<Rightarrow> 'w \<Rightarrow> bool list \<Rightarrow> 's store_iter \<Rightarrow> 'e list outcome" where
  "drain S w [] it = Ok []"
| "drain S w (front # ds) it =
     and_then (if front then iter_next S w it else iter_next_back S w it) (\<lambda>(x, it).
     and_then (drain S w ds it) (\<lambda>xs.
     Ok (if front then (case x of None \<Rightarrow> [] | Some x \<Rightarrow> [x]) @ xs
         else xs @ (case x of None \<Rightarrow> [] | Some x \<Rightarrow> [x]))))"

fun run_plan ::
  "('w, 's, 'e, 'z) store_ops_scheme \<Rightarrow> 'w \<Rightarrow> plan \<Rightarrow> 's producer \<Rightarrow> 'e list outcome" where
  "run_plan S w (Drain ds) p = drain S w ds (producer_into_iter p)"
| "run_plan S w (SplitAt index l r) p =
     and_then (producer_split_at p index) (\<lambda>(p, q).
     and_then (run_plan S w l p) (\<lambda>xs.
     and_then (run_plan S w r q) (\<lambda>ys. Ok (xs @ ys))))"

text \<open>A plan that asks each piece often enough for a range of \<open>n\<close> elements.\<close>

fun plan_covers :: "nat \<Rightarrow> plan \<Rightarrow> bool" where
  "plan_covers n (Drain ds) \<longleftrightarrow> n \<le> length ds"
| "plan_covers n (SplitAt index l r) \<longleftrightarrow> plan_covers (min n index) l \<and> plan_covers (n - index) r"


section \<open>Ranges of a store\<close>

text \<open>The elements of a range.\<close>

definition range_elems :: "nat \<Rightarrow> nat \<Rightarrow> 'e list \<Rightarrow> 'e list" where
  "range_elems a b xs = take (b - a) (drop a xs)"

lemma range_elems_simps [simp]:
  "length (range_elems a b xs) = min (b - a) (length xs - a)"
  "range_elems a a xs = []" "range_elems 0 (length xs) xs = xs"
  by (simp_all add: range_elems_def)

lemma range_elems_front:
  assumes "a < b" and "b \<le> length xs"
  shows "range_elems a b xs = xs ! a # range_elems (Suc a) b xs"
proof -
  have "drop a xs = xs ! a # drop (Suc a) xs" using assms by (simp add: Cons_nth_drop_Suc)
  moreover have "b - a = Suc (b - Suc a)" using assms(1) by simp
  ultimately show ?thesis by (simp add: range_elems_def)
qed

lemma range_elems_append:
  assumes "a \<le> m" and "m \<le> b"
  shows "range_elems a b xs = range_elems a m xs @ range_elems m b xs"
proof -
  have "b - a = (m - a) + (b - m)" "m = (m - a) + a" using assms by simp_all
  then show ?thesis unfolding range_elems_def by (metis take_add drop_drop)
qed

lemma range_elems_back:
  assumes "a < b" and "b \<le> length xs"
  shows "range_elems a b xs = range_elems a (b - 1) xs @ [xs ! (b - 1)]"
proof -
  have "range_elems (b - 1) b xs = [xs ! (b - 1)]"
    using range_elems_front [of "b - 1" b xs] assms by simp
  moreover have "range_elems a b xs = range_elems a (b - 1) xs @ range_elems (b - 1) b xs"
    using assms by (intro range_elems_append) simp_all
  ultimately show ?thesis by simp
qed

definition producer_ok :: "nat \<Rightarrow> 's \<Rightarrow> 's producer \<Rightarrow> bool" where
  "producer_ok n s p \<longleftrightarrow> pr_store p = s \<and> pr_current p \<le> pr_end p \<and> pr_end p \<le> n"

definition iter_ok :: "nat \<Rightarrow> 's \<Rightarrow> 's store_iter \<Rightarrow> bool" where
  "iter_ok n s it \<longleftrightarrow> it_store it = s \<and> it_current it \<le> it_end it \<and> it_end it \<le> n \<and> \<not> it_err it"

definition iter_elems :: "'e list \<Rightarrow> 's store_iter \<Rightarrow> 'e list" where
  "iter_elems xs it = range_elems (it_current it) (it_end it) xs"

definition producer_elems :: "'e list \<Rightarrow> 's producer \<Rightarrow> 'e list" where
  "producer_elems xs p = range_elems (pr_current p) (pr_end p) xs"

lemma producer_split_Ok:
  assumes "producer_ok n s p" and "n < usize_limit"
  shows "\<exists>l r. producer_split_at p index = Ok (l, r) \<and> producer_ok n s l \<and> producer_ok n s r \<and>
    pr_end l - pr_current l = min (pr_end p - pr_current p) index \<and>
    pr_end r - pr_current r = (pr_end p - pr_current p) - index \<and>
    (\<forall>xs. producer_elems xs l @ producer_elems xs r = producer_elems xs p)"
proof (cases "pr_end p - pr_current p = 0")
  case True
  then show ?thesis
    using assms
    by (auto simp: producer_split_at_def producer_len_def producer_ok_def producer_new_def producer_elems_def range_elems_def)
next
  case False
  let ?m = "pr_current p + min (pr_end p - pr_current p) index"
  have m: "?m \<le> pr_end p" "pr_end p < usize_limit"
    using assms min.cobounded1 [of "pr_end p - pr_current p" index] unfolding producer_ok_def by linarith+
  have "producer_elems xs (producer_new (pr_current p) ?m s) @ producer_elems xs (producer_new ?m (pr_end p) s) =
      producer_elems xs p" for xs
    using range_elems_append [of "pr_current p" ?m "pr_end p" xs] m(1)
    by (simp add: producer_elems_def producer_new_def)
  then show ?thesis
    using False assms(1) m
    by (intro exI [of _ "producer_new (pr_current p) ?m s"] exI [of _ "producer_new ?m (pr_end p) s"])
      (auto simp: producer_split_at_def producer_len_def producer_ok_def Let_def producer_new_def)
qed

lemma into_iter_ok:
  "producer_ok n s p \<Longrightarrow> iter_ok n s (producer_into_iter p) \<and>
    iter_elems xs (producer_into_iter p) = producer_elems xs p"
  by (simp add: producer_ok_def iter_ok_def producer_into_iter_def iter_elems_def producer_elems_def)

text \<open>A sound iterator answers with the first or the last element of its range and drops it.\<close>

context store_contract
begin

lemma iter_next_Ok:
  assumes "inv s w" and "iter_ok (length (elems s w)) s it"
  shows "\<exists>it'. iter_next S w it = Ok (if iter_elems (elems s w) it = [] then (None, it)
      else (Some (hd (iter_elems (elems s w) it)), it')) \<and>
    iter_ok (length (elems s w)) s it' \<and> iter_elems (elems s w) it' = tl (iter_elems (elems s w) it)"
proof (cases "it_current it = it_end it")
  case True
  then show ?thesis
    using assms(2) by (intro exI [of _ it]) (simp add: iter_next_def iter_is_done_def iter_len_def iter_ok_def iter_elems_def)
next
  case False
  let ?c = "it_current it"
  have c: "?c < it_end it" "it_end it \<le> length (elems s w)" "it_store it = s" "\<not> it_err it"
    using assms(2) False by (simp_all add: iter_ok_def)
  have "?c + 1 < usize_limit" using c elems_capacity [OF assms(1)] capacity_word [OF assms(1)] by linarith
  then have "iter_next S w it = Ok (Some (elems s w ! ?c), it\<lparr>it_current := Suc ?c\<rparr>)"
    using c read_at_Ok [OF assms(1), of ?c] by (simp add: iter_next_def iter_is_done_def iter_len_def)
  moreover have "iter_elems (elems s w) it = elems s w ! ?c # iter_elems (elems s w) (it\<lparr>it_current := Suc ?c\<rparr>)"
    using range_elems_front [OF c(1,2)] by (simp add: iter_elems_def)
  ultimately show ?thesis
    using c by (intro exI [of _ "it\<lparr>it_current := Suc ?c\<rparr>"]) (simp add: iter_ok_def)
qed

lemma iter_next_back_Ok:
  assumes "inv s w" and "iter_ok (length (elems s w)) s it"
  shows "\<exists>it'. iter_next_back S w it = Ok (if iter_elems (elems s w) it = [] then (None, it)
      else (Some (last (iter_elems (elems s w) it)), it')) \<and>
    iter_ok (length (elems s w)) s it' \<and> iter_elems (elems s w) it' = butlast (iter_elems (elems s w) it)"
proof (cases "it_current it = it_end it")
  case True
  then show ?thesis
    using assms(2)
    by (intro exI [of _ it]) (simp add: iter_next_back_def iter_is_done_def iter_len_def iter_ok_def iter_elems_def)
next
  case False
  let ?c = "it_end it - 1"
  have c: "it_current it < it_end it" "it_end it \<le> length (elems s w)" "it_store it = s" "\<not> it_err it"
    using assms(2) False by (simp_all add: iter_ok_def)
  then have "iter_next_back S w it = Ok (Some (elems s w ! ?c), it\<lparr>it_end := ?c\<rparr>)"
    using read_at_Ok [OF assms(1), of ?c] by (simp add: iter_next_back_def iter_is_done_def iter_len_def)
  moreover have "iter_elems (elems s w) it = iter_elems (elems s w) (it\<lparr>it_end := ?c\<rparr>) @ [elems s w ! ?c]"
    using range_elems_back [OF c(1,2)] by (simp add: iter_elems_def)
  ultimately show ?thesis
    using c by (intro exI [of _ "it\<lparr>it_end := ?c\<rparr>"]) (auto simp: iter_ok_def)
qed

lemma drain_Ok:
  assumes "inv s w" and "iter_ok (length (elems s w)) s it" and "length (iter_elems (elems s w) it) \<le> length ds"
  shows "drain S w ds it = Ok (iter_elems (elems s w) it)"
  using assms(2,3)
proof (induction ds arbitrary: it)
  case (Cons front ds)
  let ?xs = "iter_elems (elems s w) it"
  show ?case
  proof (cases "?xs = []")
    case True
    then show ?thesis
      using iter_next_Ok [OF assms(1) Cons.prems(1)] iter_next_back_Ok [OF assms(1) Cons.prems(1)] Cons.IH [OF Cons.prems(1)]
      by auto
  next
    case False
    show ?thesis
    proof (cases front)
      case True
      obtain it' where "iter_next S w it = Ok (Some (hd ?xs), it')" "iter_ok (length (elems s w)) s it'"
        "iter_elems (elems s w) it' = tl ?xs"
        using iter_next_Ok [OF assms(1) Cons.prems(1)] False by auto
      then show ?thesis using True False Cons.IH [of it'] Cons.prems(2) by simp
    next
      case rear: False
      obtain it' where "iter_next_back S w it = Ok (Some (last ?xs), it')" "iter_ok (length (elems s w)) s it'"
        "iter_elems (elems s w) it' = butlast ?xs"
        using iter_next_back_Ok [OF assms(1) Cons.prems(1)] False by auto
      then show ?thesis using rear False Cons.IH [of it'] Cons.prems(2) by simp
    qed
  qed
qed simp

lemma run_plan_Ok:
  assumes "inv s w" and "producer_ok (length (elems s w)) s p" and "plan_covers (pr_end p - pr_current p) plan"
  shows "run_plan S w plan p = Ok (producer_elems (elems s w) p)"
  using assms(2,3)
proof (induction plan arbitrary: p)
  case (Drain ds)
  then show ?case
    using drain_Ok [OF assms(1), of "producer_into_iter p" ds] into_iter_ok [OF Drain.prems(1), of "elems s w"]
    by (simp add: producer_elems_def)
next
  case (SplitAt index l r)
  have "length (elems s w) < usize_limit"
    using elems_capacity [OF assms(1)] capacity_word [OF assms(1)] by linarith
  from producer_split_Ok [OF SplitAt.prems(1) this, of index]
  show ?case using SplitAt.IH SplitAt.prems(2) by auto
qed

end

section \<open>Properties\<close>

text \<open>
  C23: a parallel iteration over a store yields its elements, in order, however \<open>rayon\<close>
  splits the range and from whichever end it asks for the next element of a piece, as long as it
  asks often enough; asking again gives nothing more. \<open>len\<close> and \<open>opt_len\<close> are the number of
  the elements.
\<close>

theorem parallel_iteration_yields_the_elements:
  assumes "store_contract el S valid elems capacity world fresh" and "valid s w"
    and "plan_covers (length (elems s w)) plan"
  shows "store_with_producer S s (run_plan S w plan) = Ok (elems s w) \<and>
    store_par_len S s = length (elems s w) \<and> store_opt_len S s = Some (length (elems s w))"
  using store_contract.run_plan_Ok [OF assms(1,2), of "producer_new 0 (st_len S s) s" plan]
    store_contract.len_elems [OF assms(1,2)] assms(3)
  by (simp add: store_with_producer_def store_par_len_def store_opt_len_def producer_ok_def producer_new_def producer_elems_def)

theorem parallel_iteration_yields_the_elements_witness:
  "store_with_producer (vec_store_ops item_element :: (unit, item vec_store, item) store_ops) (replicate 5 item_zero)
    (run_plan (vec_store_ops item_element) ()
      (SplitAt 2 (Drain [False, True]) (SplitAt 9 (Drain [True, False, False, True]) (Drain []))))
    = Ok (replicate 5 item_zero)"
proof -
  let ?S = "vec_store_ops item_element :: (unit, item vec_store, item) store_ops"
  have S: "store_contract item_element ?S (\<lambda>s w. vec_inv item_element s) (\<lambda>s w. s) (\<lambda>s w. vec_capacity item_element)
      (\<lambda>w. True) (\<lambda>config w. True)"
    by (rule element_contract.vec_store_contract [OF item.element_contract_axioms])
  show ?thesis
    by (rule parallel_iteration_yields_the_elements [OF S, THEN conjunct1])
      (simp_all add: vec_inv_def vec_capacity_def item_element_def)
qed

text \<open>
  C24: the producers and iterators of a store stay well formed. A producer or iterator is a
  range inside the store; \<open>split_at\<close> at any index gives two such producers, \<open>into_iter\<close> such
  an iterator, and \<open>next\<close> and \<open>next_back\<close> return, without a panic or an error, and keep the
  iterator in its range.
\<close>

theorem store_iterators_stay_well_formed:
  assumes "store_contract el S valid elems capacity world fresh" and "valid s w" and "n = length (elems s w)"
  shows "store_with_producer S s (producer_ok n s) \<and>
    (\<forall>p index. producer_ok n s p \<longrightarrow>
      (\<exists>l r. producer_split_at p index = Ok (l, r) \<and> producer_ok n s l \<and> producer_ok n s r) \<and>
      producer_len p = Ok (length (producer_elems (elems s w) p)) \<and> iter_ok n s (producer_into_iter p)) \<and>
    (\<forall>it. iter_ok n s it \<longrightarrow>
      iter_len it = Ok (length (iter_elems (elems s w) it)) \<and>
      (\<exists>x it'. iter_next S w it = Ok (x, it') \<and> iter_ok n s it') \<and>
      (\<exists>x it'. iter_next_back S w it = Ok (x, it') \<and> iter_ok n s it'))"
proof -
  have n: "n < usize_limit"
    using store_contract.elems_capacity [OF assms(1,2)] store_contract.capacity_word [OF assms(1,2)] assms(3) by linarith
  have start: "store_with_producer S s (producer_ok n s)"
    using store_contract.len_elems [OF assms(1,2)] assms(3)
    by (simp add: store_with_producer_def producer_ok_def producer_new_def)
  have p: "(\<exists>l r. producer_split_at p index = Ok (l, r) \<and> producer_ok n s l \<and> producer_ok n s r) \<and>
      producer_len p = Ok (length (producer_elems (elems s w) p)) \<and> iter_ok n s (producer_into_iter p)"
    if "producer_ok n s p" for p index
    using producer_split_Ok [OF that n, of index] into_iter_ok [OF that] that assms(3)
    by (auto simp: producer_len_def producer_elems_def producer_ok_def)
  have len: "iter_len it = Ok (length (iter_elems (elems s w) it))" if "iter_ok n s it" for it
    using that assms(3) by (auto simp: iter_len_def iter_elems_def iter_ok_def)
  have front: "\<exists>x it'. iter_next S w it = Ok (x, it') \<and> iter_ok n s it'" if "iter_ok n s it" for it
    using store_contract.iter_next_Ok [OF assms(1,2), of it] that assms(3) by (auto split: if_splits)
  have rear: "\<exists>x it'. iter_next_back S w it = Ok (x, it') \<and> iter_ok n s it'" if "iter_ok n s it" for it
    using store_contract.iter_next_back_Ok [OF assms(1,2), of it] that assms(3) by (auto split: if_splits)
  show ?thesis using start p len front rear by blast
qed

theorem store_iterators_stay_well_formed_witness:
  "\<exists>l r. producer_split_at (producer_new 1 4 (replicate 5 item_zero)) 2 = Ok (l, r) \<and>
    producer_ok 5 (replicate 5 item_zero) l \<and> producer_ok 5 (replicate 5 item_zero) r"
proof -
  let ?S = "vec_store_ops item_element :: (unit, item vec_store, item) store_ops" and ?s = "replicate 5 item_zero"
  have S: "store_contract item_element ?S (\<lambda>s w. vec_inv item_element s) (\<lambda>s w. s) (\<lambda>s w. vec_capacity item_element)
      (\<lambda>w. True) (\<lambda>config w. True)"
    by (rule element_contract.vec_store_contract [OF item.element_contract_axioms])
  have s: "vec_inv item_element ?s" "5 = length ?s"
    by (simp_all add: vec_inv_def vec_capacity_def item_element_def)
  have p: "producer_ok 5 ?s (producer_new 1 4 ?s)" by (simp add: producer_ok_def producer_new_def)
  show ?thesis
    using store_iterators_stay_well_formed [OF S s, THEN conjunct2, THEN conjunct1] p by blast
qed

text \<open>
  After a failed read an iterator is never done. With an empty range \<open>next\<close> then reads the
  element behind the range, which belongs to another piece, and \<open>next_back\<close> reads the one in
  front of it, or subtracts from zero.
\<close>

lemma failed_iterator_leaves_its_range:
  assumes "store_contract el S valid elems capacity world fresh" and "valid s w"
    and "it_err it" and "it_store it = s" and "it_current it = it_end it"
  shows "iter_elems (elems s w) it = []"
    and "it_end it < length (elems s w) \<Longrightarrow>
      \<exists>it'. iter_next S w it = Ok (Some (elems s w ! it_end it), it') \<and> it_end it' < it_current it'"
    and "it_end it = 0 \<Longrightarrow> iter_next_back S w it = Panic ArithOverflow"
proof -
  show "iter_elems (elems s w) it = []" using assms(5) by (simp add: iter_elems_def)
  show "\<exists>it'. iter_next S w it = Ok (Some (elems s w ! it_end it), it') \<and> it_end it' < it_current it'"
    if "it_end it < length (elems s w)"
  proof -
    have "it_end it + 1 < usize_limit"
      using that store_contract.elems_capacity [OF assms(1,2)] store_contract.capacity_word [OF assms(1,2)] by linarith
    then show ?thesis
      using that assms(3-5) store_contract.read_at_Ok [OF assms(1,2) that]
      by (simp add: iter_next_def iter_is_done_def)
  qed
  show "iter_next_back S w it = Panic ArithOverflow" if "it_end it = 0"
    using that assms(3) by (simp add: iter_next_back_def iter_is_done_def usize_sub_def)
qed

end
