(* ===== verification/Replica_Trees.thy ===== *)
theory Replica_Trees
  imports Cached_Trees
begin

text \<open>
  Compound trees over compacted files: \<open>from_store_configs_and_replica\<close> and
  \<open>from_sub_tree_store_configs_and_replica\<close> open a file per base tree, with the leaves of all in
  one replica, and put one or two layers over them. Every leaf has a cached proof through all
  layers.
\<close>

section \<open>Cached proofs through a layer\<close>

definition cached_proves ::
  "('w, 's, 'e, 'a) merkle_types \<Rightarrow> nat \<Rightarrow> nat \<Rightarrow> nat \<Rightarrow> nat option \<Rightarrow> ('s, 'e) merkle_tree \<Rightarrow> 'w \<Rightarrow> 'e list \<Rightarrow> bool" where
  "cached_proves C b n t rows tree w leaves \<longleftrightarrow>
     tree_leafs tree = length leaves \<and>
     (\<forall>i < length leaves.
        \<exists>p. gen_cached_proof C b n t tree i rows w = Ok p \<and> validate (mt_A C) b p = Ok True \<and>
            leaf_item p = Ok (leaves ! i) \<and> proof_root p = Ok (mt_root tree))"

text \<open>Trees with \<open>L\<close> leaves each, all with their cached proofs, under one root.\<close>

definition cached_layer ::
  "('w, 's, 'e, 'a) merkle_types \<Rightarrow> nat \<Rightarrow> nat \<Rightarrow> nat option \<Rightarrow> nat \<Rightarrow> ('s, 'e) merkle_tree list \<Rightarrow> 'e list list \<Rightarrow>
     ('s, 'e) merkle_tree \<Rightarrow> 'w \<Rightarrow> bool" where
  "cached_layer C b n' rows L trees leaves tree w \<longleftrightarrow>
     trees \<noteq> [] \<and> length leaves = length trees \<and> 0 < L \<and>
     (\<forall>j < length trees. length (leaves ! j) = L \<and> cached_proves C b n' 0 rows (trees ! j) w (leaves ! j)) \<and>
     tree_leafs tree = length trees * L \<and> mt_root tree = node_hash (mt_A C) 1 (map mt_root trees)"

lemma cached_layerD:
  assumes "cached_layer C b n' rows L trees leaves tree w"
  shows "trees \<noteq> []" "length leaves = length trees" "0 < L"
    and "\<And>j. j < length trees \<Longrightarrow> length (leaves ! j) = L \<and> cached_proves C b n' 0 rows (trees ! j) w (leaves ! j)"
    and "tree_leafs tree = length trees * L" "mt_root tree = node_hash (mt_A C) 1 (map mt_root trees)"
    and "length (concat leaves) = length trees * L"
proof -
  show d: "trees \<noteq> []" "length leaves = length trees" "0 < L"
    and e: "\<And>j. j < length trees \<Longrightarrow> length (leaves ! j) = L \<and> cached_proves C b n' 0 rows (trees ! j) w (leaves ! j)"
    and "tree_leafs tree = length trees * L" "mt_root tree = node_hash (mt_A C) 1 (map mt_root trees)"
    using assms by (auto simp: cached_layer_def)
  have "length xs = L" if "xs \<in> set leaves" for xs
    using that d(2) e by (auto simp: in_set_conv_nth)
  then show "length (concat leaves) = length trees * L" using d(2) by (simp add: length_concat_equal)
qed

lemma cached_layer_at:
  assumes alg: "algorithm_contract (mt_A C)" "layer_heights_agree (mt_A C)"
    and ok: "cached_layer C b n' rows L trees leaves tree w" and i: "i < length (concat leaves)"
    and n: "0 < n" and t: "t = length trees \<or> t = 0 \<and> n = length trees"
  obtains q where "i div L < length trees" and "index_at trees (i div L) = Ok (trees ! (i div L))"
    and "usize_rem i (mt_leafs (trees ! (i div L))) = Ok (i mod L)"
    and "gen_cached_proof C b n' 0 (trees ! (i div L)) (i mod L) rows w = Ok q"
    and "validate (mt_A C) b (layer_proof q t n (map mt_root trees) (mt_root tree) (i div L)) = Ok True"
    and "leaf_item (layer_proof q t n (map mt_root trees) (mt_root tree) (i div L)) = Ok (concat leaves ! i)"
    and "proof_root (layer_proof q t n (map mt_root trees) (mt_root tree) (i div L)) = Ok (mt_root tree)"
proof -
  note d = cached_layerD [OF ok]
  have i': "i < length leaves * L" using i d(2,7) by simp
  have "length xs = L" if "xs \<in> set leaves" for xs
    using that d(2,4) by (auto simp: in_set_conv_nth)
  note nth = nth_concat_equal [OF this i']
  have j: "i div L < length trees" using nth(2) d(2) by simp
  note below = d(4) [OF j]
  have leafs: "mt_leafs (trees ! (i div L)) = L" using below by (simp add: cached_proves_def mt_leafs_def)
  obtain q where q: "gen_cached_proof C b n' 0 (trees ! (i div L)) (i mod L) rows w = Ok q"
    "validate (mt_A C) b q = Ok True" "leaf_item q = Ok (leaves ! (i div L) ! (i mod L))"
    "proof_root q = Ok (mt_root (trees ! (i div L)))"
    using below nth(3) by (auto simp: cached_proves_def)
  have "validate (mt_A C) b (layer_proof q t n (map mt_root trees) (mt_root tree) (i div L)) =
      Ok (node_hash (mt_A C) 0 (map mt_root trees) = mt_root tree)"
    using j q n t by (intro validate_layered_proof [OF alg(1)]) auto
  then have "validate (mt_A C) b (layer_proof q t n (map mt_root trees) (mt_root tree) (i div L)) = Ok True"
    using alg(2) d(6) by (simp add: layer_heights_agree_def)
  then show thesis
    using that [OF j] j leafs d(3) q nth(1) by (simp add: layer_proof_def proof_root_def)
qed

lemma cached_sub_layer:
  assumes alg: "algorithm_contract (mt_A C)" "layer_heights_agree (mt_A C)"
    and ok: "cached_layer C b 0 rows L trees leaves tree w" and data: "tree_data tree = SubTree trees"
  shows "cached_proves C b (length trees) 0 rows tree w (concat leaves)"
  unfolding cached_proves_def
proof (intro conjI allI impI)
  note d = cached_layerD [OF ok]
  have n: "0 < length trees" using d(1) by simp
  show "tree_leafs tree = length (concat leaves)" using d(5,7) by simp
  fix i
  assume i: "i < length (concat leaves)"
  obtain q where at: "i div L < length trees" "index_at trees (i div L) = Ok (trees ! (i div L))"
    "usize_rem i (mt_leafs (trees ! (i div L))) = Ok (i mod L)"
    "gen_cached_proof C b 0 0 (trees ! (i div L)) (i mod L) rows w = Ok q"
    and q: "validate (mt_A C) b (layer_proof q 0 (length trees) (map mt_root trees) (mt_root tree) (i div L)) = Ok True"
      "leaf_item (layer_proof q 0 (length trees) (map mt_root trees) (mt_root tree) (i div L)) = Ok (concat leaves ! i)"
      "proof_root (layer_proof q 0 (length trees) (map mt_root trees) (mt_root tree) (i div L)) = Ok (mt_root tree)"
    by (rule cached_layer_at [OF alg ok i n, of 0]) auto
  have "gen_cached_proof C b (length trees) 0 tree i rows w =
      Ok (layer_proof q 0 (length trees) (map mt_root trees) (mt_root tree) (i div L))"
    using at d(3,5,7) n i data layer_lemma_Ok [OF at(1), of "mt_root tree"]
      proof_new_layer [OF n, of b 0 q "i div L" "map mt_root trees" "mt_root tree"]
    by (simp add: gen_cached_proof.simps [of C b "length trees" 0 tree] gen_cached_sub_tree_proof.simps)
  with q show "\<exists>p. gen_cached_proof C b (length trees) 0 tree i rows w = Ok p \<and> validate (mt_A C) b p = Ok True \<and>
      leaf_item p = Ok (concat leaves ! i) \<and> proof_root p = Ok (mt_root tree)" by blast
qed

lemma cached_top_layer:
  assumes alg: "algorithm_contract (mt_A C)" "layer_heights_agree (mt_A C)" and n: "0 < n"
    and ok: "cached_layer C b n rows L trees leaves tree w" and data: "tree_data tree = TopTree trees"
  shows "cached_proves C b n (length trees) rows tree w (concat leaves)"
  unfolding cached_proves_def
proof (intro conjI allI impI)
  note d = cached_layerD [OF ok]
  have t: "0 < length trees" using d(1) by simp
  show "tree_leafs tree = length (concat leaves)" using d(5,7) by simp
  fix i
  assume i: "i < length (concat leaves)"
  obtain q where at: "i div L < length trees" "index_at trees (i div L) = Ok (trees ! (i div L))"
    "usize_rem i (mt_leafs (trees ! (i div L))) = Ok (i mod L)"
    "gen_cached_proof C b n 0 (trees ! (i div L)) (i mod L) rows w = Ok q"
    and q: "validate (mt_A C) b (layer_proof q (length trees) n (map mt_root trees) (mt_root tree) (i div L)) = Ok True"
      "leaf_item (layer_proof q (length trees) n (map mt_root trees) (mt_root tree) (i div L)) = Ok (concat leaves ! i)"
      "proof_root (layer_proof q (length trees) n (map mt_root trees) (mt_root tree) (i div L)) = Ok (mt_root tree)"
    by (rule cached_layer_at [OF alg ok i n, of "length trees"]) auto
  have "gen_cached_proof C b n (length trees) tree i rows w =
      Ok (layer_proof q (length trees) n (map mt_root trees) (mt_root tree) (i div L))"
    using at d(3,5,7) t i data layer_lemma_Ok [OF at(1), of "mt_root tree"]
      proof_new_layer [OF n, of b "length trees" q "i div L" "map mt_root trees" "mt_root tree"]
    by (simp add: gen_cached_proof.simps [of C b n "length trees" tree] gen_cached_top_tree_proof.simps)
  with q show "\<exists>p. gen_cached_proof C b n (length trees) tree i rows w = Ok p \<and> validate (mt_A C) b p = Ok True \<and>
      leaf_item p = Ok (concat leaves ! i) \<and> proof_root p = Ok (mt_root tree)" by blast
qed


section \<open>The files\<close>

text \<open>
  A sector: the file of the configuration holds the cached rows of the tree over \<open>xs\<close>, as
  \<open>compact\<close> leaves them in data version 2, and the replica holds \<open>xs\<close> behind offset \<open>j\<close>.
\<close>

definition replica_sector ::
  "('w, 's, 'e, 'a) merkle_types \<Rightarrow> nat \<Rightarrow> nat \<Rightarrow> nat option \<Rightarrow> store_config \<Rightarrow> replica_config \<Rightarrow> nat \<Rightarrow> 'e list \<Rightarrow>
     fs \<Rightarrow> bool" where
  "replica_sector C m k rows config rc j xs w \<longleftrightarrow>
     cached_fits C m k (sc_rows_to_discard config) \<and>
     discarded_rows C (2 ^ m) k rows = Ok (sc_rows_to_discard config) \<and> length xs = (2 ^ m) ^ k \<and>
     (\<exists>f. fs_names w (data_path (sc_path config) (sc_id config)) = Some f \<and>
        fs_data w f = concat (map (el_as_ref (mt_E C))
          (kept_elements (node_hash (mt_A C)) 2 (2 ^ m) k (sc_rows_to_discard config) xs))) \<and>
     replica_holds rc j (concat (map (el_as_ref (mt_E C)) xs)) w"

text \<open>The sectors of one sub-tree: \<open>n\<close> configurations and their offsets.\<close>

definition group_of :: "nat \<Rightarrow> nat \<Rightarrow> 'x list \<Rightarrow> 'x list" where
  "group_of n g xs = take n (drop (g * n) xs)"

definition replica_group :: "nat \<Rightarrow> nat \<Rightarrow> replica_config \<Rightarrow> replica_config" where
  "replica_group n g rc = \<lparr>rc_path = rc_path rc, rc_offsets = group_of n g (rc_offsets rc)\<rparr>"

text \<open>The body of the loop of \<open>from_sub_tree_store_configs_and_replica\<close>.\<close>

definition open_group ::
  "file_io \<Rightarrow> (nat \<Rightarrow> nat \<Rightarrow> nat) \<Rightarrow> 'e element \<Rightarrow> ('a, 'e) algorithm \<Rightarrow> nat \<Rightarrow> nat \<Rightarrow> nat \<Rightarrow> store_config list \<Rightarrow>
     replica_config \<Rightarrow> nat \<Rightarrow> (fs_file level_cache, 'e) merkle_tree list \<times> nat \<times> nat \<times> fs \<Rightarrow>
     ((fs_file level_cache, 'e) merkle_tree list \<times> nat \<times> nat \<times> fs) outcome" where
  "open_group io flog el A b n leafs configs rc = (\<lambda>_ (trees, start, end', w).
     and_then (slice_of (rc_offsets rc) start end') (\<lambda>offsets.
     let replica_sub_config = \<lparr>rc_path = rc_path rc, rc_offsets = offsets\<rparr> in
     and_then (slice_of configs start end') (\<lambda>group.
     and_then (from_store_configs_and_replica io flog el A b n leafs group replica_sub_config w) (\<lambda>(tree, w).
     let start = end' in
     and_then (usize_add end' n) (\<lambda>end'.
     Ok (trees @ [tree], start, end', w))))))"

text \<open>What is known of an opened base tree.\<close>

definition base_opened ::
  "(fs, fs_file level_cache, 'e, 'a) merkle_types \<Rightarrow> nat \<Rightarrow> nat \<Rightarrow> nat option \<Rightarrow> 'e list \<Rightarrow> fs \<Rightarrow>
     (fs_file level_cache, 'e) merkle_tree \<Rightarrow> bool" where
  "base_opened C m k rows xs w tree \<longleftrightarrow>
     mt_leafs tree = (2 ^ m) ^ k \<and> mt_len C tree = tree_len (2 ^ m) k \<and> mt_row_count tree = Suc k \<and>
     mt_root tree = tree_root (node_hash (mt_A C)) (2 ^ m) k xs \<and> cached_proves C (2 ^ m) 0 0 rows tree w xs"

context mapped_layer
begin

lemma open_base_Ok:
  fixes A :: "('a, 'e) algorithm"
  assumes alg: "algorithm_contract A" and heights: "heights_agree A (2 ^ m)"
    and sector: "replica_sector (disk_types io flog el A) m k rows config rc j xs w"
  shows "\<exists>reader s tree. get_merkle_tree_len ((2 ^ m) ^ k) (2 ^ m) = Ok (tree_len (2 ^ m) k) \<and>
    er_new_from_config io rc j w = Ok reader \<and>
    lc_new_from_disk_with_reader flog el (tree_len (2 ^ m) k) (2 ^ m) config reader w = Ok (s, w) \<and>
    from_data_store (lc_types io flog el A) (2 ^ m) 0 0 s ((2 ^ m) ^ k) w = Ok tree \<and>
    base_opened (lc_types io flog el A) m k rows xs w tree"
proof -
  let ?h = "node_hash A" and ?C = "lc_types io flog el A :: (fs, fs_file level_cache, 'e, 'a) merkle_types"
  have fits: "cached_fits (disk_types io flog el A) m k (sc_rows_to_discard config)"
    and rows: "discarded_rows (disk_types io flog el A) (2 ^ m) k rows = Ok (sc_rows_to_discard config)"
    and xs: "length xs = (2 ^ m) ^ k" and replica: "replica_holds rc j (encode xs) w"
    using sector by (simp_all add: replica_sector_def)
  obtain f where f: "fs_names w (data_path (sc_path config) (sc_id config)) = Some f"
    "fs_data w f = encode (cached_rows ?h (2 ^ m) k (sc_rows_to_discard config) xs)"
    using sector by (auto simp: replica_sector_def kept_elements_def)
  have bytes: "tree_len (2 ^ m) k * el_byte_len el < isize_limit" and r: "sc_rows_to_discard config < k"
    and tf: "tree_fits (disk_types io flog el A) m k"
    using fits by (simp_all add: cached_fits_def tree_fits_def)
  obtain reader where reader: "er_new_from_config io rc j w = Ok reader" "er_serves reader (encode xs) w"
    using replica_serves [OF replica] by blast
  obtain s where s: "lc_new_from_disk_with_reader flog el (tree_len (2 ^ m) k) (2 ^ m) config reader w = Ok (s, w)"
    "lc_cached el ?h (2 ^ m) k (sc_rows_to_discard config) xs s w"
    using lc_open(1) [OF cached_fits_lc [OF fits, THEN conjunct2, THEN conjunct2] bytes xs f reader(2)] by blast
  let ?tree = "base_tree s ((2 ^ m) ^ k) (tree_len (2 ^ m) k) (Suc k) (tree_root ?h (2 ^ m) k xs)"
  have opened: "from_data_store ?C (2 ^ m) 0 0 s ((2 ^ m) ^ k) w = Ok ?tree"
    by (rule lc_from_data_store [OF s(2) r cached_fits_lc [OF fits, THEN conjunct1]])
  have "\<exists>p. gen_cached_proof ?C (2 ^ m) 0 0 ?tree i rows w = Ok p \<and> validate A (2 ^ m) p = Ok True \<and>
      leaf_item p = Ok (xs ! i) \<and> proof_root p = Ok (tree_root ?h (2 ^ m) k xs)" if i: "i < (2 ^ m) ^ k" for i
  proof -
    have b: "2 \<le> (2 ^ m :: nat)" using tree_shape_arity(2) [of m k] tf by (simp add: tree_fits_def)
    have "validate A (2 ^ m) (honest_proof ?h (2 ^ m) k xs i) = Ok True"
      using merkle_build.honest_proof_validates [OF disk_merkle_build [OF file_io_contract_axioms element_contract_axioms alg]
          xs b i, of flog] heights by simp
    then show ?thesis
      using opened_tree_proves [OF fits rows alg xs i s(2)] opened by (auto simp: honest_proof_def proof_root_def)
  qed
  then have "base_opened ?C m k rows xs w ?tree"
    using xs s(2) by (simp add: base_opened_def cached_proves_def base_tree_def mt_leafs_def mt_len_def mt_row_count_def
        mt_root_def lc_cached_def)
  then show ?thesis using tree_fits_facts(4) [OF tf] reader(1) s(1) opened by blast
qed

lemma bounded_choice: "(\<And>j. j < n \<Longrightarrow> \<exists>x. P j x) \<Longrightarrow> \<exists>f. \<forall>j < (n :: nat). P j (f j)"
  by metis

text \<open>The base trees, opened one after the other.\<close>

lemma open_bases_Ok:
  fixes A :: "('a, 'e) algorithm"
  assumes alg: "algorithm_contract A" "heights_agree A (2 ^ m)"
    and sectors: "\<And>j. j < length configs \<Longrightarrow>
      replica_sector (disk_types io flog el A) m k rows (configs ! j) rc j (leaves ! j) w"
  shows "\<exists>trees. length trees = length configs \<and>
    (\<forall>j < length trees. base_opened (lc_types io flog el A) m k rows (leaves ! j) w (trees ! j)) \<and>
    for_each
      (\<lambda>(i, config) (trees, w).
        and_then (get_merkle_tree_len ((2 ^ m) ^ k) (2 ^ m)) (\<lambda>len.
        and_then (er_new_from_config io rc i w) (\<lambda>reader.
        and_then (map_err FailedToInstantiate (lc_new_from_disk_with_reader flog el len (2 ^ m) config reader w))
          (\<lambda>(data, w).
        and_then (from_data_store (lc_types io flog el A) (2 ^ m) 0 0 data ((2 ^ m) ^ k) w) (\<lambda>tree.
        Ok (trees @ [tree], w))))))
      (enumerate 0 configs) ([], w) = Ok (trees, w)"
proof -
  let ?body = "\<lambda>(i, config) (trees, w).
        and_then (get_merkle_tree_len ((2 ^ m) ^ k) (2 ^ m)) (\<lambda>len.
        and_then (er_new_from_config io rc i w) (\<lambda>reader.
        and_then (map_err FailedToInstantiate (lc_new_from_disk_with_reader flog el len (2 ^ m) config reader w))
          (\<lambda>(data, w).
        and_then (from_data_store (lc_types io flog el A) (2 ^ m) 0 0 data ((2 ^ m) ^ k) w) (\<lambda>tree.
        Ok (trees @ [tree], w)))))"
  let ?P = "\<lambda>j tree. base_opened (lc_types io flog el A) m k rows (leaves ! j) w tree \<and>
      (\<forall>trees. ?body (j, configs ! j) (trees, w) = Ok (trees @ [tree], w))"
  have "\<exists>tree. ?P j tree" if jc: "j < length configs" for j
  proof -
    obtain reader s tree where "get_merkle_tree_len ((2 ^ m) ^ k) (2 ^ m) = Ok (tree_len (2 ^ m) k)"
      "er_new_from_config io rc j w = Ok reader"
      "lc_new_from_disk_with_reader flog el (tree_len (2 ^ m) k) (2 ^ m) (configs ! j) reader w = Ok (s, w)"
      "from_data_store (lc_types io flog el A) (2 ^ m) 0 0 s ((2 ^ m) ^ k) w = Ok tree"
      and opened: "base_opened (lc_types io flog el A) m k rows (leaves ! j) w tree"
      using open_base_Ok [OF alg sectors [OF jc]] by blast
    then have "?body (j, configs ! j) (trees, w) = Ok (trees @ [tree], w)" for trees
      by (simp only: prod.case and_then.simps map_err.simps)
    then show ?thesis using opened by (intro exI [of _ tree] conjI allI)
  qed
  from bounded_choice [of "length configs" ?P, OF this]
  obtain tr where *: "\<forall>j < length configs. ?P j (tr j)" by (rule exE)
  have tr: "base_opened (lc_types io flog el A) m k rows (leaves ! j) w (tr j)"
    "?body (j, configs ! j) (trees, w) = Ok (trees @ [tr j], w)" if "j < length configs" for j trees
    using * [rule_format, OF that] by (simp_all only: simp_thms)
  have "for_each ?body (enumerate 0 configs) (map tr [0..<0], w) =
      Ok (map tr [0..<length (enumerate 0 configs)], w)"
    using tr(2) by (intro for_each_sequence [of _ _ "\<lambda>j. (map tr [0..<j], w)"]) (simp add: nth_enumerate_eq)
  then show ?thesis using tr(1) by (intro exI [of _ "map tr [0..<length configs]"]) simp
qed

lemma sub_tree_opened:
  fixes A :: "('a, 'e) algorithm"
  assumes alg: "algorithm_contract A" "heights_agree A (2 ^ m)" "layer_heights_agree A"
    and n: "length configs = n" "length leaves = n" "length (rc_offsets rc) = n" "0 < n"
    and sectors: "\<And>j. j < n \<Longrightarrow> replica_sector (disk_types io flog el A) m k rows (configs ! j) rc j (leaves ! j) w"
    and fits: "tree_layer_fits n (tree_len (2 ^ m) k) (Suc k)"
  shows "\<exists>tree. from_store_configs_and_replica io flog el A (2 ^ m) n ((2 ^ m) ^ k) configs rc w = Ok (tree, w) \<and>
    mt_leafs tree = n * (2 ^ m) ^ k \<and> mt_len (lc_types io flog el A) tree = n * tree_len (2 ^ m) k + 1 \<and>
    mt_row_count tree = Suc (Suc k) \<and>
    mt_root tree = node_hash A 1 (map (tree_root (node_hash A) (2 ^ m) k) leaves) \<and>
    cached_proves (lc_types io flog el A) (2 ^ m) n 0 rows tree w (concat leaves)"
proof -
  let ?C = "lc_types io flog el A :: (fs, fs_file level_cache, 'e, 'a) merkle_types" and ?h = "node_hash A"
  obtain trees where len: "length trees = n" and opened: "\<And>j. j < n \<Longrightarrow> base_opened ?C m k rows (leaves ! j) w (trees ! j)"
    and loop: "for_each
      (\<lambda>(i, config) (trees, w).
        and_then (get_merkle_tree_len ((2 ^ m) ^ k) (2 ^ m)) (\<lambda>len.
        and_then (er_new_from_config io rc i w) (\<lambda>reader.
        and_then (map_err FailedToInstantiate (lc_new_from_disk_with_reader flog el len (2 ^ m) config reader w))
          (\<lambda>(data, w).
        and_then (from_data_store ?C (2 ^ m) 0 0 data ((2 ^ m) ^ k) w) (\<lambda>tree.
        Ok (trees @ [tree], w))))))
      (enumerate 0 configs) ([], w) = Ok (trees, w)"
    using open_bases_Ok [OF alg(1,2), of configs flog k rows rc leaves w] sectors n(1) by auto
  have u: "uniform_trees ?C ((2 ^ m) ^ k) (tree_len (2 ^ m) k) (Suc k) trees"
    unfolding uniform_trees_def
    using opened len fits tree_len_ge [of "2 ^ m" k] by (auto simp: in_set_conv_nth base_opened_def tree_layer_fits_def)
  let ?tree = "layer_over ?C (SubTree trees) ((2 ^ m) ^ k) (tree_len (2 ^ m) k) (Suc k) trees"
  have built: "from_store_configs_and_replica io flog el A (2 ^ m) n ((2 ^ m) ^ k) configs rc w = Ok (?tree, w)"
    using loop n(1,3) from_trees_Ok [OF u len n(4)] by (simp add: from_store_configs_and_replica_def)
  have "length (leaves ! j) = (2 ^ m) ^ k" if "j < n" for j
    using sectors [OF that] by (simp add: replica_sector_def)
  then have layer: "cached_layer ?C (2 ^ m) 0 rows ((2 ^ m) ^ k) trees leaves ?tree w"
    using opened len n(2,4) by (auto simp: cached_layer_def base_opened_def)
  have "map mt_root trees = map (tree_root ?h (2 ^ m) k) leaves"
    using opened len n(2) by (intro nth_equalityI) (simp_all add: base_opened_def)
  then show ?thesis
    using built cached_sub_layer [OF _ _ layer] alg(1,3) len by simp
qed

text \<open>The groups of a list.\<close>

lemma replica_sector_group:
  assumes "replica_sector C m k rows config rc (g * n + j) xs w" and "g * n + n \<le> length (rc_offsets rc)" and "j < n"
  shows "replica_sector C m k rows config \<lparr>rc_path = rc_path rc, rc_offsets = take n (drop (g * n) (rc_offsets rc))\<rparr> j xs w"
  using assms by (auto simp: replica_sector_def replica_holds_def)

lemma group_end: "g < (t :: nat) \<Longrightarrow> g * n + n \<le> t * n"
  using mult_le_mono1 [of "Suc g" t n] by simp

lemma concat_groups: "length xs = t * n \<Longrightarrow> concat (map (\<lambda>g. take n (drop (g * n) xs)) [0..<t]) = xs"
proof (induction t arbitrary: xs)
  case (Suc t)
  have "concat (map (\<lambda>g. take n (drop (g * n) (take (t * n) xs))) [0..<t]) = take (t * n) xs"
    using Suc.prems by (intro Suc.IH) simp
  moreover have "take n (drop (g * n) (take (t * n) xs)) = take n (drop (g * n) xs)" if "g < t" for g
    using group_end [OF that, of n] by (simp add: drop_take min_def)
  then have "map (\<lambda>g. take n (drop (g * n) (take (t * n) xs))) [0..<t] = map (\<lambda>g. take n (drop (g * n) xs)) [0..<t]" by simp
  ultimately have "concat (map (\<lambda>g. take n (drop (g * n) xs)) [0..<t]) = take (t * n) xs" by (simp only:)
  then show ?case using Suc.prems by simp
qed simp

text \<open>Every group of \<open>n\<close> sectors gives a tree with a sub-tree layer.\<close>

lemma groups_opened:
  fixes A :: "('a, 'e) algorithm"
  assumes alg: "algorithm_contract A" "heights_agree A (2 ^ m)" "layer_heights_agree A"
    and n: "length configs = t * n" "length leaves = t * n" "length (rc_offsets rc) = t * n" "0 < n"
    and sectors: "\<And>j. j < t * n \<Longrightarrow> replica_sector (disk_types io flog el A) m k rows (configs ! j) rc j (leaves ! j) w"
    and fits: "tree_layer_fits n (tree_len (2 ^ m) k) (Suc k)" and g: "g < t"
  shows "\<exists>tree. from_store_configs_and_replica io flog el A (2 ^ m) n ((2 ^ m) ^ k) (group_of n g configs) (replica_group n g rc) w
      = Ok (tree, w) \<and>
    mt_leafs tree = n * (2 ^ m) ^ k \<and> mt_len (lc_types io flog el A) tree = n * tree_len (2 ^ m) k + 1 \<and>
    mt_row_count tree = Suc (Suc k) \<and>
    mt_root tree = node_hash A 1 (map (tree_root (node_hash A) (2 ^ m) k) (group_of n g leaves)) \<and>
    cached_proves (lc_types io flog el A) (2 ^ m) n 0 rows tree w (concat (group_of n g leaves))"
proof (rule sub_tree_opened [OF alg _ _ _ n(4) _ fits])
  note e = group_end [OF g, of n]
  show "length (group_of n g configs) = n" "length (group_of n g leaves) = n" "length (rc_offsets (replica_group n g rc)) = n"
    using e n(1-3) by (simp_all add: group_of_def replica_group_def)
  fix j
  assume j: "j < n"
  then have lt: "g * n + j < t * n" and le: "g * n \<le> t * n" using e by linarith+
  show "replica_sector (disk_types io flog el A) m k rows (group_of n g configs ! j) (replica_group n g rc) j (group_of n g leaves ! j) w"
    using replica_sector_group [OF sectors [OF lt]] e le n(1-3) j by (simp add: group_of_def replica_group_def)
qed

text \<open>The loop over the groups.\<close>

lemma groups_loop:
  assumes "length configs = t * n" and "length (rc_offsets rc) = t * n" and word: "t * n + n < usize_limit"
    and tr: "\<forall>g < t. from_store_configs_and_replica io flog el A b n leafs (group_of n g configs) (replica_group n g rc) w = Ok (tr g, w)"
  shows "for_each (open_group io flog el A b n leafs configs rc) [0..<t] ([], 0, n, w) =
    Ok (map tr [0..<t], t * n, t * n + n, w)"
proof -
  let ?body = "open_group io flog el A b n leafs configs rc"
  have step: "?body ([0..<t] ! g) (map tr [0..<g], g * n, g * n + n, w) = Ok (map tr [0..<Suc g], Suc g * n, Suc g * n + n, w)"
    if g: "g < t" for g
  proof -
    note e = group_end [OF g, of n]
    have "g * n + n + n < usize_limit" using e word by linarith
    then show ?thesis
      using e assms(1,2) tr [rule_format, OF g] by (simp add: open_group_def slice_of_def Let_def add.commute group_of_def replica_group_def)
  qed
  have "for_each ?body [0..<t] (map tr [0..<0], 0 * n, 0 * n + n, w) =
      Ok (map tr [0..<length [0..<t]], length [0..<t] * n, length [0..<t] * n + n, w)"
    using step by (intro for_each_sequence [of "[0..<t]" _ "\<lambda>g. (map tr [0..<g], g * n, g * n + n, w)"]) simp
  then show ?thesis by simp
qed

lemma concat_map_concat: "concat (map (\<lambda>x. concat (f x)) xs) = concat (concat (map f xs))"
  by (induction xs) simp_all

lemma top_tree_opened:
  fixes A :: "('a, 'e) algorithm"
  assumes alg: "algorithm_contract A" "heights_agree A (2 ^ m)" "layer_heights_agree A"
    and n: "length configs = t * n" "length leaves = t * n" "length (rc_offsets rc) = t * n" "0 < n" "0 < t"
    and sectors: "\<And>j. j < t * n \<Longrightarrow> replica_sector (disk_types io flog el A) m k rows (configs ! j) rc j (leaves ! j) w"
    and fits: "tree_layer_fits t (n * tree_len (2 ^ m) k + 1) (Suc (Suc k))"
  shows "\<exists>tree. from_sub_tree_store_configs_and_replica io flog el A (2 ^ m) n t ((2 ^ m) ^ k) configs rc w = Ok (tree, w) \<and>
    mt_root tree = node_hash A 1 (map (\<lambda>g. node_hash A 1 (map (tree_root (node_hash A) (2 ^ m) k) (group_of n g leaves))) [0..<t]) \<and>
    cached_proves (lc_types io flog el A) (2 ^ m) n t rows tree w (concat leaves)"
proof -
  let ?C = "lc_types io flog el A :: (fs, fs_file level_cache, 'e, 'a) merkle_types" and ?h = "node_hash A"
  let ?len = "tree_len (2 ^ m) k" and ?grp = "group_of n"
  have word: "t * (n * ?len + 1) + 1 < usize_limit" "Suc (Suc k) + 1 < usize_limit" using fits by (simp_all add: tree_layer_fits_def)
  have "0 < t * n" using n(4,5) by simp
  from sectors [OF this] have "tree_fits (disk_types io flog el A) m k"
    by (simp add: replica_sector_def cached_fits_def)
  then have len2: "2 \<le> ?len" using tree_fits_facts(1) [of "disk_types io flog el A" m k] tree_len_ge [of "2 ^ m" k] by linarith
  have "n * 2 \<le> n * ?len" using len2 by (rule mult_le_mono2)
  then have "n * 2 \<le> n * ?len + 1" by linarith
  then have tn: "t * (n * 2) \<le> t * (n * ?len + 1)" by (rule mult_le_mono2)
  have nt: "n \<le> t * n" using n(5) by simp
  have sub_fits: "tree_layer_fits n ?len (Suc k)"
  proof -
    have "1 * (n * ?len + 1) \<le> t * (n * ?len + 1)" using n(5) by (intro mult_le_mono1) simp
    then show ?thesis using word by (simp add: tree_layer_fits_def)
  qed
  let ?Q = "\<lambda>g tree. from_store_configs_and_replica io flog el A (2 ^ m) n ((2 ^ m) ^ k) (?grp g configs) (replica_group n g rc) w = Ok (tree, w) \<and>
    mt_leafs tree = n * (2 ^ m) ^ k \<and> mt_len ?C tree = n * ?len + 1 \<and> mt_row_count tree = Suc (Suc k) \<and>
    mt_root tree = node_hash A 1 (map (tree_root ?h (2 ^ m) k) (?grp g leaves)) \<and>
    cached_proves ?C (2 ^ m) n 0 rows tree w (concat (?grp g leaves))"
  have sub: "\<exists>tree. ?Q g tree" if g: "g < t" for g
    by (rule groups_opened [OF alg n(1-4) sectors sub_fits g])
  from bounded_choice [of t ?Q, OF sub] obtain tr where tr: "\<forall>g < t. ?Q g (tr g)" by (rule exE)
  have "t * n + n < usize_limit" using nt tn word(1) by linarith
  moreover have "\<forall>g < t. from_store_configs_and_replica io flog el A (2 ^ m) n ((2 ^ m) ^ k) (group_of n g configs)
      (replica_group n g rc) w = Ok (tr g, w)"
    using tr by blast
  ultimately have loop: "for_each (open_group io flog el A (2 ^ m) n ((2 ^ m) ^ k) configs rc) [0..<t] ([], 0, n, w) =
      Ok (map tr [0..<t], t * n, t * n + n, w)"
    by (rule groups_loop [OF n(1,3)])
  have le: "n * (2 ^ m) ^ k \<le> n * ?len + 1" using tree_len_ge [of "2 ^ m" k] mult_le_mono2 [of "(2 ^ m) ^ k" ?len n] by linarith
  have u: "uniform_trees ?C (n * (2 ^ m) ^ k) (n * ?len + 1) (Suc (Suc k)) (map tr [0..<t])"
    unfolding uniform_trees_def using tr word le by auto
  let ?tree = "layer_over ?C (TopTree (map tr [0..<t])) (n * (2 ^ m) ^ k) (n * ?len + 1) (Suc (Suc k)) (map tr [0..<t])"
  have built: "from_sub_tree_store_configs_and_replica io flog el A (2 ^ m) n t ((2 ^ m) ^ k) configs rc w = Ok (?tree, w)"
    using loop n(1,3,5) from_sub_trees_Ok [OF u _ n(5)] by (simp add: from_sub_tree_store_configs_and_replica_def Let_def open_group_def)
  have glen: "length (concat (?grp g leaves)) = n * (2 ^ m) ^ k" if g: "g < t" for g
    using tr [rule_format, OF g] by (simp add: cached_proves_def mt_leafs_def)
  have layer: "cached_layer ?C (2 ^ m) n rows (n * (2 ^ m) ^ k) (map tr [0..<t]) (map (\<lambda>g. concat (?grp g leaves)) [0..<t]) ?tree w"
    using tr glen n(4,5) by (simp add: cached_layer_def)
  have flat: "concat (map (\<lambda>g. concat (?grp g leaves)) [0..<t]) = concat leaves"
    using concat_groups [OF n(2)] by (simp add: concat_map_concat group_of_def)
  have roots: "map (mt_root \<circ> tr) [0..<t] = map (\<lambda>g. node_hash A 1 (map (tree_root ?h (2 ^ m) k) (?grp g leaves))) [0..<t]"
    using tr by simp
  have "mt_root ?tree = node_hash A 1 (map (mt_root \<circ> tr) [0..<t])" by simp
  also note roots
  finally have "mt_root ?tree = node_hash A 1 (map (\<lambda>g. node_hash A 1 (map (tree_root ?h (2 ^ m) k) (?grp g leaves))) [0..<t])" .
  moreover have "cached_proves ?C (2 ^ m) n t rows ?tree w (concat leaves)"
    using cached_top_layer [OF _ _ n(4) layer] alg(1,3) flat by simp
  ultimately show ?thesis using built by blast
qed

text \<open>A tree that was built in a \<open>DiskStore\<close> and compacted is such a sector.\<close>

lemma compacted_sector:
  fixes A :: "('a, 'e) algorithm"
  assumes fits: "cached_fits (disk_types io flog el A) m k (sc_rows_to_discard config)"
    and rows: "discarded_rows (disk_types io flog el A) (2 ^ m) k rows = Ok (sc_rows_to_discard config)"
    and fresh: "ds_fresh config w" and alg: "algorithm_contract A" and xs: "length xs = (2 ^ m) ^ k"
    and build: "from_byte_slice_with_config (disk_types io flog el A) (2 ^ m) (encode xs) config w = Ok (tree, w1)"
    and compact: "mt_compact (disk_types io flog el A) (2 ^ m) config 2 tree w1 = Ok (True, tree', w2)"
    and same: "same_file (data_path (sc_path config) (sc_id config)) w2 w3"
    and replica: "replica_holds rc j (encode xs) w3"
  shows "replica_sector (disk_types io flog el A) m k rows config rc j xs w3"
  using compacted_file [OF fits fresh alg xs build compact same] fits rows xs replica
  by (auto simp: replica_sector_def)

end


section \<open>Compound trees over replicas\<close>

text \<open>
  C13: compound trees over compacted files. Given \<open>t * n\<close> files with the cached rows of trees of
  one shape and a replica with their leaves (as building, compacting and sealing leave them),
  \<open>from_store_configs_and_replica\<close> opens every group of \<open>n\<close> as a tree with a sub-tree layer, and
  \<open>from_sub_tree_store_configs_and_replica\<close> opens all as a tree with a top layer over these; its
  root is the hash of the hashes of the roots. For every leaf the cached proof through all layers
  validates, is about that leaf and ends in the root.
\<close>

theorem replica_trees_prove_their_leaves:
  assumes "file_io_contract io" and "element_contract el" and "algorithm_contract A"
    and "heights_agree A (2 ^ m)" and "layer_heights_agree A"
    and "length configs = t * n" and "length leaves = t * n" and "length (rc_offsets rc) = t * n" and "0 < n" and "0 < t"
    and "\<And>j. j < t * n \<Longrightarrow> replica_sector (disk_types io flog el A) m k rows (configs ! j) rc j (leaves ! j) w"
    and "tree_layer_fits n (tree_len (2 ^ m) k) (Suc k)"
    and "tree_layer_fits t (n * tree_len (2 ^ m) k + 1) (Suc (Suc k))"
  shows "(\<forall>g < t. \<exists>tree. from_store_configs_and_replica io flog el A (2 ^ m) n ((2 ^ m) ^ k)
        (group_of n g configs) (replica_group n g rc) w = Ok (tree, w) \<and>
      mt_root tree = node_hash A 1 (map (tree_root (node_hash A) (2 ^ m) k) (group_of n g leaves)) \<and>
      cached_proves (lc_types io flog el A) (2 ^ m) n 0 rows tree w (concat (group_of n g leaves))) \<and>
    (\<exists>tree. from_sub_tree_store_configs_and_replica io flog el A (2 ^ m) n t ((2 ^ m) ^ k) configs rc w = Ok (tree, w) \<and>
      mt_root tree = node_hash A 1
        (map (\<lambda>g. node_hash A 1 (map (tree_root (node_hash A) (2 ^ m) k) (group_of n g leaves))) [0..<t]) \<and>
      cached_proves (lc_types io flog el A) (2 ^ m) n t rows tree w (concat leaves))"
  using mapped_layer.groups_opened [OF mapped_layer.intro [OF assms(1,2)] assms(3-9,11,12)]
    mapped_layer.top_tree_opened [OF mapped_layer.intro [OF assms(1,2)] assms(3-11,13)]
  by blast

theorem replica_trees_prove_their_leaves_witness:
  "\<exists>w tree p. from_sub_tree_store_configs_and_replica model_io exact_flog item_element xor128_algorithm 2 2 2 8
      (replicate 4 test_config) (replica_config_new ''replica'' [3, 3, 3, 3]) w = Ok (tree, w) \<and>
    gen_cached_proof (lc_types model_io exact_flog item_element xor128_algorithm) 2 2 2 tree 21 (Some 1) w = Ok p \<and>
    validate xor128_algorithm 2 p = Ok True \<and> leaf_item p = Ok (disk_test_leaves ! 5)"
proof -
  have layer: "layer_heights_agree xor128_algorithm"
    by (rule layer_heights_agree_height_free) (rule xor128_alg.height_free_algorithm_axioms)
  let ?rc = "replica_config_new ''replica'' [3, 3, 3, 3]"
  obtain tree w1 tree' w2 where t:
    "from_byte_slice_with_config disk_test_types (2 ^ 1) (concat (map (el_as_ref item_element) disk_test_leaves)) test_config empty_fs
      = Ok (tree, w1)"
    "mt_compact disk_test_types (2 ^ 1) test_config 2 tree w1 = Ok (True, tree', w2)"
    "\<exists>f. fs_names w2 (data_path (sc_path test_config) (sc_id test_config)) = Some f"
    by (rule disk_test_compacted [of 2])
  obtain w where w: "same_file (data_path (sc_path test_config) (sc_id test_config)) w2 w"
    "replica_holds test_replica 0 (concat (map (el_as_ref item_element) disk_test_leaves)) w"
    using disk_test_later [OF t(3)] by blast
  have rc: "replica_holds ?rc j (concat (map (el_as_ref item_element) disk_test_leaves)) w" if "j < 4" for j
  proof -
    have "[3, 3, 3, 3 :: nat] ! j = 3" using that by (auto simp: numeral_eq_Suc less_Suc_eq)
    then show ?thesis using w(2) that by (simp add: replica_holds_def replica_config_new_def)
  qed
  have sector: "replica_sector disk_test_types 1 3 (Some 1) (replicate 4 test_config ! j) ?rc j (replicate 4 disk_test_leaves ! j) w"
    if "j < 2 * 2" for j
    using mapped_layer.compacted_sector [OF mapped_layer.intro [OF disk_test_contracts(1,2)] disk_test_fits(1) disk_test_rows
        disk_test_fits(4) disk_test_contracts(3) disk_test_fits(5) t(1,2) w(1) rc [of j]] that
    by (simp only: nth_replicate mult_2 numeral_Bit0 [symmetric])
  have len: "tree_len (2 ^ 1) 3 = 15" by (simp add: tree_len_sum numeral_3_eq_3)
  have fits: "tree_layer_fits 2 (tree_len (2 ^ 1) 3) (Suc 3)" "tree_layer_fits 2 (2 * tree_len (2 ^ 1) 3 + 1) (Suc (Suc 3))"
    unfolding len by (simp_all add: tree_layer_fits_def)
  have lens: "length (replicate 4 test_config) = 2 * 2" "length (replicate 4 disk_test_leaves) = 2 * 2"
    "length (rc_offsets ?rc) = 2 * 2" "0 < (2 :: nat)"
    by (simp_all add: replica_config_new_def)
  obtain top where top: "from_sub_tree_store_configs_and_replica model_io exact_flog item_element xor128_algorithm (2 ^ 1) 2 2
      ((2 ^ 1) ^ 3) (replicate 4 test_config) ?rc w = Ok (top, w)"
    "cached_proves (lc_types model_io exact_flog item_element xor128_algorithm) (2 ^ 1) 2 2 (Some 1) top w
      (concat (replicate 4 disk_test_leaves))"
    using replica_trees_prove_their_leaves [OF disk_test_contracts xor128_heights layer lens lens(4) sector fits]
    by blast
  have "21 < length (concat (replicate 4 disk_test_leaves))"
    using disk_test_fits(5) by (simp add: length_concat sum_list_replicate)
  moreover have "concat (replicate 4 disk_test_leaves) ! 21 = disk_test_leaves ! 5"
    using nth_concat_equal(1) [of "replicate 4 disk_test_leaves" 8 21] disk_test_fits(5) by simp
  ultimately show ?thesis using top unfolding cached_proves_def by fastforce
qed

end
