(* ===== verification/Spec2Isabelle.thy ===== *)
theory Spec2Isabelle
  imports Arith Hash_Impl Test_Common Store_Config Vec_Store Compound_Trees Binding Test_Tree Level_Cache_Tree Existing_Files Parallel_Mapped Store_Iter Replica_Trees
begin

text \<open>
  Verification of the crate \<open>merkletree\<close> (\<open>src/src\<close>): Merkle trees of arity \<open>2 ^ m\<close> over a
  store, their inclusion proofs, compound trees of two and three layers, and stores in memory, in
  files, in mapped files and in files that keep only part of the rows.

  \<^bold>\<open>The program.\<close> A tree (\<open>merkle.rs\<close>) keeps the leaf hashes and the rows above them, one row
  behind the other, in a \<open>Store\<close> (\<open>store/mod.rs\<close>). A constructor writes the leaves
  (\<open>populate_data\<close>, \<open>populate_data_par\<close> or the bytes given), then \<open>Store::build\<close> adds row after
  row with \<open>process_layer\<close> and returns the root. \<open>gen_proof\<close> reads the siblings of a leaf from the
  store, \<open>Proof::validate\<close> (\<open>proof.rs\<close>) hashes upwards and compares with the root. A compound
  tree holds trees of one shape; its proof is a layer of roots around a proof of one of them.
  \<open>DiskStore::compact\<close> drops the lower rows of a tree; \<open>gen_cached_proof\<close> rebuilds the dropped
  rows it needs in memory, and \<open>LevelCacheStore\<close> reads such a file, with the leaves in it or in a
  replica behind an \<open>ExternalReader\<close>.

  \<^bold>\<open>Conventions.\<close> A \<open>Result\<close> is an \<open>outcome\<close> (theory \<open>Prelude\<close>): a value, an error, a panic, or
  \<open>Diverge\<close> for a loop that does not end (\<open>while_loop\<close>). A \<open>usize\<close> is a \<open>nat\<close> below \<open>2 ^ 64\<close>; every
  operation that may overflow is one of \<open>usize_add\<close>, \<open>usize_sub\<close>, \<dots>, which panic as a debug
  build does, and the bytes and hashed integers are words. Traits are records of their methods
  (\<open>element\<close>, \<open>hashable\<close>, \<open>algorithm\<close>, \<open>store_ops\<close>, \<open>store\<close>), the types a tree is built over are
  the record \<open>merkle_types\<close>, and a type-level arity is an argument. A method that takes
  \<open>&mut self\<close> returns the new state and the new world; the world of the stores in files is the
  file system of theory \<open>File_System\<close>.

  \<^bold>\<open>The theories\<close>, with the code they model:

  \<^item> \<open>Prelude\<close>: outcomes, checked arithmetic, loops, indexing, chunks and writes to a region.
  \<^item> \<open>Element\<close> (\<open>merkle.rs\<close>), \<open>Hash\<close> (\<open>hash.rs\<close>), \<open>Hash_Impl\<close> (\<open>hash_impl.rs\<close>): elements, hashers,
    algorithms and the hashable types, with the contracts \<open>element_contract\<close>, \<open>stream_hasher\<close>,
    \<open>algorithm_contract\<close> and \<open>height_free_algorithm\<close>. \<open>Test_Common\<close> and \<open>Test_Tree\<close>
    (\<open>test_common.rs\<close>): the algorithm \<open>XOR128\<close>, on which the witnesses run.
  \<^item> \<open>Arith\<close>: \<open>get_merkle_tree_len\<close>, \<open>get_merkle_tree_leafs\<close>, \<open>get_merkle_tree_cache_size\<close>,
    \<open>is_merkle_tree_size_valid\<close>, row counts and logarithms. Their loops are computed in closed
    form for complete trees, and shown to diverge where they do.
  \<^item> \<open>Layers\<close>: the specification. \<open>next_row\<close> hashes a row in groups, \<open>tree_nodes\<close> is all rows,
    \<open>merkle_hash\<close> the recursive Merkle hash, which is the last of them.
  \<^item> \<open>Store_Config\<close>, \<open>Store\<close> (\<open>store/mod.rs\<close>): configurations, the trait and its default build.
    \<open>Store_Contract\<close>: the locales \<open>store_contract\<close>, what the basic methods of a store do to the
    list of its elements, and \<open>tree_store\<close>, which adds that \<open>build\<close> leaves the rows. The default
    bodies are verified once, in the first locale.
  \<^item> \<open>Parallel\<close>, \<open>Parallel_Mapped\<close>: the threads of \<open>process_layer\<close>, of the \<open>process_layer\<close> of
    \<open>DiskStore\<close> and of \<open>populate_data_par\<close> as step relations; in every order they finish with the
    result of the sequential loops, which the other theories use.
  \<^item> \<open>Store_Iter\<close>: the macro \<open>impl_parallel_iter!\<close>, producers and double-ended iterators.
  \<^item> \<open>Vec_Store\<close> (\<open>vec.rs\<close>), \<open>Disk_Store\<close> and \<open>Disk_Store_Correct\<close> (\<open>disk.rs\<close>), \<open>Mmap_Store\<close>,
    \<open>Mmap_Store_Correct\<close> and \<open>Mmap_Life\<close> (\<open>mmap.rs\<close>), \<open>Level_Cache\<close>, \<open>Level_Cache_Correct\<close>,
    \<open>Level_Cache_Build\<close> (\<open>level_cache.rs\<close>): the stores. The first three interpret \<open>tree_store\<close>;
    a \<open>LevelCacheStore\<close> does not keep the contract (its length is not what it holds) and has its
    own invariants. \<open>Mapped_Layer\<close> is the \<open>process_layer\<close> that \<open>disk.rs\<close> and \<open>level_cache.rs\<close>
    share, \<open>External_Reader\<close> the reader of \<open>store/mod.rs\<close>, \<open>Replica\<close> the constructors over replicas.
  \<^item> \<open>Merkle\<close>, \<open>Build\<close>, \<open>Gen_Proof\<close>, \<open>Compound\<close>, \<open>Cached_Proof\<close> (\<open>merkle.rs\<close>) and
    \<open>Inclusion_Proof\<close> (\<open>proof.rs\<close>): the tree type and accessors, the constructors, proofs, compound
    trees and cached proofs; their correctness is in the theories named \<open>\<dots>_Correct\<close>, in \<open>Binding\<close>
    (what a valid proof binds its root to) and in \<open>Compound_Trees\<close>.
  \<^item> \<open>Compaction\<close>, \<open>Cached_Trees\<close>, \<open>Level_Cache_Tree\<close>, \<open>Existing_Files\<close>, \<open>Replica_Trees\<close>: trees
    through their life, built, compacted, opened again, with a reader, over files that exist already,
    and as the base of compound trees with their leaves in one replica.

  This theory holds the properties of the constructors, of proofs and of compound trees, over
  \<^bold>\<open>every\<close> store and algorithm that keep the contracts; the properties of one component
  stand in its theory.

  \<^bold>\<open>Hypotheses.\<close> The locale \<open>merkle_build\<close> joins a \<open>tree_store\<close>, an \<open>element_contract\<close> and an
  \<open>algorithm_contract\<close> (\<open>reset\<close> gives a fresh hasher). \<open>tree_fits\<close> bounds a tree: \<open>k\<close> rows of arity
  \<open>2 ^ m\<close> with \<open>0 < m \<le> 12\<close> (larger arities do not divide \<open>BUILD_CHUNK_NODES\<close>), the leaves below
  \<open>2 ^ 63\<close>, and all elements in less than \<open>2 ^ 63\<close> bytes. It asks the floating-point logarithm of
  \<open>get_merkle_tree_row_count\<close>, a parameter \<open>mt_flog\<close>, to be exact (\<open>rows_exact\<close>; for arity 2 the
  code does not use it); \<open>wrong_logarithm_fails\<close> shows that a wrong one makes the build fail.
  \<open>heights_agree\<close> and \<open>layer_heights_agree\<close> say that the algorithm hashes a node the same at the height \<open>build\<close> uses
  and at the one \<open>validate\<close> uses: they differ for arities above 2 and between layers, which only an
  algorithm that looks at the height can see. \<open>file_io_contract\<close> states what \<open>positioned_io\<close>,
  \<open>memmap\<close> and \<open>tempfile\<close> document; \<open>model_io\<close> keeps it. \<open>stream_hasher\<close>, which the standard
  library does not ask of a \<open>Hasher\<close>, is a hypothesis of lemmas of \<open>Hash_Impl\<close> only, and \<open>XOR128\<close>
  keeps it. The hash functions are
  arguments everywhere: the safety properties compute a collision of the node hash instead of
  assuming that there is none.

  \<^bold>\<open>Fuel.\<close> There is none. Loops over a counter that may not end are \<open>while_loop\<close>, which is \<open>Diverge\<close>
  exactly when the loop does not end, and the properties state the outcome \<open>Ok\<close>, so termination is
  part of them; recursion over trees and proofs is structural or has a measure.

  \<^bold>\<open>Not modelled.\<close> \<open>Debug\<close> and \<open>Display\<close> (formatting), \<open>lib.rs\<close> (module declarations and
  documentation), the tests and benchmarks, serialisation derived by \<open>serde\<close>, and the trait bounds
  \<open>Send\<close>, \<open>Sync\<close> and \<open>Clone\<close>. Of the thread pool \<open>rayon\<close> only the order in which pieces run and
  split is a matter of the program, and it is arbitrary in \<open>Parallel\<close>, \<open>Parallel_Mapped\<close> and
  \<open>Store_Iter\<close>; the hashing inside one piece has no effects and runs in order. The state a failed
  method leaves behind is not kept, as every caller returns the error; allocation and disk space do
  not run out; pointers are their addresses (\<open>hash_ptr\<close>).
\<close>

section \<open>Building\<close>

text \<open>
  C1: for every store that keeps the contract and every algorithm whose \<open>reset\<close> gives a fresh
  hasher, \<open>try_from_iter\<close> over \<open>b ^ k\<close> items returns a tree: the store holds the leaf
  hashes and the rows above them in the linear layout, the fields are the number of leaves, the
  length and the number of rows, and the root is the recursive Merkle hash of the leaf hashes.
\<close>

theorem try_from_iter_builds_the_tree:
  assumes "merkle_build C valid elems capacity world fresh" and "tree_fits C m k" and "world w"
    and "length xs = (2 ^ m) ^ k"
  shows "\<exists>tree w'. try_from_iter C (2 ^ m) (Some ((2 ^ m) ^ k)) (map Ok xs) w = Ok (tree, w')
    \<and> built_tree C valid elems (2 ^ m) k (map (leaf_hash (mt_A C)) xs) tree w'
    \<and> mt_root tree = merkle_hash (node_hash (mt_A C)) (2 ^ m) k (map (leaf_hash (mt_A C)) xs)"
  using merkle_build.try_from_iter_built [OF assms] assms(4)
    tree_root_merkle_hash [of "2 ^ m" "map (leaf_hash (mt_A C)) xs" k "node_hash (mt_A C)"]
  by (auto simp: built_tree_def mt_root_def)

theorem try_from_iter_builds_the_tree_witness:
  "\<exists>tree w'. try_from_iter test_types 2 (Some 4) (map Ok (replicate 4 item_zero)) () = Ok (tree, w')
    \<and> mt_root tree = merkle_hash (node_hash xor128_algorithm) 2 2 (map (leaf_hash xor128_algorithm) (replicate 4 item_zero))"
  using try_from_iter_builds_the_tree
    [where w = "()" and xs = "replicate 4 item_zero", OF test_build test_fits(1)] by auto

text \<open>
  C25: the parallel constructor and the two constructors with a configuration (when no stored
  data exists under its name) build the same nodes.
\<close>

theorem other_constructors_build_the_tree:
  assumes "merkle_build C valid elems capacity world fresh" and "tree_fits C m k" and "world w"
    and "fresh config w" and "length xs = (2 ^ m) ^ k"
  shows "(\<exists>tree w'. from_par_iter C (2 ^ m) xs w = Ok (tree, w')
      \<and> built_tree C valid elems (2 ^ m) k (map (leaf_hash (mt_A C)) xs) tree w')
    \<and> (\<exists>tree w'. try_from_iter_with_config C (2 ^ m) (Some ((2 ^ m) ^ k)) (map Ok xs) config w = Ok (tree, w')
      \<and> built_tree C valid elems (2 ^ m) k (map (leaf_hash (mt_A C)) xs) tree w')
    \<and> (\<exists>tree w'. from_par_iter_with_config C (2 ^ m) xs config w = Ok (tree, w')
      \<and> built_tree C valid elems (2 ^ m) k (map (leaf_hash (mt_A C)) xs) tree w')"
  using merkle_build.from_par_iter_built [OF assms(1-3,5)]
    merkle_build.try_from_iter_with_config_built [OF assms]
    merkle_build.from_par_iter_with_config_built [OF assms] by blast

theorem other_constructors_build_the_tree_witness:
  "\<exists>tree w'. from_par_iter test_types 2 (replicate 4 item_zero) () = Ok (tree, w')
    \<and> built_tree test_types item_vec_inv item_vec_elems 2 2 (map (leaf_hash xor128_algorithm) (replicate 4 item_zero)) tree w'"
  using other_constructors_build_the_tree
    [where w = "()" and config = undefined and xs = "replicate 4 item_zero", OF test_build test_fits(1)] by simp

text \<open>
  C26: the byte slice constructors put the leaves into the tree as they are: no leaf hash is
  applied, unlike in the constructors over iterators.
\<close>

theorem byte_slice_leaves_are_not_hashed:
  assumes "merkle_build C valid elems capacity world fresh" and "tree_fits C m k" and "world w"
    and "fresh config w" and "length xs = (2 ^ m) ^ k"
  defines "bytes \<equiv> concat (map (el_as_ref (mt_E C)) xs)"
  shows "(\<exists>tree w'. from_byte_slice C (2 ^ m) bytes w = Ok (tree, w')
      \<and> built_tree C valid elems (2 ^ m) k xs tree w')
    \<and> (\<exists>tree w'. from_byte_slice_with_config C (2 ^ m) bytes config w = Ok (tree, w')
      \<and> built_tree C valid elems (2 ^ m) k xs tree w')"
  using merkle_build.from_byte_slice_built [OF assms(1-3,5)]
    merkle_build.from_byte_slice_with_config_built [OF assms(1-5)] unfolding bytes_def by blast

theorem byte_slice_leaves_are_not_hashed_witness:
  "\<exists>tree w'. from_byte_slice test_types 2 (concat (map Rep_item (replicate 4 item_zero))) () = Ok (tree, w')
      \<and> built_tree test_types item_vec_inv item_vec_elems 2 2 (replicate 4 item_zero) tree w'"
  using byte_slice_leaves_are_not_hashed
    [where w = "()" and config = undefined and xs = "replicate 4 item_zero", OF test_build test_fits(1)] by (simp add: item_element_def)

text \<open>
  C27: reading back: for the store of a built tree \<open>from_data_store\<close> returns the very tree.
\<close>

theorem from_data_store_returns_the_tree:
  assumes "merkle_build C valid elems capacity world fresh" and "tree_fits C m k"
    and "built_tree C valid elems (2 ^ m) k xs tree w" and "length xs = (2 ^ m) ^ k"
    and "tree_data tree = BaseTree s"
  shows "from_data_store C (2 ^ m) 0 0 s ((2 ^ m) ^ k) w = Ok tree"
  using assms by (rule merkle_build.from_data_store_built)

theorem from_data_store_returns_the_tree_witness:
  "\<exists>tree s. try_from_iter test_types 2 (Some 4) (map Ok (replicate 4 item_zero)) () = Ok (tree, ())
    \<and> tree_data tree = BaseTree s \<and> from_data_store test_types 2 0 0 s 4 () = Ok tree"
proof -
  obtain tree where t: "try_from_iter test_types 2 (Some 4) (map Ok (replicate 4 item_zero)) () = Ok (tree, ())"
    "built_tree test_types item_vec_inv item_vec_elems (2 ^ 1) 2 (map (leaf_hash xor128_algorithm) (replicate 4 item_zero)) tree ()"
    using xor128_tree.try_from_iter_built
    [where w = "()" and xs = "replicate 4 item_zero", OF test_fits(1)] by auto
  moreover from t(2) obtain s where s: "tree_data tree = BaseTree s" by (auto simp: built_tree_def)
  ultimately have "from_data_store test_types (2 ^ 1) 0 0 s ((2 ^ 1) ^ 2) () = Ok tree"
    using from_data_store_returns_the_tree [OF test_build test_fits(1)] by simp
  with t s show ?thesis by auto
qed


section \<open>Building fails\<close>

text \<open>
  C28: an error of the iterator, wherever it comes, is what \<open>try_from_iter\<close> returns (with the
  context \<open>failed to populate data\<close>); \<open>try_from_iter_with_config\<close> panics on it instead,
  although both are documented to return it.
\<close>

theorem iterator_errors:
  assumes "merkle_build C valid elems capacity world fresh" and "tree_fits C m k" and "world w"
    and "fresh config w" and "length xs \<le> tree_len (2 ^ m) k"
  shows "try_from_iter C (2 ^ m) (Some ((2 ^ m) ^ k)) (map Ok xs @ Err e # rest) w = Err (FailedToPopulate e)
    \<and> try_from_iter_with_config C (2 ^ m) (Some ((2 ^ m) ^ k)) (map Ok xs @ Err e # rest) config w
        = Panic ExpectFailed"
  using merkle_build.try_from_iter_item_error [OF assms(1-3,5)]
    merkle_build.try_from_iter_with_config_item_error [OF assms] by blast

theorem iterator_errors_witness:
  "try_from_iter test_types 2 (Some 4) [Ok item_zero, Err (ItemError 7), Ok item_zero, Ok item_zero] ()
      = Err (FailedToPopulate (ItemError 7))
    \<and> try_from_iter_with_config test_types 2 (Some 4) [Ok item_zero, Err (ItemError 7)]
        (store_config_new [] [] 0) () = Panic ExpectFailed"
  using iterator_errors
    [where w = "()" and config = "store_config_new [] [] 0" and xs = "[item_zero]" and e = "ItemError 7",
      OF test_build test_fits(1)]
  by simp

text \<open>
  The number of leaves is taken from the size hint of the iterator; when the iterator yields
  another number of items, the build notices and fails.
\<close>

theorem wrong_size_hint:
  assumes "merkle_build C valid elems capacity world fresh" and "tree_fits C m k" and "world w"
    and "length xs \<noteq> (2 ^ m) ^ k" and "length xs \<le> tree_len (2 ^ m) k"
  shows "try_from_iter C (2 ^ m) (Some ((2 ^ m) ^ k)) (map Ok xs) w = Err InconsistentData"
  using assms by (rule merkle_build.try_from_iter_wrong_hint)

theorem wrong_size_hint_witness:
  "try_from_iter test_types 2 (Some 4) (map Ok (replicate 3 item_zero)) () = Err InconsistentData"
  using wrong_size_hint
    [where w = "()" and xs = "replicate 3 item_zero", OF test_build test_fits(1)] by simp

text \<open>
  The row count comes from a floating-point logarithm for arities other than 2. When it is
  wrong the build fails; it never returns a tree with a wrong row count.
\<close>

theorem wrong_logarithm_fails:
  assumes "merkle_build C valid elems capacity world fresh"
    and "tree_shape m k" and "m \<le> 12" and "tree_len (2 ^ m) k * el_byte_len (mt_E C) < isize_limit"
    and "m \<noteq> 1" and "mt_flog C (2 ^ m) ((2 ^ m) ^ k) \<noteq> Suc k" and "world w" and "length xs = (2 ^ m) ^ k"
  shows "try_from_iter C (2 ^ m) (Some ((2 ^ m) ^ k)) (map Ok xs) w = Err InvalidRowCount"
  using assms by (rule merkle_build.try_from_iter_wrong_rows)

theorem wrong_logarithm_fails_witness:
  "try_from_iter (test_types\<lparr>mt_flog := \<lambda>b l. 2\<rparr>) 4 (Some 16) (map Ok (replicate 16 item_zero)) () = Err InvalidRowCount"
proof -
  let ?C = "test_types\<lparr>mt_flog := \<lambda>b l. 2\<rparr>"
  have "merkle_build ?C item_vec_inv item_vec_elems (\<lambda>s w. vec_capacity item_element) (\<lambda>w. True) (\<lambda>config w. True)"
    using test_build by (simp add: merkle_build_def)
  from wrong_logarithm_fails
    [where m = 2 and k = 2 and w = "()" and xs = "replicate 16 item_zero", OF this] show ?thesis
    using test_fits(2) by (simp add: tree_fits_def)
qed

text \<open>
  C29: \<open>from_tree_slice\<close> and \<open>from_tree_slice_with_config\<close> never return a tree for a slice
  that holds one, whatever the store, when elements are longer than a byte: they read the root
  at the index \<open>data.len() - 1\<close>, which counts bytes and not elements.
\<close>

theorem tree_slices_are_refused:
  assumes "merkle_build C valid elems capacity world fresh" and "tree_fits C m k" and "world w"
    and "fresh config w" and "length es = tree_len (2 ^ m) k" and "2 \<le> el_byte_len (mt_E C)"
  defines "bytes \<equiv> concat (map (el_as_ref (mt_E C)) es)"
  shows "\<not> is_ok (from_tree_slice C (2 ^ m) 0 0 bytes ((2 ^ m) ^ k) w)
    \<and> \<not> is_ok (from_tree_slice_with_config C (2 ^ m) 0 0 bytes ((2 ^ m) ^ k) config w)"
  using merkle_build.tree_slice_refused [OF assms(1-6)] unfolding bytes_def .

theorem tree_slices_are_refused_witness:
  "\<not> is_ok (from_tree_slice test_types 2 0 0 (concat (map Rep_item (replicate 7 item_zero))) 4 ())"
  using tree_slices_are_refused
    [where w = "()" and config = undefined and es = "replicate 7 item_zero", OF test_build test_fits(1)]
  by (simp add: item_element_def)


section \<open>Proofs\<close>

text \<open>
  C2: \<open>gen_proof\<close> on a built tree returns a proof for every leaf; its item is the leaf hash,
  its root is the root of the tree, its path are the digits of the index in base \<open>b\<close>, and
  it validates. The condition on the heights holds for arity 2 and for every algorithm that
  ignores the height.
\<close>

theorem gen_proof_validates:
  assumes "merkle_build C valid elems capacity world fresh" and "tree_fits C m k"
    and "built_tree C valid elems (2 ^ m) k xs tree w" and "length xs = (2 ^ m) ^ k"
    and "i < (2 ^ m) ^ k" and "heights_agree (mt_A C) (2 ^ m)"
  shows "\<exists>p. gen_proof C (2 ^ m) 0 0 tree i w = Ok p \<and> validate (mt_A C) (2 ^ m) p = Ok True
    \<and> proof_item p = Ok (xs ! i) \<and> proof_root p = Ok (mt_root tree)
    \<and> pf_path p = leaf_path (2 ^ m) k i \<and> length (pf_lemma p) = 2 + k * (2 ^ m - 1)"
proof -
  have sh: "2 \<le> (2 ^ m :: nat)" using assms(2) tree_shape_arity(2) by (auto simp: tree_fits_def)
  have root: "mt_root tree = tree_root (node_hash (mt_A C)) (2 ^ m) k xs"
    using assms(3) by (auto simp: built_tree_def mt_root_def)
  show ?thesis
    using merkle_build.gen_base_proof_honest [OF assms(1,3,4,2,5)]
      merkle_build.honest_proof_validates [OF assms(1,4) sh assms(5,6)]
      honest_proof_shape(3) [of "2 ^ m" xs k i "node_hash (mt_A C)"] assms(4,5) root
    by (simp add: honest_proof_def proof_item_def proof_root_def
        leaf_path_tree_steps [of "2 ^ m" k i "node_hash (mt_A C)" xs])
qed

theorem gen_proof_validates_witness:
  "\<exists>tree p. try_from_iter test_types 4 (Some 16) (map Ok (replicate 16 item_zero)) () = Ok (tree, ())
    \<and> gen_proof test_types 4 0 0 tree 6 () = Ok p \<and> validate xor128_algorithm 4 p = Ok True \<and> pf_path p = [2, 1]"
proof -
  let ?xs = "map (leaf_hash xor128_algorithm) (replicate 16 item_zero)"
  obtain tree where t: "try_from_iter test_types 4 (Some 16) (map Ok (replicate 16 item_zero)) () = Ok (tree, ())"
    "built_tree test_types item_vec_inv item_vec_elems (2 ^ 2) 2 ?xs tree ()"
    using xor128_tree.try_from_iter_built
    [where w = "()" and xs = "replicate 16 item_zero", OF test_fits(2)] by auto
  have "\<exists>p. gen_proof test_types (2 ^ 2) 0 0 tree 6 () = Ok p \<and> validate (mt_A test_types) (2 ^ 2) p = Ok True
    \<and> proof_item p = Ok (?xs ! 6) \<and> proof_root p = Ok (mt_root tree) \<and> pf_path p = leaf_path (2 ^ 2) 2 6
    \<and> length (pf_lemma p) = 2 + 2 * (2 ^ 2 - 1)"
    by (rule gen_proof_validates [OF test_build test_fits(2) t(2)]) (simp_all add: xor128_heights)
  moreover have "leaf_path 4 2 6 = [2, 1]" by (simp add: leaf_path_def numeral_2_eq_2)
  ultimately show ?thesis using t(1) by auto
qed


text \<open>
  C3: soundness of a base proof: when \<open>Proof::new\<close> accepts a lemma with the path of leaf \<open>i\<close>,
  the proof validates and ends in the root of a tree, its item is the leaf of that tree, or a
  collision of the node hash is computed from the two: two different lists of children with
  the same hash at the same height.
\<close>

theorem valid_proof_has_the_leaf_or_a_collision:
  assumes "algorithm_contract A" and "2 \<le> b" and "heights_agree A b"
    and "length xs = b ^ k" and "i < b ^ k"
    and "proof_new b 0 0 None lem (leaf_path b k i) = Ok p"
    and "validate A b p = Ok True" and "proof_root p = Ok (merkle_hash (node_hash A) b k xs)"
  shows "proof_item p = Ok (xs ! i) \<or>
    (\<exists>j ns ns'. find_collision (node_hash A) 0 (hd lem) (proof_steps b p)
        (xs ! i) (tree_steps (node_hash A) b xs k i) = Some (j, ns, ns')
      \<and> ns \<noteq> ns' \<and> node_hash A j ns = node_hash A j ns')"
proof -
  note pn = proof_new_base [OF assms(6)]
  have "lem \<noteq> []" using pn(2) by auto
  moreover have "last lem = tree_root (node_hash A) b k xs"
    using assms(2,4,8) pn(1) \<open>lem \<noteq> []\<close> tree_root_merkle_hash [of b xs k "node_hash A"]
    by (simp add: proof_root_def)
  moreover have "proof_item p = Ok (hd lem)" using pn(1) \<open>lem \<noteq> []\<close> by (simp add: proof_item_def)
  ultimately show ?thesis using valid_proof_binds_leaf [OF assms(1-7)] by (cases "hd lem = xs ! i") auto
qed

theorem valid_proof_has_the_leaf_or_a_collision_witness:
  "let x = item_zero; h = node_hash xor128_algorithm; r = h 0 [x, x] in
    proof_item (Proof None 0 0 [x, x, r] [0]) = Ok x \<or>
    (\<exists>j ns ns'. find_collision h 0 x (proof_steps 2 (Proof None 0 0 [x, x, r] [0])) x (tree_steps h 2 [x, x] 1 0)
        = Some (j, ns, ns') \<and> ns \<noteq> ns' \<and> h j ns = h j ns')"
proof -
  let ?x = item_zero and ?h = "node_hash xor128_algorithm"
  let ?p = "Proof None 0 0 [?x, ?x, ?h 0 [?x, ?x]] [0]"
  have new: "proof_new 2 0 0 None [?x, ?x, ?h 0 [?x, ?x]] (leaf_path 2 1 0) = Ok ?p"
    by (simp add: proof_new_def get_merkle_proof_lemma_len_def leaf_path_def)
  have "validate xor128_algorithm 2 ?p = Ok True"
    using base_proof_valid_iff [OF xor128_alg.algorithm_contract_axioms _ new]
    by (simp add: proof_steps_def proof_height_def insert_child_def leaf_path_def)
  moreover have "proof_root ?p = Ok (merkle_hash ?h 2 1 [?x, ?x])"
    by (simp add: proof_root_def chunks.simps)
  ultimately show ?thesis
    using valid_proof_has_the_leaf_or_a_collision
      [OF xor128_alg.algorithm_contract_axioms _ xor128_heights _ _ new, of "[?x, ?x]"]
    by (simp add: Let_def)
qed

text \<open>
  C7: whatever proof \<open>Proof::new\<close> accepts for the base layer, \<open>validate\<close> returns a value on
  it: whether every position of the path is below the arity and hashing the item with its
  siblings, level by level, arrives at the root. There is no index out of bounds.
\<close>

theorem validate_decides_accepted_proofs:
  assumes "algorithm_contract A" and "2 \<le> b" and "proof_new b 0 0 None lem path = Ok p"
  shows "validate A b p = Ok ((\<forall>x \<in> set path. x < b) \<and>
    climb (proof_height A b) 0 (hd lem) (proof_steps b p) = last lem)"
  using assms by (rule base_proof_valid_iff)

theorem validate_decides_accepted_proofs_witness:
  "validate xor128_algorithm 2 (Proof None 0 0 [item_zero, item_zero, item_zero] [5]) = Ok False"
proof -
  have "proof_new 2 0 0 None [item_zero, item_zero, item_zero] [5] = Ok (Proof None 0 0 [item_zero, item_zero, item_zero] [5])"
    by (simp add: proof_new_def get_merkle_proof_lemma_len_def)
  from validate_decides_accepted_proofs [OF xor128_alg.algorithm_contract_axioms _ this] show ?thesis by simp
qed

text \<open>
  C30: two accepted proofs along one path that validate and end in the same root have the same
  item, or a collision of the node hash (with the heights \<open>validate\<close> uses) is computed from them.
\<close>

theorem valid_proofs_agree_or_collide:
  assumes "algorithm_contract A" and "2 \<le> b"
    and "proof_new b 0 0 None lem path = Ok p" and "proof_new b 0 0 None lem' path = Ok q"
    and "validate A b p = Ok True" and "validate A b q = Ok True" and "last lem = last lem'"
  shows "hd lem = hd lem' \<or>
    (\<exists>j ns ns'. find_collision (proof_height A b) 0 (hd lem) (proof_steps b p) (hd lem') (proof_steps b q)
      = Some (j, ns, ns') \<and> ns \<noteq> ns' \<and> proof_height A b j ns = proof_height A b j ns')"
  using two_valid_proofs [OF assms] by blast

theorem valid_proofs_agree_or_collide_witness:
  "let x = item_zero; h = node_hash xor128_algorithm 0 [x, x]; p = Proof None 0 0 [x, x, h] [0] in
    validate xor128_algorithm 2 p = Ok True \<and> (hd (pf_lemma p) = x \<or>
      (\<exists>j ns ns'. find_collision (proof_height xor128_algorithm 2) 0 x (proof_steps 2 p) x (proof_steps 2 p)
        = Some (j, ns, ns') \<and> ns \<noteq> ns'))"
proof -
  let ?x = item_zero and ?h = "node_hash xor128_algorithm"
  let ?p = "Proof None 0 0 [?x, ?x, ?h 0 [?x, ?x]] [0]"
  have new: "proof_new 2 0 0 None [?x, ?x, ?h 0 [?x, ?x]] [0] = Ok ?p"
    by (simp add: proof_new_def get_merkle_proof_lemma_len_def)
  have "validate xor128_algorithm 2 ?p = Ok True"
    using base_proof_valid_iff [OF xor128_alg.algorithm_contract_axioms _ new]
    by (simp add: proof_steps_def proof_height_def insert_child_def)
  then show ?thesis
    using valid_proofs_agree_or_collide [OF xor128_alg.algorithm_contract_axioms _ new new] by (auto simp: Let_def)
qed


section \<open>Compound trees\<close>

text \<open>
  C5: \<open>from_trees\<close> over \<open>n\<close> base trees of one shape returns a tree whose root hashes their
  roots and in which every index below the total number of leaves reads the leaf and has a
  proof that validates and ends in that root; an index outside makes both panic.
\<close>

theorem sub_tree_layer:
  assumes "merkle_build C valid elems capacity world fresh" and "tree_fits C m k"
    and "built_trees C valid elems (2 ^ m) k leaves trees w" and "trees \<noteq> []"
    and "tree_layer_fits (length trees) (tree_len (2 ^ m) k) (Suc k)"
    and "heights_agree (mt_A C) (2 ^ m)" and "layer_heights_agree (mt_A C)"
  shows "\<exists>tree. from_trees C (length trees) trees = Ok tree
    \<and> mt_root tree = node_hash (mt_A C) 1 (map mt_root trees)
    \<and> mt_len C tree = length trees * tree_len (2 ^ m) k + 1
    \<and> proves C (2 ^ m) (length trees) 0 tree w (concat leaves)
    \<and> (\<forall>i. \<not> i < length trees * (2 ^ m) ^ k \<longrightarrow>
        gen_proof C (2 ^ m) (length trees) 0 tree i w = Panic IndexOutOfBounds
        \<and> mt_read_at C (2 ^ m) (length trees) 0 tree i w = Panic IndexOutOfBounds)"
  using merkle_build.from_trees_layer_ok [OF assms(1,3,2,5,4,6,7)]
    merkle_build.from_trees_proves [OF assms(1,3,2,5,4,6,7)]
  by (intro exI [of _ "layer_over C (SubTree trees) ((2 ^ m) ^ k) (tree_len (2 ^ m) k) (Suc k) trees"])
    (auto simp: sub_layer_out_of_bounds)

theorem sub_tree_layer_witness:
  "\<exists>base tree p. try_from_iter test_types 2 (Some 4) (map Ok (replicate 4 item_zero)) () = Ok (base, ())
    \<and> from_trees test_types 2 (replicate 2 base) = Ok tree \<and> mt_len test_types tree = 15
    \<and> gen_proof test_types 2 2 0 tree 6 () = Ok p \<and> validate xor128_algorithm 2 p = Ok True
    \<and> gen_proof test_types 2 2 0 tree 8 () = Panic IndexOutOfBounds"
proof -
  obtain base where base: "try_from_iter test_types 2 (Some 4) (map Ok (replicate 4 item_zero)) () = Ok (base, ())"
    "\<And>n. built_trees test_types item_vec_inv item_vec_elems (2 ^ 1) 2 (replicate n test_leaves) (replicate n base) ()"
    by (rule test_tree) blast
  have "replicate 2 base \<noteq> []"
    "tree_layer_fits (length (replicate 2 base)) (tree_len (2 ^ 1) 2) (Suc 2)"
    using test_layer_fits(1) [of 2] by simp_all
  from sub_tree_layer [OF test_build test_fits(1) base(2) this test_heights]
  obtain tree where tree: "from_trees test_types 2 (replicate 2 base) = Ok tree" "mt_len test_types tree = 15"
    "proves test_types 2 2 0 tree () (concat (replicate 2 test_leaves))"
    "gen_proof test_types 2 2 0 tree 8 () = Panic IndexOutOfBounds"
    by (auto simp del: map_replicate)
  from provesD(2) [OF tree(3), of 6] show ?thesis
    using base(1) tree(1,2,4) by (auto simp: length_concat sum_list_replicate)
qed

text \<open>
  C6: the same with two layers: \<open>from_sub_trees\<close> over \<open>t\<close> trees that \<open>from_trees\<close> made of
  \<open>n\<close> base trees each. The proofs nest: leaf, base tree, sub-tree layer, top layer.
\<close>

theorem top_layer:
  assumes "merkle_build C valid elems capacity world fresh" and "tree_fits C m k"
    and "list_all2 (\<lambda>leaves trees. built_trees C valid elems (2 ^ m) k leaves trees w \<and> length trees = n) leavess treess"
    and "map_outcome (from_trees C n) treess = Ok sub_trees" and "treess \<noteq> []" and "0 < n"
    and "tree_layer_fits n (tree_len (2 ^ m) k) (Suc k)"
    and "tree_layer_fits (length treess) (n * tree_len (2 ^ m) k + 1) (Suc (Suc k))"
    and "heights_agree (mt_A C) (2 ^ m)" and "layer_heights_agree (mt_A C)"
  shows "\<exists>tree. from_sub_trees C (length treess) sub_trees = Ok tree
    \<and> mt_root tree = node_hash (mt_A C) 1 (map mt_root sub_trees)
    \<and> proves C (2 ^ m) n (length treess) tree w (concat (map concat leavess))"
  using merkle_build.from_sub_trees_proves [OF assms(1,3,4,2,7,8,5,6,9,10)]
  by (intro exI conjI) (assumption, simp, assumption)

theorem top_layer_witness:
  "\<exists>base sub tree p. try_from_iter test_types 2 (Some 4) (map Ok (replicate 4 item_zero)) () = Ok (base, ())
    \<and> from_trees test_types 2 (replicate 2 base) = Ok sub \<and> from_sub_trees test_types 3 (replicate 3 sub) = Ok tree
    \<and> gen_proof test_types 2 2 3 tree 17 () = Ok p \<and> validate xor128_algorithm 2 p = Ok True"
proof -
  obtain base where base: "try_from_iter test_types 2 (Some 4) (map Ok (replicate 4 item_zero)) () = Ok (base, ())"
    "\<And>n. built_trees test_types item_vec_inv item_vec_elems (2 ^ 1) 2 (replicate n test_leaves) (replicate n base) ()"
    by (rule test_tree) blast
  obtain sub where sub: "from_trees test_types 2 (replicate 2 base) = Ok sub"
    using test_sub_tree [OF base(2), of 2] by auto
  let ?treess = "replicate 3 (replicate 2 base)" and ?leavess = "replicate 3 (replicate 2 test_leaves)"
  have subs: "map_outcome (from_trees test_types 2) ?treess = Ok (replicate 3 sub)"
    using sub by (simp add: numeral_3_eq_3)
  have groups: "list_all2 (\<lambda>leaves trees. built_trees test_types item_vec_inv item_vec_elems (2 ^ 1) 2 leaves trees ()
      \<and> length trees = 2) ?leavess ?treess" using base(2) [of 2] by (simp add: list_all2_conv_all_nth)
  have fits: "?treess \<noteq> []" "0 < (2 :: nat)" "tree_layer_fits 2 (tree_len (2 ^ 1) 2) (Suc 2)"
    "tree_layer_fits (length ?treess) (2 * tree_len (2 ^ 1) 2 + 1) (Suc (Suc 2))"
    using test_layer_fits(1) [of 2] test_layer_fits(2) [of 3 2] by simp_all
  obtain tree where tree: "from_sub_trees test_types 3 (replicate 3 sub) = Ok tree"
    "proves test_types 2 2 3 tree () (concat (map concat ?leavess))"
    using top_layer [OF test_build test_fits(1) groups subs fits test_heights]
    by (auto simp del: map_replicate)
  from provesD(2) [OF tree(2), of 17] show ?thesis
    using base(1) sub tree(1) by (auto simp: length_concat sum_list_replicate)
qed

text \<open>
  C31: \<open>from_sub_trees_as_trees\<close> returns a tree for \<open>TopTreeArity = 2\<close> and
  \<open>SubTreeArity \<ge> 2\<close> only, whatever the trees: for all other arities the grouping cuts off a
  group that \<open>from_trees\<close> refuses (or the step of the loop is 0).
\<close>

theorem as_trees_needs_two_top_nodes:
  assumes "from_sub_trees_as_trees C n t trees = Ok tree"
  shows "t = 2 \<and> 2 \<le> n"
  using assms by (rule as_trees_arities)

theorem as_trees_needs_two_top_nodes_witness:
  "\<exists>base tree. try_from_iter test_types 2 (Some 4) (map Ok (replicate 4 item_zero)) () = Ok (base, ())
    \<and> from_sub_trees_as_trees test_types 2 2 (replicate 4 base) = Ok tree \<and> 2 = (2 :: nat) \<and> 2 \<le> (2 :: nat)"
proof -
  obtain base where base: "try_from_iter test_types 2 (Some 4) (map Ok (replicate 4 item_zero)) () = Ok (base, ())"
    "\<And>n. built_trees test_types item_vec_inv item_vec_elems (2 ^ 1) 2 (replicate n test_leaves) (replicate n base) ()"
    by (rule test_tree) blast
  obtain sub where sub: "from_trees test_types 2 (replicate 2 base) = Ok sub"
    using test_sub_tree [OF base(2), of 2] by auto
  let ?treess = "replicate 2 (replicate 2 base)" and ?leavess = "replicate 2 (replicate 2 test_leaves)"
  have subs: "map_outcome (from_trees test_types 2) ?treess = Ok (replicate 2 sub)"
    using sub by (simp add: numeral_2_eq_2)
  have groups: "list_all2 (\<lambda>leaves trees. built_trees test_types item_vec_inv item_vec_elems (2 ^ 1) 2 leaves trees ()
      \<and> length trees = 2) ?leavess ?treess" using base(2) [of 2] by (simp add: list_all2_conv_all_nth)
  have fits: "tree_layer_fits 2 (tree_len (2 ^ 1) 2) (Suc 2)"
    "tree_layer_fits (length ?treess) (2 * tree_len (2 ^ 1) 2 + 1) (Suc (Suc 2))"
    using test_layer_fits(1) [of 2] test_layer_fits(2) [of 2 2] by simp_all
  obtain leafs len row_count root where comb: "combine_trees test_types (replicate 2 sub) = Ok (leafs, len, row_count, root)"
    using xor128_tree.from_sub_trees_proves(3) [OF groups subs test_fits(1) fits _ _ test_heights]
    by (auto simp del: map_replicate)
  have "[take 2 (replicate 4 base), drop 2 (replicate 4 base)] = ?treess" by (simp add: numeral_2_eq_2)
  with subs have "map_outcome (from_trees test_types 2) [take 2 (replicate 4 base), drop 2 (replicate 4 base)]
      = Ok (replicate 2 sub)" by simp
  then have "from_sub_trees_as_trees test_types 2 2 (replicate 4 base) =
      Ok (MerkleTree (TopTree (replicate 2 sub)) leafs len row_count root)"
    using comb by (intro as_trees_two) (simp_all add: same_row_counts_def same_lengths_def list_all_iff)
  with base(1) as_trees_needs_two_top_nodes show ?thesis by blast
qed


section \<open>Proofs of data\<close>

lemma data_proof_decides:
  assumes "merkle_build C valid elems capacity world fresh" and "tree_fits C m k"
    and "built_tree C valid elems (2 ^ m) k xs tree w" and "length xs = (2 ^ m) ^ k"
    and "i < (2 ^ m) ^ k" and "heights_agree (mt_A C) (2 ^ m)"
  shows "\<exists>p. gen_proof C (2 ^ m) 0 0 tree i w = Ok p
    \<and> (\<forall>d. validate_with_data (mt_A C) (2 ^ m) hash d p = Ok (data_leaf (mt_A C) hash d = xs ! i))"
proof -
  have alg: "algorithm_contract (mt_A C)" using assms(1) by (simp add: merkle_build_def)
  have sh: "2 \<le> (2 ^ m :: nat)" using assms(2) tree_shape_arity(2) by (auto simp: tree_fits_def)
  let ?p = "honest_proof (node_hash (mt_A C)) (2 ^ m) k xs i"
  have item: "proof_item ?p = Ok (xs ! i)" by (simp add: honest_proof_def proof_item_def)
  have "validate_with_data (mt_A C) (2 ^ m) hash d ?p = Ok (data_leaf (mt_A C) hash d = xs ! i)" for d
    by (rule validate_with_data_item [OF alg item merkle_build.honest_proof_validates [OF assms(1,4) sh assms(5,6)]])
  then show ?thesis using merkle_build.gen_base_proof_honest [OF assms(1,3,4,2,5)] by blast
qed

text \<open>
  C32: for a built tree \<open>validate_with_data\<close> accepts the proof of leaf
  \<open>i\<close> with an object exactly when the leaf hash of the object's digest is the leaf.
\<close>

theorem validate_with_data_base:
  assumes "merkle_build C valid elems capacity world fresh" and "tree_fits C m k"
    and "built_tree C valid elems (2 ^ m) k xs tree w" and "length xs = (2 ^ m) ^ k"
    and "i < (2 ^ m) ^ k" and "heights_agree (mt_A C) (2 ^ m)"
  shows "\<exists>p. gen_proof C (2 ^ m) 0 0 tree i w = Ok p
    \<and> validate_with_data (mt_A C) (2 ^ m) hash d p = Ok (data_leaf (mt_A C) hash d = xs ! i)"
  using data_proof_decides [OF assms, of hash] by blast

theorem validate_with_data_base_witness:
  "\<exists>tree p. try_from_iter test_types 2 (Some 4) (map Ok (replicate 4 item_zero)) () = Ok (tree, ())
    \<and> gen_proof test_types 2 0 0 tree 3 () = Ok p
    \<and> validate_with_data xor128_algorithm 2 (hash_bool xor128_algorithm) True p =
        Ok (data_leaf xor128_algorithm (hash_bool xor128_algorithm) True = test_leaves ! 3)"
proof -
  obtain tree where t: "try_from_iter test_types 2 (Some 4) (map Ok (replicate 4 item_zero)) () = Ok (tree, ())"
    "built_tree test_types item_vec_inv item_vec_elems (2 ^ 1) 2 test_leaves tree ()"
    by (rule test_tree) blast
  have "\<exists>p. gen_proof test_types (2 ^ 1) 0 0 tree 3 () = Ok p
    \<and> validate_with_data (mt_A test_types) (2 ^ 1) (hash_bool xor128_algorithm) True p =
        Ok (data_leaf (mt_A test_types) (hash_bool xor128_algorithm) True = test_leaves ! 3)"
    by (rule validate_with_data_base [OF test_build test_fits(1) t(2)]) (simp_all add: test_heights [simplified])
  then show ?thesis using t(1) by simp
qed

lemma data_tree_proves:
  assumes "merkle_build C valid elems capacity world fresh" and "tree_fits C m k"
    and "built_tree C valid elems (2 ^ m) k (map (data_leaf (mt_A C) hash) objects) tree w"
    and "length objects = (2 ^ m) ^ k" and "heights_agree (mt_A C) (2 ^ m)" and "i < (2 ^ m) ^ k"
  shows "\<exists>p. gen_proof C (2 ^ m) 0 0 tree i w = Ok p
    \<and> validate_with_data (mt_A C) (2 ^ m) hash (objects ! i) p = Ok True
    \<and> (\<forall>d. validate_with_data (mt_A C) (2 ^ m) hash d p =
        Ok (data_leaf (mt_A C) hash d = data_leaf (mt_A C) hash (objects ! i)))"
proof -
  let ?leaf = "data_leaf (mt_A C) hash"
  have len: "length (map ?leaf objects) = (2 ^ m) ^ k" using assms(4) by simp
  have leaf: "map ?leaf objects ! i = ?leaf (objects ! i)" using assms(4,6) by simp
  obtain p where "gen_proof C (2 ^ m) 0 0 tree i w = Ok p"
    and "\<forall>d. validate_with_data (mt_A C) (2 ^ m) hash d p = Ok (?leaf d = map ?leaf objects ! i)"
    using data_proof_decides [OF assms(1-3) len assms(6,5), of hash] by blast
  then show ?thesis unfolding leaf by (intro exI [of _ p]) simp
qed

text \<open>
  C40: \<open>from_data\<close> and, where no stored data exists, \<open>from_data_with_config\<close> hash every object with a
  hasher that is reset for it, whatever the objects before it left there, and hash the digest again
  as a leaf. In the tree the generated proof of every index validates with the object of that index,
  and with another object exactly when the two have the same leaf hash.
\<close>

theorem from_data_validates_its_objects:
  assumes "merkle_build C valid elems capacity world fresh" and "tree_fits C m k" and "world w"
    and "fresh config w" and "length objects = (2 ^ m) ^ k" and "heights_agree (mt_A C) (2 ^ m)"
  shows "(\<exists>tree w'. from_data C (2 ^ m) (Some ((2 ^ m) ^ k)) hash objects w = Ok (tree, w')
      \<and> built_tree C valid elems (2 ^ m) k (map (data_leaf (mt_A C) hash) objects) tree w'
      \<and> (\<forall>i < (2 ^ m) ^ k. \<exists>p. gen_proof C (2 ^ m) 0 0 tree i w' = Ok p
        \<and> validate_with_data (mt_A C) (2 ^ m) hash (objects ! i) p = Ok True
        \<and> (\<forall>d. validate_with_data (mt_A C) (2 ^ m) hash d p =
            Ok (data_leaf (mt_A C) hash d = data_leaf (mt_A C) hash (objects ! i)))))
    \<and> (\<exists>tree w'. from_data_with_config C (2 ^ m) (Some ((2 ^ m) ^ k)) hash objects config w = Ok (tree, w')
      \<and> built_tree C valid elems (2 ^ m) k (map (data_leaf (mt_A C) hash) objects) tree w'
      \<and> (\<forall>i < (2 ^ m) ^ k. \<exists>p. gen_proof C (2 ^ m) 0 0 tree i w' = Ok p
        \<and> validate_with_data (mt_A C) (2 ^ m) hash (objects ! i) p = Ok True
        \<and> (\<forall>d. validate_with_data (mt_A C) (2 ^ m) hash d p =
            Ok (data_leaf (mt_A C) hash d = data_leaf (mt_A C) hash (objects ! i)))))"
proof -
  let ?items = "map (\<lambda>x. fst (alg_hash (mt_A C) (hash x (alg_default (mt_A C))))) objects"
  have "algorithm_contract (mt_A C)" using assms(1) by (simp add: merkle_build_def)
  then have items: "hash_objects (mt_A C) hash objects a = ?items" for a
    by (rule algorithm_contract.hash_objects_map)
  have leaves: "map (leaf_hash (mt_A C)) ?items = map (data_leaf (mt_A C) hash) objects"
    by (simp add: data_leaf_def)
  have len: "length ?items = (2 ^ m) ^ k" using assms(5) by simp
  obtain t1 w1 where 1: "from_data C (2 ^ m) (Some ((2 ^ m) ^ k)) hash objects w = Ok (t1, w1)"
    "built_tree C valid elems (2 ^ m) k (map (data_leaf (mt_A C) hash) objects) t1 w1"
    using merkle_build.try_from_iter_built [OF assms(1-3) len] unfolding from_data_def items leaves by blast
  obtain t2 w2 where 2: "from_data_with_config C (2 ^ m) (Some ((2 ^ m) ^ k)) hash objects config w = Ok (t2, w2)"
    "built_tree C valid elems (2 ^ m) k (map (data_leaf (mt_A C) hash) objects) t2 w2"
    using merkle_build.try_from_iter_with_config_built [OF assms(1-4) len]
    unfolding from_data_with_config_def items leaves by blast
  note proves = data_tree_proves [OF assms(1,2) _ assms(5,6)]
  show ?thesis using 1 2 proves [OF 1(2)] proves [OF 2(2)] by blast
qed

theorem from_data_validates_its_objects_witness:
  "\<exists>tree p. from_data test_types 2 (Some 4) (hash_bool xor128_algorithm) [True, False, True, True] () = Ok (tree, ())
    \<and> gen_proof test_types 2 0 0 tree 1 () = Ok p
    \<and> validate_with_data xor128_algorithm 2 (hash_bool xor128_algorithm) False p = Ok True"
proof -
  let ?objects = "[True, False, True, True]" and ?hash = "hash_bool xor128_algorithm"
  have "length ?objects = (2 ^ 1) ^ 2" by simp
  note built = from_data_validates_its_objects
    [where w = "()" and config = undefined and hash = ?hash,
      OF test_build test_fits(1) TrueI TrueI this test_heights(1), THEN conjunct1]
  obtain tree w' where t: "from_data test_types (2 ^ 1) (Some ((2 ^ 1) ^ 2)) ?hash ?objects () = Ok (tree, w')"
    "\<forall>i < (2 ^ 1) ^ 2. \<exists>p. gen_proof test_types (2 ^ 1) 0 0 tree i w' = Ok p
      \<and> validate_with_data (mt_A test_types) (2 ^ 1) ?hash (?objects ! i) p = Ok True"
    using built by blast
  obtain p where "gen_proof test_types (2 ^ 1) 0 0 tree 1 w' = Ok p"
    "validate_with_data (mt_A test_types) (2 ^ 1) ?hash (?objects ! 1) p = Ok True"
    using t(2) [rule_format, of 1] by auto
  with t(1) show ?thesis by auto
qed

text \<open>
  C33: on a valid proof of a compound tree \<open>validate_with_data\<close> compares the leaf hash of the
  data not with the leaf but with the first element of the outermost lemma, which is the root of
  another tree of the layer.
\<close>

theorem validate_with_data_compares_a_sibling_root:
  assumes "algorithm_contract (mt_A C)" and "gen_proof C b n t tree i w = Ok p" and "tree_data tree = SubTree trees"
    and "2 \<le> length trees" and "validate (mt_A C) b p = Ok True"
  shows "validate_with_data (mt_A C) b hash d p =
    Ok (data_leaf (mt_A C) hash d =
      mt_root (trees ! (if i div (tree_leafs tree div length trees) = 0 then 1 else 0)))"
proof -
  let ?j = "i div (tree_leafs tree div length trees)"
  obtain q where j: "?j < length trees" and p: "p = layer_proof q t n (map mt_root trees) (mt_root tree) ?j"
    using sub_tree_proof_shape [OF assms(2,3)] by blast
  have "proof_item p = Ok (map mt_root trees ! (if ?j = 0 then 1 else 0))"
    unfolding p by (rule layer_proof_item) (use j assms(4) in simp_all)
  moreover have "map mt_root trees ! (if ?j = 0 then 1 else 0) = mt_root (trees ! (if ?j = 0 then 1 else 0))"
    using assms(4) by (intro nth_map) auto
  ultimately show ?thesis using validate_with_data_item [OF assms(1) _ assms(5)] by metis
qed

theorem validate_with_data_compares_a_sibling_root_witness:
  "\<exists>base tree p. try_from_iter test_types 2 (Some 4) (map Ok (replicate 4 item_zero)) () = Ok (base, ())
    \<and> from_trees test_types 2 (replicate 2 base) = Ok tree \<and> gen_proof test_types 2 2 0 tree 6 () = Ok p
    \<and> validate_with_data xor128_algorithm 2 (hash_bool xor128_algorithm) True p =
        Ok (data_leaf xor128_algorithm (hash_bool xor128_algorithm) True = mt_root base)"
proof -
  obtain base where base: "try_from_iter test_types 2 (Some 4) (map Ok (replicate 4 item_zero)) () = Ok (base, ())"
    "\<And>n. built_trees test_types item_vec_inv item_vec_elems (2 ^ 1) 2 (replicate n test_leaves) (replicate n base) ()"
    by (rule test_tree) blast
  have fits: "tree_layer_fits (length (replicate 2 base)) (tree_len (2 ^ 1) 2) (Suc 2)" "replicate 2 base \<noteq> []"
    using test_layer_fits(1) [of 2] by simp_all
  let ?tree = "layer_over test_types (SubTree (replicate 2 base)) ((2 ^ 1) ^ 2) (tree_len (2 ^ 1) 2) (Suc 2) (replicate 2 base)"
  note sub = xor128_tree.from_trees_proves [OF base(2) test_fits(1) fits test_heights]
  obtain p where p: "gen_proof test_types 2 2 0 ?tree 6 () = Ok p" "validate (mt_A test_types) 2 p = Ok True"
    using provesD(2) [OF sub(2), of 6] by (auto simp: length_concat sum_list_replicate)
  have "validate_with_data (mt_A test_types) 2 (hash_bool xor128_algorithm) True p =
    Ok (data_leaf (mt_A test_types) (hash_bool xor128_algorithm) True =
      mt_root (replicate 2 base ! (if 6 div (tree_leafs ?tree div length (replicate 2 base)) = 0 then 1 else 0)))"
    by (rule validate_with_data_compares_a_sibling_root [OF _ p(1) _ _ p(2)])
      (simp_all add: xor128_alg.algorithm_contract_axioms)
  then show ?thesis using base(1) sub(1) p(1) by auto
qed


section \<open>Stores\<close>

text \<open>
  C4: the default \<open>build\<close> (small and large trees alike, the latter by chunks of
  \<open>BUILD_CHUNK_NODES\<close> nodes per \<open>process_layer\<close>) refines the specification of the rows
  over every store whose basic methods keep the contract.
\<close>

theorem default_build_refines_rows:
  assumes "store_contract el ops valid elems capacity world fresh"
    and "valid s w" and "elems s w = xs" and "length xs = (2 ^ m) ^ k" and "tree_shape m k" and "m \<le> 12"
    and "tree_len (2 ^ m) k \<le> capacity s w"
  shows "\<exists>s' w'. st_build (with_default_build el ops) A (2 ^ m) ((2 ^ m) ^ k) (Suc k) config s w =
      Ok (merkle_hash (node_hash A) (2 ^ m) k xs, s', w')
    \<and> valid s' w' \<and> elems s' w' = tree_nodes (node_hash A) (2 ^ m) k xs"
  using tree_store.build_Ok [OF default_tree_store [OF assms(1)] assms(2-7), of A "Suc k" config]
    tree_root_merkle_hash [of "2 ^ m" xs k "node_hash A"] assms(4)
  by (simp add: store_contract.build_result_def [OF assms(1)])

theorem default_build_refines_rows_witness:
  "\<exists>s'. st_build (vec_store item_element) xor128_algorithm 2 4 3 None (replicate 4 item_zero) () =
    Ok (merkle_hash (node_hash xor128_algorithm) 2 2 (replicate 4 item_zero), s', ())
    \<and> s' = tree_nodes (node_hash xor128_algorithm) 2 2 (replicate 4 item_zero)"
proof -
  have c: "store_contract item_element (vec_store_ops item_element :: (unit, item vec_store, item) store_ops)
      (\<lambda>s w. vec_inv item_element s) (\<lambda>s w. s) (\<lambda>s w. vec_capacity item_element) (\<lambda>w. True) (\<lambda>config w. True)"
    by (rule element_contract.vec_store_contract [OF item.element_contract_axioms])
  have "vec_inv item_element (replicate 4 item_zero)" "tree_len (2 ^ 1) 2 \<le> vec_capacity item_element"
    by (simp_all add: vec_inv_def vec_capacity_def item_element_def)
  then show ?thesis
    using default_build_refines_rows [where w = "()" and s = "replicate 4 item_zero" and m = 1 and k = 2
        and A = xor128_algorithm and config = None, OF c _ refl]
    by (simp add: vec_store_def tree_shape_def numeral_3_eq_3)
qed

text \<open>
  C8: \<open>VecStore\<close> is a store a tree can be built in, for every element type that keeps the
  contract of \<open>Element\<close>: every method of the contract, and \<open>build\<close>.
\<close>

theorem vec_store_is_a_tree_store:
  assumes "element_contract el"
  shows "tree_store el (vec_store el :: ('w, 'e vec_store, 'e, 'a) store)
    (\<lambda>s w. vec_inv el s) (\<lambda>s w. s) (\<lambda>s w. vec_capacity el) (\<lambda>w. True) (\<lambda>config w. True)"
  using assms by (rule element_contract.vec_tree_store)

theorem vec_store_is_a_tree_store_witness:
  "tree_store bytes32_element (vec_store bytes32_element :: (unit, bytes32 vec_store, bytes32, xor128) store)
    (\<lambda>s w. vec_inv bytes32_element s) (\<lambda>s w. s) (\<lambda>s w. vec_capacity bytes32_element) (\<lambda>w. True) (\<lambda>config w. True)"
  by (rule vec_store_is_a_tree_store [OF bytes32.element_contract_axioms])


section \<open>Hashes\<close>

text \<open>
  An algorithm that keeps the default bodies hashes a leaf as the byte 0 and the leaf, a
  node as the byte 1 and its children: no leaf and no node are hashed from the same bytes.
\<close>

theorem default_hashes_are_separated:
  assumes "uses_defaults el A" and "\<And>xs ys a. h_write A (xs @ ys) a = h_write A ys (h_write A xs a)"
  shows "leaf_hash A x = digest A (LEAF # el_as_ref el x)
    \<and> node_hash A height ns = digest A (INTERIOR # concat (map (el_as_ref el) ns))
    \<and> LEAF # el_as_ref el x \<noteq> INTERIOR # concat (map (el_as_ref el) ns)"
  using default_leaf_digest [OF assms] default_node_digest [OF assms]
  by (simp add: LEAF_def INTERIOR_def)

theorem default_hashes_are_separated_witness:
  "leaf_hash xor128_algorithm item_zero = digest xor128_algorithm (LEAF # Rep_item item_zero)"
proof -
  have "h_write xor128_algorithm = xor128_write" by (simp add: xor128_algorithm_def std_hasher_def hasher.defs)
  then show ?thesis
    using default_hashes_are_separated [OF xor128_uses_defaults, of item_zero] xor128_write_append
    by (simp add: item_element_def)
qed

text \<open>
  The test algorithm: byte \<open>j\<close> of the digest is the exclusive or of the bytes of the
  stream at the positions congruent to \<open>j\<close> modulo 16.
\<close>

theorem xor128_digest_bytes:
  assumes "j < 16"
  shows "Rep_item (x_data (xor128_write bytes xor128_new)) ! j =
    fold (XOR) (map ((!) bytes) (filter (\<lambda>i. i mod 16 = j) [0..<length bytes])) 0"
  using xor128_write_nth [OF assms, of bytes xor128_new] assms by (simp add: xor128_new_def)

theorem xor128_digest_bytes_witness:
  "Rep_item (x_data (xor128_write [1, 2, 4] xor128_new)) ! 2 = 4"
  using xor128_digest_bytes [of 2 "[1, 2, 4]"] by (simp add: upt_rec)

text \<open>The test algorithm maps its stream, so its slices are hashed like their elements.\<close>

lemmas xor128_integer_slices = integer_slices_stream [OF xor128.stream_hasher_axioms]

end
